(* ===== verification/Prelude.thy ===== *)
theory Prelude
  imports Main "HOL-Library.AList"
begin

text \<open>
  Shared vocabulary of the development.

  \<^item> Panics. Every \<open>panic!\<close>, \<open>expect\<close>, \<open>assert!\<close> and \<open>unimplemented!\<close> of the sources is a value
    of \<open>panic\<close>; a fallible operation returns \<open>panic + 'a\<close> and is composed with \<open>and_then\<close>
    (named after \<open>Result::and_then\<close>) and \<open>try_fold\<close>. Two constructors have no counterpart in
    the code: \<open>OutOfFuel\<close> (a bounded run of a loop that may not end did not end) and
    \<open>DanglingRef\<close> (an address outside the store that models the \<open>Rc\<close> cells); that
    \<open>DanglingRef\<close> never occurs is a theorem.
  \<^item> A Hoare-style predicate \<open>ensures E P m\<close> on such results (the panic, if any, satisfies
    \<open>E\<close>; the value, if any, satisfies \<open>P\<close>), with its rules in the collection
    \<open>ensures_intros\<close>.
  \<^item> \<open>std::collections::HashMap\<close> as an association list (\<open>hash_map\<close>) with the operations
    the code calls, and its contract as the locale \<open>key_value_store\<close>.
  \<^item> The \<open>str\<close> methods the code calls: \<open>replace\<close> (for a \<open>&str\<close> and for an array of
    characters), \<open>contains\<close>, \<open>starts_with\<close>, and the decimal formatting of a \<open>usize\<close>.
\<close>

section \<open>Panics and results\<close>

datatype panic =
    PlaceTransitionArcFailed
  | TransitionPlaceArcFailed
  | TokenOverflow
  | PeekOnEmptyStack
  | PeekMutOnEmptyStack
  | NoActiveBlock
  | InvalidActiveBlock
  | BlockAddedTwice
  | BlockNotRetrieved
  | PlaceNotLinked
  | UnexpectedValue string string
  | AggregateAlreadyLinked string
  | FieldIndexOutOfBounds nat
  | FieldAlreadyLinked nat
  | FieldNumberNotFound
  | ArgumentNotAPlace string
  | HandlerNotDefined string
  | MultipleWaitCalls
  | CondvarLinkedTwice
  | JoinTransitionSetTwice
  | NoMainFunction
  | FunctionPointer
  | NotAFunctionType
  | SpawnWithoutFunction
  | SpawnWithoutArguments
  | ClosureWithUserType
  | ClosureConstType
  | ClosureConstUnevaluated
  | ClosureConstNotZeroSized
  | TerminatorNotImplemented string
  | GlobalContextUnavailable
  | LolaUnknownError
  | LolaNotFound
  | LolaNotUtf8
  | LolaUnknownOutput
  | DanglingRef
  | OutOfFuel

type_synonym 'a res = "panic + 'a"

text \<open>
  The panics whose messages start with \<open>BUG\<close> or that state an internal inconsistency of the
  translator: a reference that is not in the net, an empty call stack, a basic block that is
  missing or was added twice, a function without a handler. They depend on the translator only.
  The other panics report something in the input that is not supported, an answer of the
  environment, or the overflow of a token count.
\<close>

definition internal_panic :: "panic \<Rightarrow> bool" where
  "internal_panic e = (case e of
      PlaceTransitionArcFailed \<Rightarrow> True | TransitionPlaceArcFailed \<Rightarrow> True
    | PeekOnEmptyStack \<Rightarrow> True | PeekMutOnEmptyStack \<Rightarrow> True
    | NoActiveBlock \<Rightarrow> True | InvalidActiveBlock \<Rightarrow> True
    | BlockAddedTwice \<Rightarrow> True | BlockNotRetrieved \<Rightarrow> True
    | HandlerNotDefined _ \<Rightarrow> True | CondvarLinkedTwice \<Rightarrow> True
    | SpawnWithoutArguments \<Rightarrow> True | DanglingRef \<Rightarrow> True
    | _ \<Rightarrow> False)"

abbreviation external_panic :: "panic \<Rightarrow> bool" where
  "external_panic e \<equiv> \<not> internal_panic e"

lemma internal_panic_simps [simp]:
  "external_panic PlaceNotLinked" "external_panic (UnexpectedValue x y)"
  "external_panic (AggregateAlreadyLinked x)" "external_panic (FieldIndexOutOfBounds n)"
  "external_panic (FieldAlreadyLinked n)" "external_panic FieldNumberNotFound"
  "external_panic (ArgumentNotAPlace x)" "external_panic MultipleWaitCalls"
  "external_panic JoinTransitionSetTwice" "external_panic NoMainFunction"
  "external_panic FunctionPointer" "external_panic NotAFunctionType"
  "external_panic SpawnWithoutFunction" "external_panic ClosureWithUserType"
  "external_panic ClosureConstType" "external_panic ClosureConstUnevaluated"
  "external_panic ClosureConstNotZeroSized" "external_panic (TerminatorNotImplemented x)"
  "external_panic TokenOverflow" "external_panic OutOfFuel"
  by (simp_all add: internal_panic_def)

definition and_then :: "('e + 'a) \<Rightarrow> ('a \<Rightarrow> 'e + 'b) \<Rightarrow> 'e + 'b" where
  "and_then m f = (case m of Inl e \<Rightarrow> Inl e | Inr x \<Rightarrow> f x)"

fun try_fold :: "('a \<Rightarrow> 's \<Rightarrow> 'e + 's) \<Rightarrow> 'a list \<Rightarrow> 's \<Rightarrow> 'e + 's" where
  "try_fold f [] s = Inr s"
| "try_fold f (x # xs) s = and_then (f x s) (try_fold f xs)"

definition ok_or :: "'e \<Rightarrow> 'a option \<Rightarrow> 'e + 'a" where
  "ok_or e m = (case m of None \<Rightarrow> Inl e | Some x \<Rightarrow> Inr x)"

lemma and_then_Inl [simp]: "and_then (Inl e) f = Inl e"
  by (simp add: and_then_def)

lemma and_then_Inr [simp]: "and_then (Inr x) f = f x"
  by (simp add: and_then_def)

lemma and_then_eq_Inr [simp]: "and_then m f = Inr y \<longleftrightarrow> (\<exists>x. m = Inr x \<and> f x = Inr y)"
  by (cases m) simp_all

lemma and_then_eq_Inl: "and_then m f = Inl e \<longleftrightarrow> m = Inl e \<or> (\<exists>x. m = Inr x \<and> f x = Inl e)"
  by (cases m) simp_all

lemma ok_or_simps [simp]: "ok_or e None = Inl e" "ok_or e (Some x) = Inr x"
  by (simp_all add: ok_or_def)

lemma ok_or_eq_Inr [simp]: "ok_or e m = Inr x \<longleftrightarrow> m = Some x"
  by (cases m) simp_all

lemma try_fold_append: "try_fold f (xs @ ys) s = and_then (try_fold f xs s) (try_fold f ys)"
proof (induction xs arbitrary: s)
  case Nil
  show ?case by simp
next
  case (Cons x xs)
  then show ?case by (cases "f x s") simp_all
qed

subsection \<open>Pre- and postconditions of results\<close>

named_theorems ensures_intros

definition ensures :: "('e \<Rightarrow> bool) \<Rightarrow> ('a \<Rightarrow> bool) \<Rightarrow> 'e + 'a \<Rightarrow> bool" where
  "ensures E P m = (case m of Inl e \<Rightarrow> E e | Inr x \<Rightarrow> P x)"

lemma ensures_simps [simp]: "ensures E P (Inl e) = E e" "ensures E P (Inr x) = P x"
  by (simp_all add: ensures_def)

lemma ensures_and_then:
  "ensures E Q m \<Longrightarrow> (\<And>x. m = Inr x \<Longrightarrow> Q x \<Longrightarrow> ensures E P (f x)) \<Longrightarrow> ensures E P (and_then m f)"
  by (cases m) simp_all

text \<open>The weakest precondition of a sequence of calls, and the rule that applies a call's contract.\<close>

lemma ensures_bind [simp]: "ensures E P (and_then m f) \<longleftrightarrow> ensures E (\<lambda>x. ensures E P (f x)) m"
  by (cases m) simp_all

lemma ensures_mono:
  "ensures E Q m \<Longrightarrow> (\<And>x. m = Inr x \<Longrightarrow> Q x \<Longrightarrow> P x) \<Longrightarrow> ensures E P m"
  by (cases m) simp_all

lemma ensures_ok_or [ensures_intros]:
  "(m = None \<Longrightarrow> E e) \<Longrightarrow> (\<And>x. m = Some x \<Longrightarrow> P x) \<Longrightarrow> ensures E P (ok_or e m)"
  by (cases m) simp_all

lemma ensures_try_fold:
  assumes "I s" and "\<And>x s. x \<in> set xs \<Longrightarrow> I s \<Longrightarrow> ensures E I (f x s)"
  shows "ensures E I (try_fold f xs s)"
  using assms
proof (induction xs arbitrary: s)
  case Nil
  then show ?case by simp
next
  case (Cons x xs)
  have "ensures E I (f x s)" using Cons.prems by simp
  moreover have "ensures E I (try_fold f xs s')" if "I s'" for s'
    using that Cons.prems(2) by (intro Cons.IH) simp_all
  ultimately show ?case
    by (auto intro: ensures_mono)
qed

lemma ensures_InrD: "ensures E P m \<Longrightarrow> m = Inr x \<Longrightarrow> P x"
  by simp

lemma ensures_InlD: "ensures E P m \<Longrightarrow> m = Inl e \<Longrightarrow> E e"
  by simp

section \<open>Hash maps\<close>

type_synonym ('k, 'v) hash_map = "('k \<times> 'v) list"

definition hm_new :: "('k, 'v) hash_map" where
  "hm_new = []"

definition hm_get :: "('k, 'v) hash_map \<Rightarrow> 'k \<Rightarrow> 'v option" where
  "hm_get m k = map_of m k"

definition hm_insert :: "'k \<Rightarrow> 'v \<Rightarrow> ('k, 'v) hash_map \<Rightarrow> ('k, 'v) hash_map" where
  "hm_insert k v m = AList.update k v m"

definition hm_contains_key :: "('k, 'v) hash_map \<Rightarrow> 'k \<Rightarrow> bool" where
  "hm_contains_key m k = (case hm_get m k of None \<Rightarrow> False | Some _ \<Rightarrow> True)"

definition hm_is_empty :: "('k, 'v) hash_map \<Rightarrow> bool" where
  "hm_is_empty m = (case m of [] \<Rightarrow> True | _ # _ \<Rightarrow> False)"

text \<open>The contract of a map from keys to values; the components below reason from it alone.\<close>

locale key_value_store =
  fixes empty :: "'m"
    and lookup :: "'m \<Rightarrow> 'k \<Rightarrow> 'v option"
    and store :: "'k \<Rightarrow> 'v \<Rightarrow> 'm \<Rightarrow> 'm"
  assumes lookup_empty: "lookup empty k = None"
    and lookup_store: "lookup (store k v m) k' = (if k = k' then Some v else lookup m k')"
begin

lemma lookup_store_same: "lookup (store k v m) k = Some v"
  by (simp add: lookup_store)

lemma lookup_store_other: "k \<noteq> k' \<Longrightarrow> lookup (store k v m) k' = lookup m k'"
  by (simp add: lookup_store)

lemma store_overwrites: "lookup (store k v (store k w m)) = lookup (store k v m)"
  by (auto simp: lookup_store)

lemma stores_commute:
  "k \<noteq> k' \<Longrightarrow> lookup (store k v (store k' w m)) = lookup (store k' w (store k v m))"
  by (auto simp: lookup_store)

lemma ran_store: "lookup (store k v m) k' = Some w \<Longrightarrow> w = v \<or> lookup m k' = Some w"
  by (simp add: lookup_store split: if_splits)

end

interpretation hm: key_value_store hm_new hm_get hm_insert
  by unfold_locales (auto simp: hm_new_def hm_get_def hm_insert_def update_conv')

lemma hm_get_empty [simp]: "hm_get hm_new k = None" "hm_get [] k = None"
  by (simp_all add: hm_new_def hm_get_def)

lemma hm_get_insert [simp]: "hm_get (hm_insert k v m) k' = (if k = k' then Some v else hm_get m k')"
  by (rule hm.lookup_store)

lemma hm_contains_key_iff [simp]: "hm_contains_key m k \<longleftrightarrow> hm_get m k \<noteq> None"
  by (simp add: hm_contains_key_def split: option.splits)

lemma hm_is_empty_iff: "hm_is_empty m \<longleftrightarrow> (\<forall>k. hm_get m k = None)"
proof (cases m)
  case Nil
  then show ?thesis by (simp add: hm_is_empty_def hm_get_def)
next
  case (Cons kv m')
  then have "hm_get m (fst kv) = Some (snd kv)"
    by (cases kv) (simp add: hm_get_def)
  with Cons show ?thesis by (auto simp: hm_is_empty_def)
qed

section \<open>Strings\<close>

definition starts_with :: "string \<Rightarrow> string \<Rightarrow> bool" where
  "starts_with s pat = (take (length pat) s = pat)"

fun contains :: "string \<Rightarrow> string \<Rightarrow> bool" where
  "contains [] pat = starts_with [] pat"
| "contains (c # cs) pat = (starts_with (c # cs) pat \<or> contains cs pat)"

function replace :: "string \<Rightarrow> string \<Rightarrow> string \<Rightarrow> string" where
  "replace [] pat rep = []"
| "replace (c # cs) pat rep =
     (if pat \<noteq> [] \<and> starts_with (c # cs) pat
      then rep @ replace (drop (length pat) (c # cs)) pat rep
      else c # replace cs pat rep)"
  by pat_completeness auto
termination
  by (relation "measure (\<lambda>(s, pat, rep). length s)") auto

declare replace.simps(2) [simp del]

definition replace_chars :: "string \<Rightarrow> char list \<Rightarrow> string \<Rightarrow> string" where
  "replace_chars s cs rep = concat (map (\<lambda>c. if c \<in> set cs then rep else [c]) s)"

definition digit :: "nat \<Rightarrow> char" where
  "digit d = ''0123456789'' ! d"

fun show_nat :: "nat \<Rightarrow> string" where
  "show_nat n = (if n < 10 then [digit n] else show_nat (n div 10) @ [digit (n mod 10)])"

declare show_nat.simps [simp del]

lemma starts_with_iff: "starts_with s pat \<longleftrightarrow> (\<exists>r. s = pat @ r)"
  unfolding starts_with_def by (metis append_eq_conv_conj append_take_drop_id)

lemma contains_iff: "contains s pat \<longleftrightarrow> (\<exists>l r. s = l @ pat @ r)"
proof (induction s)
  case Nil
  show ?case by (simp add: starts_with_iff)
next
  case (Cons c cs)
  have "(\<exists>l r. c # cs = l @ pat @ r) \<longleftrightarrow> starts_with (c # cs) pat \<or> (\<exists>l r. cs = l @ pat @ r)"
    unfolding starts_with_iff by (metis Cons_eq_append_conv append_Cons append_Nil)
  with Cons show ?case by simp
qed

lemma contains_append: "contains s pat \<Longrightarrow> contains (l @ s @ r) pat"
  unfolding contains_iff by (metis append.assoc)

lemma replace_no_match: "\<not> contains s pat \<Longrightarrow> replace s pat rep = s"
  by (induction s) (auto simp: replace.simps)

lemma set_replace_subset: "set (replace s pat rep) \<subseteq> set s \<union> set rep"
proof (induction s pat rep rule: replace.induct)
  case (2 c cs pat rep)
  show ?case
  proof (cases "pat \<noteq> [] \<and> starts_with (c # cs) pat")
    case True
    have "set (drop (length pat) (c # cs)) \<subseteq> set (c # cs)"
      by (rule set_drop_subset)
    with 2(1)[OF True] True show ?thesis by (auto simp: replace.simps(2))
  next
    case False
    with 2(2)[OF False] show ?thesis by (auto simp: replace.simps(2))
  qed
qed simp

lemma replace_chars_id: "set s \<inter> set cs = {} \<Longrightarrow> replace_chars s cs rep = s"
  by (induction s) (auto simp: replace_chars_def)

lemma set_replace_chars: "set rep \<inter> set cs = {} \<Longrightarrow> set (replace_chars s cs rep) \<inter> set cs = {}"
  by (auto simp: replace_chars_def split: if_splits)

lemma replace_chars_append: "replace_chars (s @ t) cs rep = replace_chars s cs rep @ replace_chars t cs rep"
  by (simp add: replace_chars_def)

lemma digit_inject: "i < 10 \<Longrightarrow> j < 10 \<Longrightarrow> digit i = digit j \<longleftrightarrow> i = j"
  unfolding digit_def by (rule nth_eq_iff_index_eq) simp_all

lemma show_nat_not_Nil [simp]: "show_nat n \<noteq> []" "[] \<noteq> show_nat n"
  by (subst show_nat.simps, simp)+

lemma show_nat_inject [simp]: "show_nat m = show_nat n \<longleftrightarrow> m = n"
proof
  show "m = n" if "show_nat m = show_nat n" using that
  proof (induction m arbitrary: n rule: less_induct)
    case (less m)
    show ?case
    proof (cases "m < 10 \<or> n < 10")
      case True
      then show ?thesis
        using less.prems digit_inject
        by (auto simp: show_nat.simps [of m] show_nat.simps [of n] append_eq_Cons_conv
            Cons_eq_append_conv split: if_splits)
    next
      case False
      then have "show_nat (m div 10) = show_nat (n div 10)" "digit (m mod 10) = digit (n mod 10)"
        using less.prems by (simp_all add: show_nat.simps [of m] show_nat.simps [of n])
      moreover have "m div 10 < m" using False by simp
      ultimately have "m div 10 = n div 10" "m mod 10 = n mod 10"
        using less.IH by (auto simp: digit_inject)
      then show ?thesis by (metis div_mult_mod_eq)
    qed
  qed
qed simp

lemma digit_in_digits: "d < 10 \<Longrightarrow> digit d \<in> set ''0123456789''"
  unfolding digit_def by (rule nth_mem) simp

lemma set_show_nat: "set (show_nat n) \<subseteq> set ''0123456789''"
proof (induction n rule: show_nat.induct)
  case (1 n)
  show ?case
  proof (cases "n < 10")
    case True
    then show ?thesis using digit_in_digits by (subst show_nat.simps) simp
  next
    case False
    then show ?thesis
      using 1 digit_in_digits [of "n mod 10"] by (subst show_nat.simps) simp
  qed
qed

lemma underscore_notin_show_nat [simp]: "CHR ''_'' \<notin> set (show_nat n)"
  using set_show_nat [of n] by auto

end
