(* ===== verification/Mir.thy ===== *)
theory Mir
  imports Prelude
begin

text \<open>
  What the translator reads of the compiler. The types of \<open>rustc_middle\<close> appear with the
  variants the sources match on; the variants a \<open>_ =>\<close> or \<open>let \<dots> else\<close> arm lumps together are
  one constructor each. The queries and methods of the compiler that the sources call are the
  fields of the record \<open>rustc\<close>, an argument of every definition that uses them:

  \<^item> \<open>entry_fn\<close>, \<open>def_path_str\<close>, \<open>is_foreign_item\<close>, \<open>is_mir_available\<close> are the queries of
    \<open>TyCtxt\<close> with these names;
  \<^item> \<open>var_debug_info d\<close> is the field of that name of \<open>optimized_mir(d)\<close>;
  \<^item> \<open>place_ty d p\<close> is the type \<open>p.ty(optimized_mir(d), tcx).ty\<close>, as its \<open>kind()\<close> and its
    \<open>to_string()\<close>;
  \<^item> \<open>is_indirect\<close> is \<open>Place::is_indirect\<close>;
  \<^item> \<open>visit_body d\<close> is the sequence of calls that \<open>Visitor::visit_body\<close> makes, on
    \<open>optimized_mir(d)\<close>, to the three methods the translator overrides. The overriding methods
    call \<open>super_basic_block_data\<close>, \<open>super_assign\<close> and \<open>super_terminator\<close> as their last action,
    so a call of the sequence is finished before the next one starts, except that the visits of
    the statements and of the terminator of a block are nested in the visit of the block, after
    the block was activated.
\<close>

type_synonym def_id = nat
type_synonym block_index = nat

datatype ty_kind = FnPtr | FnDef def_id | Closure def_id | OtherTyKind

record ty =
  kind :: ty_kind
  ty_string :: string

datatype projection_elem = Deref | Field nat ty | OtherProjection nat

record mir_place =
  local :: nat
  projection :: "projection_elem list"

datatype const_value = ZeroSized | OtherConstValue

datatype const_kind = Const_Ty | Const_Unevaluated | Const_Val const_value

record const_operand =
  const_type :: ty
  user_ty_is_none :: bool
  const_kind :: const_kind

datatype operand = Copy mir_place | Move mir_place | Constant const_operand

datatype rvalue = Use operand | Ref mir_place | AggregateRvalue "operand list" | OtherRvalue

datatype unwind_action = Continue | Unreachable_Unwind | Terminate | Cleanup block_index

datatype terminator_kind =
    Goto block_index
  | SwitchInt "block_index list"
  | UnwindResume
  | UnwindTerminate
  | Return
  | Unreachable
  | Drop mir_place block_index unwind_action
  | Call operand "operand list" mir_place "block_index option" unwind_action
  | Assert block_index unwind_action
  | Yield
  | CoroutineDrop
  | FalseEdge
  | FalseUnwind
  | InlineAsm
  | TailCall

datatype var_debug_info_contents = DebugPlace mir_place | OtherDebugInfo

datatype visitor_call =
    VisitBasicBlockData block_index
  | VisitAssign mir_place rvalue
  | VisitTerminator terminator_kind

record rustc =
  entry_fn :: "def_id option"
  def_path_str :: "def_id \<Rightarrow> string"
  is_foreign_item :: "def_id \<Rightarrow> bool"
  is_mir_available :: "def_id \<Rightarrow> bool"
  var_debug_info :: "def_id \<Rightarrow> var_debug_info_contents list"
  place_ty :: "def_id \<Rightarrow> mir_place \<Rightarrow> ty"
  is_indirect :: "mir_place \<Rightarrow> bool"
  visit_body :: "def_id \<Rightarrow> visitor_call list"

text \<open>The place \<open>_n\<close> without projections.\<close>

abbreviation local_place :: "nat \<Rightarrow> mir_place" where
  "local_place n \<equiv> \<lparr>local = n, projection = []\<rparr>"

end
