(* ===== verification/Memory.thy ===== *)
theory Memory
  imports Mir
begin

text \<open>
  \<open>src/src/translator/mir_function/memory.rs\<close>: the map from memory places to the
  synchronization variables they hold.

  An \<open>Rc<Mutex>\<close>, \<open>Rc<Condvar>\<close> or \<open>Rc<Thread>\<close> is shared between places, frames and threads
  and has interior mutability, so a reference is an address (a \<open>nat\<close>) into a store that is part
  of the translator's state; cloning the \<open>Rc\<close> copies the address. A mutex guard is immutable
  and holds only the reference to its mutex, so it is a value. The debug messages about places
  that are linked again have no effect on the state and are left out.
\<close>

type_synonym mutex_ref = nat
type_synonym condvar_ref = nat
type_synonym thread_ref = nat

record mutex_guard =
  guard_mutex :: mutex_ref

datatype val =
    MutexValue mutex_ref
  | MutexGuardValue mutex_guard
  | JoinHandleValue thread_ref
  | CondvarValue condvar_ref
  | AggregateValue "val list"

text \<open>\<open>Display for Value\<close>, used in the panic messages.\<close>

fun value_to_string :: "val \<Rightarrow> string" where
  "value_to_string (MutexValue _) = ''mutex''"
| "value_to_string (MutexGuardValue _) = ''mutex guard''"
| "value_to_string (JoinHandleValue _) = ''join handle''"
| "value_to_string (CondvarValue _) = ''condition variable''"
| "value_to_string (AggregateValue _) = ''aggregate''"

definition unpack_mutex :: "val \<Rightarrow> mutex_ref res" where
  "unpack_mutex v = (case v of MutexValue mutex_ref \<Rightarrow> Inr mutex_ref
     | _ \<Rightarrow> Inl (UnexpectedValue ''mutex'' (value_to_string v)))"

definition unpack_mutex_guard :: "val \<Rightarrow> mutex_guard res" where
  "unpack_mutex_guard v = (case v of MutexGuardValue mutex_guard_ref \<Rightarrow> Inr mutex_guard_ref
     | _ \<Rightarrow> Inl (UnexpectedValue ''mutex guard'' (value_to_string v)))"

definition unpack_join_handle :: "val \<Rightarrow> thread_ref res" where
  "unpack_join_handle v = (case v of JoinHandleValue thread_ref \<Rightarrow> Inr thread_ref
     | _ \<Rightarrow> Inl (UnexpectedValue ''join handle'' (value_to_string v)))"

definition unpack_condvar :: "val \<Rightarrow> condvar_ref res" where
  "unpack_condvar v = (case v of CondvarValue condvar_ref \<Rightarrow> Inr condvar_ref
     | _ \<Rightarrow> Inl (UnexpectedValue ''condition variable'' (value_to_string v)))"

definition unpack_aggregate :: "val \<Rightarrow> val list res" where
  "unpack_aggregate v = (case v of AggregateValue values \<Rightarrow> Inr values
     | _ \<Rightarrow> Inl (UnexpectedValue ''aggregate'' (value_to_string v)))"

record memory =
  memory_map :: "(mir_place, val) hash_map"

definition memory_default :: memory where
  "memory_default = \<lparr>memory_map = hm_new\<rparr>"

definition link_mutex :: "mir_place \<Rightarrow> mutex_ref \<Rightarrow> memory \<Rightarrow> memory" where
  "link_mutex place mutex_ref m = m\<lparr>memory_map := hm_insert place (MutexValue mutex_ref) (memory_map m)\<rparr>"

definition link_mutex_guard :: "mir_place \<Rightarrow> mutex_guard \<Rightarrow> memory \<Rightarrow> memory" where
  "link_mutex_guard place mutex_guard m =
     m\<lparr>memory_map := hm_insert place (MutexGuardValue mutex_guard) (memory_map m)\<rparr>"

definition link_join_handle :: "mir_place \<Rightarrow> thread_ref \<Rightarrow> memory \<Rightarrow> memory" where
  "link_join_handle place thread_ref m =
     m\<lparr>memory_map := hm_insert place (JoinHandleValue thread_ref) (memory_map m)\<rparr>"

definition link_condvar :: "mir_place \<Rightarrow> condvar_ref \<Rightarrow> memory \<Rightarrow> memory" where
  "link_condvar place condvar_ref m =
     m\<lparr>memory_map := hm_insert place (CondvarValue condvar_ref) (memory_map m)\<rparr>"

definition link_aggregate :: "mir_place \<Rightarrow> val list \<Rightarrow> memory \<Rightarrow> memory res" where
  "link_aggregate place values m = (case hm_get (memory_map m) place of
      Some old_value \<Rightarrow> Inl (AggregateAlreadyLinked (value_to_string old_value))
    | None \<Rightarrow> Inr (m\<lparr>memory_map := hm_insert place (AggregateValue values) (memory_map m)\<rparr>))"

definition link_place_to_same_value :: "mir_place \<Rightarrow> mir_place \<Rightarrow> memory \<Rightarrow> memory res" where
  "link_place_to_same_value place_to_link place_linked m =
     and_then (ok_or PlaceNotLinked (hm_get (memory_map m) place_linked)) (\<lambda>value.
     Inr (m\<lparr>memory_map := hm_insert place_to_link value (memory_map m)\<rparr>))"

definition get_linked_value :: "mir_place \<Rightarrow> memory \<Rightarrow> val res" where
  "get_linked_value place m = ok_or PlaceNotLinked (hm_get (memory_map m) place)"

definition get_mutex :: "mir_place \<Rightarrow> memory \<Rightarrow> mutex_ref res" where
  "get_mutex place m = and_then (get_linked_value place m) unpack_mutex"

definition get_mutex_guard :: "mir_place \<Rightarrow> memory \<Rightarrow> mutex_guard res" where
  "get_mutex_guard place m = and_then (get_linked_value place m) unpack_mutex_guard"

definition get_join_handle :: "mir_place \<Rightarrow> memory \<Rightarrow> thread_ref res" where
  "get_join_handle place m = and_then (get_linked_value place m) unpack_join_handle"

definition get_condvar :: "mir_place \<Rightarrow> memory \<Rightarrow> condvar_ref res" where
  "get_condvar place m = and_then (get_linked_value place m) unpack_condvar"

definition copy_aggregate :: "mir_place \<Rightarrow> memory \<Rightarrow> val list res" where
  "copy_aggregate place m =
     and_then (ok_or PlaceNotLinked (hm_get (memory_map m) place)) unpack_aggregate"

definition is_mutex_guard :: "mir_place \<Rightarrow> memory \<Rightarrow> bool" where
  "is_mutex_guard place m =
     (hm_contains_key (memory_map m) place \<and>
      (case get_linked_value place m of Inr (MutexGuardValue _) \<Rightarrow> True | _ \<Rightarrow> False))"

fun linked_values :: "mir_place list \<Rightarrow> memory \<Rightarrow> val list res" where
  "linked_values [] m = Inr []"
| "linked_values (place # places) m =
     and_then (get_linked_value place m) (\<lambda>value.
     and_then (linked_values places m) (\<lambda>values. Inr (value # values)))"

definition create_aggregate :: "mir_place \<Rightarrow> mir_place list \<Rightarrow> memory \<Rightarrow> memory res" where
  "create_aggregate place places_to_aggregate m =
     and_then (linked_values places_to_aggregate m) (\<lambda>values. link_aggregate place values m)"

definition link_field_in_aggregate :: "mir_place \<Rightarrow> mir_place \<Rightarrow> nat \<Rightarrow> memory \<Rightarrow> memory res" where
  "link_field_in_aggregate place_to_link place_linked index m =
     and_then (ok_or PlaceNotLinked (hm_get (memory_map m) place_linked)) (\<lambda>value.
     and_then (unpack_aggregate value) (\<lambda>values.
     if index < length values
     then (case hm_get (memory_map m) place_to_link of
         Some _ \<Rightarrow> Inl (FieldAlreadyLinked index)
       | None \<Rightarrow> Inr (m\<lparr>memory_map := hm_insert place_to_link (values ! index) (memory_map m)\<rparr>))
     else Inl (FieldIndexOutOfBounds index)))"

end
