(* ===== verification/Store.thy ===== *)
theory Store
  imports Memory
begin

text \<open>
  The structs \<open>Mutex\<close>, \<open>Condvar\<close> and \<open>Thread\<close> of \<open>src/src/translator/sync/*.rs\<close>, and the
  store of the cells that the \<open>Rc\<close> pointers to them share. \<open>Rc::new\<close> appends a cell; the
  \<open>RefCell\<close> and \<open>OnceCell\<close> fields are updated in place.
\<close>

record ('p, 't) mutex =
  mutex_place :: 'p
  deref_mut :: "'t list"

record ('p, 't) condvar =
  wait_start :: 't
  notify :: 'p
  notify_received :: 't
  already_linked_to_call :: bool

record 't thread =
  spawn_transition :: 't
  thread_def_id :: def_id
  thread_aggregate :: "val list"
  join_transition :: "'t option"
  thread_index :: nat

record ('p, 't) store =
  mutexes :: "('p, 't) mutex list"
  condvars :: "('p, 't) condvar list"
  thread_cells :: "'t thread list"

definition store_new :: "('p, 't) store" where
  "store_new = \<lparr>mutexes = [], condvars = [], thread_cells = []\<rparr>"

definition rc_new_mutex :: "('p, 't) mutex \<Rightarrow> ('p, 't) store \<Rightarrow> mutex_ref \<times> ('p, 't) store" where
  "rc_new_mutex m s = (length (mutexes s), s\<lparr>mutexes := mutexes s @ [m]\<rparr>)"

definition rc_new_condvar :: "('p, 't) condvar \<Rightarrow> ('p, 't) store \<Rightarrow> condvar_ref \<times> ('p, 't) store" where
  "rc_new_condvar c s = (length (condvars s), s\<lparr>condvars := condvars s @ [c]\<rparr>)"

definition rc_new_thread :: "'t thread \<Rightarrow> ('p, 't) store \<Rightarrow> thread_ref \<times> ('p, 't) store" where
  "rc_new_thread t s = (length (thread_cells s), s\<lparr>thread_cells := thread_cells s @ [t]\<rparr>)"

definition deref_cell :: "'c list \<Rightarrow> nat \<Rightarrow> 'c res" where
  "deref_cell cells r = (if r < length cells then Inr (cells ! r) else Inl DanglingRef)"

lemma deref_cell_eq_Inr [simp]: "deref_cell cells r = Inr c \<longleftrightarrow> r < length cells \<and> c = cells ! r"
  by (auto simp: deref_cell_def)

lemma ensures_deref_cell [ensures_intros]:
  "r < length cells \<Longrightarrow> (\<And>c. c \<in> set cells \<Longrightarrow> c = cells ! r \<Longrightarrow> P c) \<Longrightarrow> ensures E P (deref_cell cells r)"
  by (simp add: deref_cell_def)

section \<open>The store invariant\<close>

text \<open>Every reference a value holds is the address of a cell.\<close>

fun val_ok :: "('p, 't) store \<Rightarrow> val \<Rightarrow> bool" where
  "val_ok s (MutexValue r) \<longleftrightarrow> r < length (mutexes s)"
| "val_ok s (MutexGuardValue g) \<longleftrightarrow> guard_mutex g < length (mutexes s)"
| "val_ok s (JoinHandleValue r) \<longleftrightarrow> r < length (thread_cells s)"
| "val_ok s (CondvarValue r) \<longleftrightarrow> r < length (condvars s)"
| "val_ok s (AggregateValue vs) \<longleftrightarrow> (\<forall>v \<in> set vs. val_ok s v)"

definition memory_ok :: "('p, 't) store \<Rightarrow> memory \<Rightarrow> bool" where
  "memory_ok s m \<longleftrightarrow> (\<forall>p v. hm_get (memory_map m) p = Some v \<longrightarrow> val_ok s v)"

text \<open>The nodes a cell refers to belong to the net with places \<open>P\<close> and transitions \<open>T\<close>.\<close>

definition store_ok :: "'p set \<Rightarrow> 't set \<Rightarrow> ('p, 't) store \<Rightarrow> bool" where
  "store_ok P T s \<longleftrightarrow>
     (\<forall>m \<in> set (mutexes s). mutex_place m \<in> P \<and> set (deref_mut m) \<subseteq> T) \<and>
     (\<forall>c \<in> set (condvars s). wait_start c \<in> T \<and> notify c \<in> P \<and> notify_received c \<in> T) \<and>
     (\<forall>t \<in> set (thread_cells s). spawn_transition t \<in> T \<and> set_option (join_transition t) \<subseteq> T \<and>
        (\<forall>v \<in> set (thread_aggregate t). val_ok s v))"

text \<open>Cells are never freed.\<close>

definition store_le :: "('p, 't) store \<Rightarrow> ('p, 't) store \<Rightarrow> bool" where
  "store_le s s' \<longleftrightarrow> length (mutexes s) \<le> length (mutexes s') \<and>
     length (condvars s) \<le> length (condvars s') \<and> length (thread_cells s) \<le> length (thread_cells s')"

lemma store_le_refl [simp]: "store_le s s"
  by (simp add: store_le_def)

lemma store_le_trans: "store_le s s' \<Longrightarrow> store_le s' s'' \<Longrightarrow> store_le s s''"
  by (auto simp: store_le_def)

lemma val_ok_mono: "val_ok s v \<Longrightarrow> store_le s s' \<Longrightarrow> val_ok s' v"
  by (induction s v rule: val_ok.induct) (auto simp: store_le_def)

lemma memory_ok_mono: "memory_ok s m \<Longrightarrow> store_le s s' \<Longrightarrow> memory_ok s' m"
  unfolding memory_ok_def by (blast intro: val_ok_mono)

lemma store_ok_mono: "store_ok P T s \<Longrightarrow> P \<subseteq> P' \<Longrightarrow> T \<subseteq> T' \<Longrightarrow> store_ok P' T' s"
  unfolding store_ok_def by blast

lemma store_ok_new [simp]: "store_ok P T store_new"
  by (simp add: store_ok_def store_new_def)

lemma store_ok_threads_mono:
  "\<forall>t \<in> set ts. \<forall>v \<in> set (thread_aggregate t). val_ok s v \<Longrightarrow> store_le s s' \<Longrightarrow>
   \<forall>t \<in> set ts. \<forall>v \<in> set (thread_aggregate t). val_ok s' v"
  by (blast intro: val_ok_mono)

lemma store_le_rc_new:
  "rc_new_mutex m s = (r, s') \<Longrightarrow> store_le s s' \<and> r < length (mutexes s')"
  "rc_new_condvar c s = (r, s') \<Longrightarrow> store_le s s' \<and> r < length (condvars s')"
  "rc_new_thread t s = (r, s') \<Longrightarrow> store_le s s' \<and> r < length (thread_cells s')"
  by (auto simp: rc_new_mutex_def rc_new_condvar_def rc_new_thread_def store_le_def)

lemma store_ok_rc_new_mutex:
  "store_ok P T s \<Longrightarrow> mutex_place m \<in> P \<Longrightarrow> set (deref_mut m) \<subseteq> T \<Longrightarrow> store_ok P T (snd (rc_new_mutex m s))"
  using store_ok_threads_mono [of "thread_cells s" s "snd (rc_new_mutex m s)"]
  by (auto simp: store_ok_def rc_new_mutex_def store_le_def)

lemma store_ok_rc_new_condvar:
  "store_ok P T s \<Longrightarrow> wait_start c \<in> T \<Longrightarrow> notify c \<in> P \<Longrightarrow> notify_received c \<in> T \<Longrightarrow>
   store_ok P T (snd (rc_new_condvar c s))"
  using store_ok_threads_mono [of "thread_cells s" s "snd (rc_new_condvar c s)"]
  by (auto simp: store_ok_def rc_new_condvar_def store_le_def)

lemma store_ok_rc_new_thread:
  assumes "store_ok P T s" "spawn_transition t \<in> T" "set_option (join_transition t) \<subseteq> T"
    "\<forall>v \<in> set (thread_aggregate t). val_ok s v"
  shows "store_ok P T (snd (rc_new_thread t s))"
proof -
  have "\<forall>u \<in> set (t # thread_cells s). \<forall>v \<in> set (thread_aggregate u). val_ok (snd (rc_new_thread t s)) v"
    by (rule store_ok_threads_mono [of _ s])
      (use assms in \<open>auto simp: store_ok_def rc_new_thread_def store_le_def\<close>)
  with assms show ?thesis
    by (auto simp: store_ok_def rc_new_thread_def)
qed

text \<open>An update of a cell in place.\<close>

lemma store_ok_update_mutex:
  assumes "store_ok P T s" "mutex_place m \<in> P" "set (deref_mut m) \<subseteq> T"
  shows "store_ok P T (s\<lparr>mutexes := (mutexes s)[r := m]\<rparr>)"
  using assms store_ok_threads_mono [of "thread_cells s" s "s\<lparr>mutexes := (mutexes s)[r := m]\<rparr>"]
  by (auto simp: store_ok_def store_le_def dest!: set_update_subset_insert [THEN subsetD])

lemma store_ok_update_condvar:
  assumes "store_ok P T s" "wait_start c \<in> T" "notify c \<in> P" "notify_received c \<in> T"
  shows "store_ok P T (s\<lparr>condvars := (condvars s)[r := c]\<rparr>)"
  using assms store_ok_threads_mono [of "thread_cells s" s "s\<lparr>condvars := (condvars s)[r := c]\<rparr>"]
  by (auto simp: store_ok_def store_le_def dest!: set_update_subset_insert [THEN subsetD])

lemma store_ok_update_thread:
  assumes "store_ok P T s" "r < length (thread_cells s)" "t \<in> T"
  shows "store_ok P T (s\<lparr>thread_cells := (thread_cells s)[r := (thread_cells s ! r)\<lparr>join_transition := Some t\<rparr>]\<rparr>)"
    (is "store_ok P T ?s")
proof -
  have c: "thread_cells s ! r \<in> set (thread_cells s)" using assms(2) by simp
  have "\<forall>u \<in> set (thread_cells s). \<forall>v \<in> set (thread_aggregate u). val_ok ?s v"
    by (rule store_ok_threads_mono [of _ s]) (use assms in \<open>auto simp: store_ok_def store_le_def\<close>)
  with assms c show ?thesis
    by (auto simp del: nth_mem simp: store_ok_def dest!: set_update_subset_insert [THEN subsetD])
qed

section \<open>The memory keeps the store invariant\<close>

lemma memory_ok_default [simp]: "memory_ok s memory_default"
  by (simp add: memory_ok_def memory_default_def)

lemma memory_ok_insert:
  "memory_ok s m \<Longrightarrow> val_ok s v \<Longrightarrow> memory_ok s (m\<lparr>memory_map := hm_insert p v (memory_map m)\<rparr>)"
  by (simp add: memory_ok_def)

lemma memory_ok_link [intro]:
  "memory_ok s m \<Longrightarrow> r < length (mutexes s) \<Longrightarrow> memory_ok s (link_mutex p r m)"
  "memory_ok s m \<Longrightarrow> guard_mutex g < length (mutexes s) \<Longrightarrow> memory_ok s (link_mutex_guard p g m)"
  "memory_ok s m \<Longrightarrow> r < length (thread_cells s) \<Longrightarrow> memory_ok s (link_join_handle p r m)"
  "memory_ok s m \<Longrightarrow> r < length (condvars s) \<Longrightarrow> memory_ok s (link_condvar p r m)"
  by (simp_all add: link_mutex_def link_mutex_guard_def link_join_handle_def link_condvar_def memory_ok_insert)

lemma ensures_get_linked_value:
  "memory_ok s m \<Longrightarrow> ensures external_panic (val_ok s) (get_linked_value p m)"
  unfolding get_linked_value_def memory_ok_def by (intro ensures_intros) auto

lemma ensures_link_aggregate:
  "memory_ok s m \<Longrightarrow> \<forall>v \<in> set vs. val_ok s v \<Longrightarrow> ensures external_panic (memory_ok s) (link_aggregate p vs m)"
  by (auto simp: link_aggregate_def memory_ok_insert split: option.splits)

lemma ensures_link_place_to_same_value:
  "memory_ok s m \<Longrightarrow> ensures external_panic (memory_ok s) (link_place_to_same_value p q m)"
  unfolding link_place_to_same_value_def ensures_bind
  by (intro ensures_ok_or) (auto simp: memory_ok_insert memory_ok_def)

lemma ensures_unpack:
  "val_ok s v \<Longrightarrow> ensures external_panic (\<lambda>r. r < length (mutexes s)) (unpack_mutex v)"
  "val_ok s v \<Longrightarrow> ensures external_panic (\<lambda>g. guard_mutex g < length (mutexes s)) (unpack_mutex_guard v)"
  "val_ok s v \<Longrightarrow> ensures external_panic (\<lambda>r. r < length (thread_cells s)) (unpack_join_handle v)"
  "val_ok s v \<Longrightarrow> ensures external_panic (\<lambda>r. r < length (condvars s)) (unpack_condvar v)"
  "val_ok s v \<Longrightarrow> ensures external_panic (\<lambda>vs. \<forall>v \<in> set vs. val_ok s v) (unpack_aggregate v)"
  by (cases v; simp add: unpack_mutex_def unpack_mutex_guard_def unpack_join_handle_def
      unpack_condvar_def unpack_aggregate_def)+

lemma ensures_get:
  assumes "memory_ok s m"
  shows "ensures external_panic (\<lambda>r. r < length (mutexes s)) (get_mutex p m)"
    "ensures external_panic (\<lambda>g. guard_mutex g < length (mutexes s)) (get_mutex_guard p m)"
    "ensures external_panic (\<lambda>r. r < length (thread_cells s)) (get_join_handle p m)"
    "ensures external_panic (\<lambda>r. r < length (condvars s)) (get_condvar p m)"
  unfolding get_mutex_def get_mutex_guard_def get_join_handle_def get_condvar_def ensures_bind
  by (rule ensures_mono [OF ensures_get_linked_value [OF assms]], erule ensures_unpack)+

lemma ensures_copy_aggregate:
  "memory_ok s m \<Longrightarrow> ensures external_panic (\<lambda>vs. \<forall>v \<in> set vs. val_ok s v) (copy_aggregate p m)"
  unfolding copy_aggregate_def ensures_bind
  by (intro ensures_ok_or) (auto intro: ensures_unpack simp: memory_ok_def)

lemma ensures_linked_values:
  "memory_ok s m \<Longrightarrow> ensures external_panic (\<lambda>vs. \<forall>v \<in> set vs. val_ok s v) (linked_values ps m)"
  by (induction ps) (auto intro!: ensures_mono [OF ensures_get_linked_value] elim!: ensures_mono)

lemma ensures_create_aggregate:
  "memory_ok s m \<Longrightarrow> ensures external_panic (memory_ok s) (create_aggregate p ps m)"
  unfolding create_aggregate_def ensures_bind
  by (rule ensures_mono [OF ensures_linked_values]) (auto intro: ensures_link_aggregate)

lemma ensures_link_field_in_aggregate:
  "memory_ok s m \<Longrightarrow> ensures external_panic (memory_ok s) (link_field_in_aggregate p q i m)"
  unfolding link_field_in_aggregate_def ensures_bind
  by (intro ensures_ok_or, simp)
    (auto simp: memory_ok_insert split: option.splits
      intro!: ensures_mono [OF ensures_unpack(5)] simp: memory_ok_def)

end
