(* ===== verification/Function_Places.thy ===== *)
theory Function_Places
  imports Memory "HOL-Library.Word"
begin

text \<open>
  \<open>src/src/translator/function.rs\<close>: the places and transitions of a function call, and the
  postprocessing tasks with their priorities.
\<close>

datatype 'p call_places =
    Basic_Places 'p 'p
  | WithCleanup_Places 'p 'p 'p

definition ignore_cleanup_place :: "'p call_places \<Rightarrow> 'p call_places" where
  "ignore_cleanup_place places = (case places of
      Basic_Places _ _ \<Rightarrow> places
    | WithCleanup_Places start_place end_place _ \<Rightarrow> Basic_Places start_place end_place)"

definition get_start_end_place :: "'p call_places \<Rightarrow> 'p \<times> 'p" where
  "get_start_end_place places = (case places of
      Basic_Places start_place end_place \<Rightarrow> (start_place, end_place)
    | WithCleanup_Places start_place end_place _ \<Rightarrow> (start_place, end_place))"

datatype 't call_transitions =
    Basic_Transitions 't
  | WithCleanup_Transitions 't 't

definition get_default :: "'t call_transitions \<Rightarrow> 't" where
  "get_default transitions = (case transitions of
      Basic_Transitions default_t \<Rightarrow> default_t
    | WithCleanup_Transitions default_t _ \<Rightarrow> default_t)"

text \<open>The fields of a task: the priority, then those of the variant in the source's order.\<close>

datatype ('p, 't) postprocessing_task =
    LinkMutexToCondvar "8 word" nat 'p 'p 't
  | NewMutex "8 word" mutex_ref

definition link_mutex_to_condvar :: "nat \<Rightarrow> 'p \<Rightarrow> 'p \<Rightarrow> 't \<Rightarrow> ('p, 't) postprocessing_task" where
  "link_mutex_to_condvar index start_place end_place wait_start =
     LinkMutexToCondvar 1 index start_place end_place wait_start"

definition new_mutex :: "mutex_ref \<Rightarrow> ('p, 't) postprocessing_task" where
  "new_mutex mutex_ref = NewMutex 2 mutex_ref"

definition get_priority :: "('p, 't) postprocessing_task \<Rightarrow> 8 word" where
  "get_priority task = (case task of
      LinkMutexToCondvar priority _ _ _ _ \<Rightarrow> priority
    | NewMutex priority _ \<Rightarrow> priority)"

text \<open>
  The \<open>Ord\<close> and \<open>PartialOrd\<close> instances compare the priorities; the operators \<open><=\<close> and \<open><\<close> of Rust
  are derived from \<open>partial_cmp\<close>, and so are those of the type class here.
\<close>

datatype ordering = Less | Equal | Greater

definition u8_cmp :: "8 word \<Rightarrow> 8 word \<Rightarrow> ordering" where
  "u8_cmp a b = (if a < b then Less else if a = b then Equal else Greater)"

definition task_cmp :: "('p, 't) postprocessing_task \<Rightarrow> ('p, 't) postprocessing_task \<Rightarrow> ordering" where
  "task_cmp self other = u8_cmp (get_priority self) (get_priority other)"

definition task_partial_cmp :: "('p, 't) postprocessing_task \<Rightarrow> ('p, 't) postprocessing_task \<Rightarrow> ordering option" where
  "task_partial_cmp self other = Some (task_cmp self other)"

instantiation postprocessing_task :: (type, type) preorder
begin

definition less_eq_postprocessing_task :: "('a, 'b) postprocessing_task \<Rightarrow> ('a, 'b) postprocessing_task \<Rightarrow> bool" where
  "less_eq_postprocessing_task a b \<longleftrightarrow> task_partial_cmp a b \<in> {Some Less, Some Equal}"

definition less_postprocessing_task :: "('a, 'b) postprocessing_task \<Rightarrow> ('a, 'b) postprocessing_task \<Rightarrow> bool" where
  "less_postprocessing_task a b \<longleftrightarrow> task_partial_cmp a b = Some Less"

instance
  by standard (auto simp: less_eq_postprocessing_task_def less_postprocessing_task_def task_partial_cmp_def
      task_cmp_def u8_cmp_def split: if_splits)

end

text \<open>The heap of the tasks compares them by their priority, which is this order.\<close>

lemma task_order_iff: "a \<le> b \<longleftrightarrow> get_priority a \<le> get_priority b" "a < b \<longleftrightarrow> get_priority a < get_priority b"
  by (auto simp: less_eq_postprocessing_task_def less_postprocessing_task_def task_partial_cmp_def task_cmp_def u8_cmp_def)

text \<open>The tasks that the two constructor functions make.\<close>

definition well_prioritised :: "('p, 't) postprocessing_task \<Rightarrow> bool" where
  "well_prioritised task = (case task of
      LinkMutexToCondvar priority _ _ _ _ \<Rightarrow> priority = 1
    | NewMutex priority _ \<Rightarrow> priority = 2)"

lemma well_prioritised_constructors [simp]:
  "well_prioritised (link_mutex_to_condvar i s e w)" "well_prioritised (new_mutex m)"
  by (simp_all add: well_prioritised_def link_mutex_to_condvar_def new_mutex_def)

lemma ignore_cleanup_place_simps [simp]:
  "ignore_cleanup_place (Basic_Places s e) = Basic_Places s e"
  "ignore_cleanup_place (WithCleanup_Places s e c) = Basic_Places s e"
  "get_start_end_place (Basic_Places s e) = (s, e)"
  "get_start_end_place (WithCleanup_Places s e c) = (s, e)"
  "get_default (Basic_Transitions t) = t"
  "get_default (WithCleanup_Transitions t u) = t"
  by (simp_all add: ignore_cleanup_place_def get_start_end_place_def get_default_def)

end
