(* ===== verification/Petri_Net_Interface.thy ===== *)
theory Petri_Net_Interface
  imports Prelude
begin

text \<open>
  \<open>src/src/data_structures/petri_net_interface.rs\<close>: the wrappers around the library \<open>netcrab\<close>,
  which panic when an arc cannot be created.

  The library itself is not part of the sources. Its types (\<open>PetriNet\<close>, \<open>PlaceRef\<close>,
  \<open>TransitionRef\<close>) are type variables \<open>'n\<close>, \<open>'p\<close>, \<open>'t\<close>, and its operations are the
  fields of a record \<open>netcrab\<close> that every definition below takes as an argument. What the
  code relies on is stated by two locales:
  \<^item> \<open>petri_net\<close>: references stay valid. A returned reference belongs to the net, no operation
    removes a node, and an arc between two nodes of the net can be created;
  \<^item> \<open>labelled_petri_net\<close>: what the nodes, arcs and tokens of the net are after each operation,
    for a label that no other node of the same kind has and for an arc that does not exist
    yet. What the library does with a repeated label is left open.

  \<open>simple_net\<close> is an executable net with these operations; it interprets both locales.
\<close>

section \<open>The library as a parameter\<close>

record ('n, 'p, 't) netcrab =
  net_new :: "'n"
  net_default :: "'n"
  net_add_place :: "string \<Rightarrow> 'n \<Rightarrow> 'p \<times> 'n"
  net_add_transition :: "string \<Rightarrow> 'n \<Rightarrow> 't \<times> 'n"
  net_add_token :: "'p \<Rightarrow> nat \<Rightarrow> 'n \<Rightarrow> 'n option"
  net_add_arc_place_transition :: "'p \<Rightarrow> 't \<Rightarrow> 'n \<Rightarrow> 'n option"
  net_add_arc_transition_place :: "'t \<Rightarrow> 'p \<Rightarrow> 'n \<Rightarrow> 'n option"

section \<open>The wrappers\<close>

definition add_arc_place_transition ::
  "('n, 'p, 't) netcrab \<Rightarrow> 'n \<Rightarrow> 'p \<Rightarrow> 't \<Rightarrow> 'n res" where
  "add_arc_place_transition N net place_ref transition_ref =
     ok_or PlaceTransitionArcFailed (net_add_arc_place_transition N place_ref transition_ref net)"

definition add_arc_transition_place ::
  "('n, 'p, 't) netcrab \<Rightarrow> 'n \<Rightarrow> 't \<Rightarrow> 'p \<Rightarrow> 'n res" where
  "add_arc_transition_place N net transition_ref place_ref =
     ok_or TransitionPlaceArcFailed (net_add_arc_transition_place N transition_ref place_ref net)"

definition connect_places ::
  "('n, 'p, 't) netcrab \<Rightarrow> 'n \<Rightarrow> 'p \<Rightarrow> 'p \<Rightarrow> string \<Rightarrow> ('t \<times> 'n) res" where
  "connect_places N net start_place end_place transition_label =
     (let (transition, net) = net_add_transition N transition_label net
      in and_then (add_arc_place_transition N net start_place transition) (\<lambda>net.
         and_then (add_arc_transition_place N net transition end_place) (\<lambda>net.
         Inr (transition, net))))"

text \<open>
  \<open>net.add_token(&place, 1).expect("\<dots>")\<close>, the call by which the initial tokens of the program
  start, of every mutex and of every condition variable are added.
\<close>

definition add_token :: "('n, 'p, 't) netcrab \<Rightarrow> 'n \<Rightarrow> 'p \<Rightarrow> nat \<Rightarrow> 'n res" where
  "add_token N net place_ref tokens = ok_or TokenOverflow (net_add_token N place_ref tokens net)"

section \<open>The contract: references stay valid\<close>

locale petri_net =
  fixes N :: "('n, 'p, 't) netcrab"
    and places_of :: "'n \<Rightarrow> 'p set"
    and transitions_of :: "'n \<Rightarrow> 't set"
  assumes add_place_refs: "net_add_place N l net = (p, net') \<Longrightarrow>
      p \<in> places_of net' \<and> places_of net \<subseteq> places_of net' \<and> transitions_of net \<subseteq> transitions_of net'"
    and add_transition_refs: "net_add_transition N l net = (t, net') \<Longrightarrow>
      t \<in> transitions_of net' \<and> places_of net \<subseteq> places_of net' \<and> transitions_of net \<subseteq> transitions_of net'"
    and add_token_refs: "net_add_token N p k net = Some net' \<Longrightarrow>
      places_of net \<subseteq> places_of net' \<and> transitions_of net \<subseteq> transitions_of net'"
    and arc_pt_ok: "p \<in> places_of net \<Longrightarrow> t \<in> transitions_of net \<Longrightarrow>
      net_add_arc_place_transition N p t net \<noteq> None"
    and arc_tp_ok: "p \<in> places_of net \<Longrightarrow> t \<in> transitions_of net \<Longrightarrow>
      net_add_arc_transition_place N t p net \<noteq> None"
    and arc_pt_refs: "net_add_arc_place_transition N p t net = Some net' \<Longrightarrow>
      places_of net \<subseteq> places_of net' \<and> transitions_of net \<subseteq> transitions_of net'"
    and arc_tp_refs: "net_add_arc_transition_place N t p net = Some net' \<Longrightarrow>
      places_of net \<subseteq> places_of net' \<and> transitions_of net \<subseteq> transitions_of net'"
begin

text \<open>\<open>grows net net'\<close>: every node of \<open>net\<close> is a node of \<open>net'\<close>.\<close>

definition grows :: "'n \<Rightarrow> 'n \<Rightarrow> bool" where
  "grows net net' \<longleftrightarrow> places_of net \<subseteq> places_of net' \<and> transitions_of net \<subseteq> transitions_of net'"

lemma grows_refl [simp, intro]: "grows net net"
  by (simp add: grows_def)

lemma grows_trans [trans]: "grows a b \<Longrightarrow> grows b c \<Longrightarrow> grows a c"
  by (auto simp: grows_def)

lemma growsD: "grows a b \<Longrightarrow> p \<in> places_of a \<Longrightarrow> p \<in> places_of b"
    "grows a b \<Longrightarrow> t \<in> transitions_of a \<Longrightarrow> t \<in> transitions_of b"
  by (auto simp: grows_def)

lemmas grows_rules = growsD grows_trans

lemma add_place_grows: "net_add_place N l net = (p, net') \<Longrightarrow> p \<in> places_of net' \<and> grows net net'"
  using add_place_refs by (auto simp: grows_def)

lemma add_transition_grows:
  "net_add_transition N l net = (t, net') \<Longrightarrow> t \<in> transitions_of net' \<and> grows net net'"
  using add_transition_refs by (auto simp: grows_def)

lemma ensures_add_arc_pt:
  assumes "p \<in> places_of net" "t \<in> transitions_of net"
  shows "ensures E (grows net) (add_arc_place_transition N net p t)"
  unfolding add_arc_place_transition_def
  using assms arc_pt_ok [of p net t] arc_pt_refs by (intro ensures_intros) (auto simp: grows_def)

lemma ensures_add_arc_tp:
  assumes "p \<in> places_of net" "t \<in> transitions_of net"
  shows "ensures E (grows net) (add_arc_transition_place N net t p)"
  unfolding add_arc_transition_place_def
  using assms arc_tp_ok [of p net t] arc_tp_refs by (intro ensures_intros) (auto simp: grows_def)

lemma ensures_add_token:
  assumes "E TokenOverflow"
  shows "ensures E (grows net) (add_token N net p k)"
  unfolding add_token_def
  using assms add_token_refs by (intro ensures_intros) (auto simp: grows_def)

lemma ensures_connect_places:
  assumes "s \<in> places_of net" "e \<in> places_of net"
  shows "ensures E (\<lambda>(t, net'). t \<in> transitions_of net' \<and> grows net net')
    (connect_places N net s e label)"
proof -
  obtain t net1 where t: "net_add_transition N label net = (t, net1)" by fastforce
  from add_transition_grows [OF t] have t1: "t \<in> transitions_of net1" and g1: "grows net net1" by auto
  show ?thesis unfolding connect_places_def t Let_def prod.case
  proof (rule ensures_and_then [OF ensures_add_arc_pt])
    show "s \<in> places_of net1" using growsD(1) [OF g1] assms by simp
    show "t \<in> transitions_of net1" by (rule t1)
    fix net2 assume g2: "grows net1 net2"
    show "ensures E (\<lambda>(t, net'). t \<in> transitions_of net' \<and> grows net net')
      (and_then (add_arc_transition_place N net2 t e) (\<lambda>net. Inr (t, net)))"
    proof (rule ensures_and_then [OF ensures_add_arc_tp])
      show "e \<in> places_of net2" using growsD(1) [OF g2] growsD(1) [OF g1] assms by simp
      show "t \<in> transitions_of net2" using growsD(2) [OF g2] t1 by simp
      fix net3 assume "grows net2 net3"
      then show "ensures E (\<lambda>(t, net'). t \<in> transitions_of net' \<and> grows net net') (Inr (t, net3))"
        using g1 g2 t1 by (auto intro: grows_trans growsD)
    qed
  qed
qed

text \<open>
  A chain of arcs between nodes that all belong to a net \<open>n0\<close> the chain started from.
\<close>

lemma ensures_chain:
  assumes "grows n0 n" "p \<in> places_of n0" "t \<in> transitions_of n0"
  shows "ensures E (grows n0) (add_arc_place_transition N n p t)"
    and "ensures E (grows n0) (add_arc_transition_place N n t p)"
proof -
  have "p \<in> places_of n" "t \<in> transitions_of n" using assms growsD by blast+
  then show "ensures E (grows n0) (add_arc_place_transition N n p t)"
    "ensures E (grows n0) (add_arc_transition_place N n t p)"
    using assms(1)
    by (auto intro: ensures_mono [OF ensures_add_arc_pt] ensures_mono [OF ensures_add_arc_tp] grows_trans)
qed

lemma ensures_chain_token:
  "E TokenOverflow \<Longrightarrow> grows n0 n \<Longrightarrow> ensures E (grows n0) (add_token N n p k)"
  by (auto intro: ensures_mono [OF ensures_add_token] grows_trans)

lemmas ensures_chain_bind =
  ensures_and_then [OF ensures_chain(1)] ensures_and_then [OF ensures_chain(2)]
  ensures_and_then [OF ensures_chain_token]

text \<open>A place a transition tests without consuming its token.\<close>

lemma ensures_read_arc:
  assumes "p \<in> places_of n" "t \<in> transitions_of n"
  shows "ensures E (grows n) (and_then (add_arc_place_transition N n p t) (\<lambda>n. add_arc_transition_place N n t p))"
  by (rule ensures_and_then [OF ensures_chain(1) [OF grows_refl assms]]) (rule ensures_chain(2) [OF _ assms])

end

section \<open>The contract: nodes, arcs and tokens\<close>

text \<open>
  A Petri net as a mathematical object. \<open>pn_pre P t p\<close> and \<open>pn_post P t p\<close> are the multiplicities
  of the arcs from \<open>p\<close> to \<open>t\<close> and from \<open>t\<close> to \<open>p\<close>; \<open>pn_tokens P p\<close> is the initial marking.
\<close>

record ('p, 't) pnet =
  pn_places :: "'p set"
  pn_transitions :: "'t set"
  pn_pre :: "'t \<Rightarrow> 'p \<Rightarrow> nat"
  pn_post :: "'t \<Rightarrow> 'p \<Rightarrow> nat"
  pn_tokens :: "'p \<Rightarrow> nat"

definition insert_place :: "'p \<Rightarrow> ('p, 't) pnet \<Rightarrow> ('p, 't) pnet" where
  "insert_place p P = P\<lparr>pn_places := insert p (pn_places P)\<rparr>"

definition insert_transition :: "'t \<Rightarrow> ('p, 't) pnet \<Rightarrow> ('p, 't) pnet" where
  "insert_transition t P = P\<lparr>pn_transitions := insert t (pn_transitions P)\<rparr>"

definition insert_tokens :: "'p \<Rightarrow> nat \<Rightarrow> ('p, 't) pnet \<Rightarrow> ('p, 't) pnet" where
  "insert_tokens p k P = P\<lparr>pn_tokens := (pn_tokens P)(p := pn_tokens P p + k)\<rparr>"

definition insert_arc_pt :: "'p \<Rightarrow> 't \<Rightarrow> ('p, 't) pnet \<Rightarrow> ('p, 't) pnet" where
  "insert_arc_pt p t P = P\<lparr>pn_pre := (pn_pre P)(t := (pn_pre P t)(p := 1))\<rparr>"

definition insert_arc_tp :: "'t \<Rightarrow> 'p \<Rightarrow> ('p, 't) pnet \<Rightarrow> ('p, 't) pnet" where
  "insert_arc_tp t p P = P\<lparr>pn_post := (pn_post P)(t := (pn_post P t)(p := 1))\<rparr>"

text \<open>A transition from \<open>s\<close> to \<open>e\<close>.\<close>

definition insert_edge :: "'t \<Rightarrow> 'p \<Rightarrow> 'p \<Rightarrow> ('p, 't) pnet \<Rightarrow> ('p, 't) pnet" where
  "insert_edge t s e P = insert_arc_tp t e (insert_arc_pt s t (insert_transition t P))"

lemmas pnet_defs = insert_place_def insert_transition_def insert_tokens_def insert_arc_pt_def
  insert_arc_tp_def insert_edge_def

lemma pnet_simps [simp]:
  "pn_places (insert_place p P) = insert p (pn_places P)" "pn_transitions (insert_place p P) = pn_transitions P"
  "pn_pre (insert_place p P) = pn_pre P" "pn_post (insert_place p P) = pn_post P"
  "pn_tokens (insert_place p P) = pn_tokens P"
  "pn_places (insert_transition t P) = pn_places P" "pn_transitions (insert_transition t P) = insert t (pn_transitions P)"
  "pn_pre (insert_transition t P) = pn_pre P" "pn_post (insert_transition t P) = pn_post P"
  "pn_tokens (insert_transition t P) = pn_tokens P"
  "pn_places (insert_tokens p k P) = pn_places P" "pn_transitions (insert_tokens p k P) = pn_transitions P"
  "pn_pre (insert_tokens p k P) = pn_pre P" "pn_post (insert_tokens p k P) = pn_post P"
  "pn_tokens (insert_tokens p k P) = (pn_tokens P)(p := pn_tokens P p + k)"
  "pn_places (insert_arc_pt p t P) = pn_places P" "pn_transitions (insert_arc_pt p t P) = pn_transitions P"
  "pn_pre (insert_arc_pt p t P) = (pn_pre P)(t := (pn_pre P t)(p := 1))" "pn_post (insert_arc_pt p t P) = pn_post P"
  "pn_tokens (insert_arc_pt p t P) = pn_tokens P"
  "pn_places (insert_arc_tp t p P) = pn_places P" "pn_transitions (insert_arc_tp t p P) = pn_transitions P"
  "pn_pre (insert_arc_tp t p P) = pn_pre P" "pn_post (insert_arc_tp t p P) = (pn_post P)(t := (pn_post P t)(p := 1))"
  "pn_tokens (insert_arc_tp t p P) = pn_tokens P"
  "pn_places (insert_edge t s e P) = pn_places P" "pn_transitions (insert_edge t s e P) = insert t (pn_transitions P)"
  "pn_pre (insert_edge t s e P) = (pn_pre P)(t := (pn_pre P t)(s := 1))"
  "pn_post (insert_edge t s e P) = (pn_post P)(t := (pn_post P t)(e := 1))"
  "pn_tokens (insert_edge t s e P) = pn_tokens P"
  by (simp_all add: pnet_defs)

text \<open>
  The library's net and its mathematical meaning \<open>view\<close>. A token count is a \<open>usize\<close>, so adding
  tokens fails on overflow.
\<close>

locale labelled_petri_net = petri_net N "\<lambda>net. pn_places (view net)" "\<lambda>net. pn_transitions (view net)"
  for N :: "('n, 'p, 't) netcrab"
    and view :: "'n \<Rightarrow> ('p, 't) pnet" +
  fixes place_label :: "'p \<Rightarrow> string"
    and transition_label :: "'t \<Rightarrow> string"
  assumes new_net: "pn_places (view (net_new N)) = {}" "pn_transitions (view (net_new N)) = {}"
    and no_dangling_arcs: "t \<notin> pn_transitions (view net) \<Longrightarrow>
      pn_pre (view net) t = (\<lambda>_. 0) \<and> pn_post (view net) t = (\<lambda>_. 0)"
    and no_dangling_tokens: "p \<notin> pn_places (view net) \<Longrightarrow> pn_tokens (view net) p = 0"
    and add_place_fresh: "l \<notin> place_label ` pn_places (view net) \<Longrightarrow> net_add_place N l net = (p, net') \<Longrightarrow>
      p \<notin> pn_places (view net) \<and> place_label p = l \<and> view net' = insert_place p (view net)"
    and add_transition_fresh: "l \<notin> transition_label ` pn_transitions (view net) \<Longrightarrow>
      net_add_transition N l net = (t, net') \<Longrightarrow>
      t \<notin> pn_transitions (view net) \<and> transition_label t = l \<and> view net' = insert_transition t (view net)"
    and add_token_ok: "p \<in> pn_places (view net) \<Longrightarrow> pn_tokens (view net) p + k < 2 ^ 64 \<Longrightarrow>
      net_add_token N p k net \<noteq> None"
    and add_token_exact: "net_add_token N p k net = Some net' \<Longrightarrow> view net' = insert_tokens p k (view net)"
    and arc_pt_exact: "net_add_arc_place_transition N p t net = Some net' \<Longrightarrow>
      pn_pre (view net) t p = 0 \<Longrightarrow> view net' = insert_arc_pt p t (view net)"
    and arc_tp_exact: "net_add_arc_transition_place N t p net = Some net' \<Longrightarrow>
      pn_post (view net) t p = 0 \<Longrightarrow> view net' = insert_arc_tp t p (view net)"
begin

abbreviation places :: "'n \<Rightarrow> 'p set" where "places net \<equiv> pn_places (view net)"

abbreviation transitions :: "'n \<Rightarrow> 't set" where "transitions net \<equiv> pn_transitions (view net)"

text \<open>A new arc between two nodes of the net.\<close>

lemma add_arc_pt_new:
  assumes "p \<in> places net" "t \<in> transitions net" "pn_pre (view net) t p = 0"
  obtains net' where "add_arc_place_transition N net p t = Inr net'" "view net' = insert_arc_pt p t (view net)"
  using assms arc_pt_ok [of p net t] arc_pt_exact by (auto simp: add_arc_place_transition_def)

lemma add_arc_tp_new:
  assumes "p \<in> places net" "t \<in> transitions net" "pn_post (view net) t p = 0"
  obtains net' where "add_arc_transition_place N net t p = Inr net'" "view net' = insert_arc_tp t p (view net)"
  using assms arc_tp_ok [of p net t] arc_tp_exact by (auto simp: add_arc_transition_place_def)

lemma add_token_new:
  assumes "p \<in> places net" "pn_tokens (view net) p + k < 2 ^ 64"
  obtains net' where "add_token N net p k = Inr net'" "view net' = insert_tokens p k (view net)"
  using add_token_ok [OF assms] add_token_exact by (auto simp: add_token_def)

text \<open>A fresh transition between two places of the net: it succeeds, and only its arcs are new.\<close>

lemma connect_places_fresh:
  assumes "s \<in> places net" "e \<in> places net" "l \<notin> transition_label ` transitions net"
  obtains t net' where "connect_places N net s e l = Inr (t, net')" "t \<notin> transitions net"
    "transition_label t = l" "view net' = insert_edge t s e (view net)"
proof -
  obtain t n1 where t: "net_add_transition N l net = (t, n1)" by fastforce
  note f = add_transition_fresh [OF assms(3) t]
  then have z: "pn_pre (view n1) t s = 0" "pn_post (view n1) t e = 0" "t \<in> transitions n1" "places n1 = places net"
    using no_dangling_arcs [of t net] by simp_all
  obtain n2 where n2: "add_arc_place_transition N n1 s t = Inr n2" "view n2 = insert_arc_pt s t (view n1)"
    by (rule add_arc_pt_new [of s n1 t]) (use z assms in simp_all)
  obtain n3 where n3: "add_arc_transition_place N n2 t e = Inr n3" "view n3 = insert_arc_tp t e (view n2)"
    by (rule add_arc_tp_new [of e n2 t]) (use z n2(2) assms in simp_all)
  show ?thesis
    by (rule that [of t n3]) (use t n2 n3 f in \<open>simp_all add: connect_places_def insert_edge_def\<close>)
qed

end

end
