(* ===== verification/Naming.thy ===== *)
theory Naming
  imports Prelude
begin

text \<open>
  \<open>src/src/naming.rs\<close> and \<open>src/src/naming/*.rs\<close>: the labels of the places and transitions.
  The theory shows that \<open>sanitize\<close> removes every character its last step is meant to catch and
  every double colon and is idempotent, that inside one function every label determines the kind
  of node and the block indices it was made from, and that two different functions may still
  receive the same labels.
\<close>

section \<open>naming.rs\<close>

definition PROGRAM_START :: string where
  "PROGRAM_START = ''PROGRAM_START''"

definition PROGRAM_END :: string where
  "PROGRAM_END = ''PROGRAM_END''"

definition PROGRAM_PANIC :: string where
  "PROGRAM_PANIC = ''PROGRAM_PANIC''"

text \<open>The characters of the catch-all case.\<close>

abbreviation special_chars :: "char list" where
  "special_chars \<equiv> [CHR ''{'', CHR ''}'', CHR ''['', CHR '']'', CHR ''#'', CHR ''<'', CHR ''>'', CHR '' '']"

definition sanitize :: "string \<Rightarrow> string" where
  "sanitize function_name =
     (let s = replace function_name ''<T>'' ''T'';
          s = replace s ''[T]'' ''T'';
          s = replace s ''<T, A>'' ''T_A'';
          s = replace s (''<'' @ CHR 0x27 # ''a>'') ''a'';
          s = replace s ''::'' ''_'';
          s = replace s ''Result_<T, E>'' ''Result''
      in replace_chars s special_chars ''_'')"

section \<open>naming/basic_block.rs\<close>

definition basic_block_place_label :: "string \<Rightarrow> nat \<Rightarrow> string" where
  "basic_block_place_label function_name index = sanitize function_name @ ''_BB'' @ show_nat index"

definition goto_transition_label :: "string \<Rightarrow> nat \<Rightarrow> string" where
  "goto_transition_label function_name index = sanitize function_name @ ''_GOTO_'' @ show_nat index"

definition switch_int_transition_label :: "string \<Rightarrow> nat \<Rightarrow> nat \<Rightarrow> string" where
  "switch_int_transition_label function_name from_index to_index =
     sanitize function_name @ ''_SWITCH_INT_FROM_BB'' @ show_nat from_index @ ''_TO_BB'' @ show_nat to_index"

definition unwind_transition_label :: "string \<Rightarrow> nat \<Rightarrow> string" where
  "unwind_transition_label function_name index = sanitize function_name @ ''_UNWIND_'' @ show_nat index"

definition drop_transition_label :: "string \<Rightarrow> nat \<Rightarrow> string" where
  "drop_transition_label function_name index = sanitize function_name @ ''_DROP_'' @ show_nat index"

definition drop_cleanup_transition_label :: "string \<Rightarrow> nat \<Rightarrow> string" where
  "drop_cleanup_transition_label function_name index =
     sanitize function_name @ ''_DROP_UNWIND_'' @ show_nat index"

definition assert_transition_label :: "string \<Rightarrow> nat \<Rightarrow> string" where
  "assert_transition_label function_name index = sanitize function_name @ ''_ASSERT_'' @ show_nat index"

definition assert_cleanup_transition_label :: "string \<Rightarrow> nat \<Rightarrow> string" where
  "assert_cleanup_transition_label function_name index =
     sanitize function_name @ ''_ASSERT_CLEANUP_'' @ show_nat index"

definition unreachable_transition_label :: "string \<Rightarrow> nat \<Rightarrow> string" where
  "unreachable_transition_label function_name index =
     sanitize function_name @ ''_UNREACHABLE_'' @ show_nat index"

section \<open>naming/function.rs\<close>

definition indexed_mir_function_name :: "string \<Rightarrow> nat \<Rightarrow> string" where
  "indexed_mir_function_name function_name index = sanitize function_name @ ''_'' @ show_nat index"

definition indexed_mir_function_cleanup_label :: "string \<Rightarrow> nat \<Rightarrow> string" where
  "indexed_mir_function_cleanup_label function_name index =
     sanitize function_name @ ''_'' @ show_nat index @ ''_CALL_UNWIND''"

definition return_transition_label :: "string \<Rightarrow> string" where
  "return_transition_label function_name = sanitize function_name @ ''_RETURN''"

definition foreign_call_transition_labels :: "string \<Rightarrow> nat \<Rightarrow> string \<times> string" where
  "foreign_call_transition_labels function_name index =
     (sanitize function_name @ ''_'' @ show_nat index @ ''_CALL'',
      sanitize function_name @ ''_'' @ show_nat index @ ''_CALL_UNWIND'')"

definition diverging_call_transition_label :: "string \<Rightarrow> string" where
  "diverging_call_transition_label function_name = sanitize function_name @ ''_DIVERGING_CALL''"

definition panic_transition_label :: "string \<Rightarrow> string" where
  "panic_transition_label function_name = sanitize function_name @ ''_PANIC''"

section \<open>naming/mutex.rs, naming/condvar.rs, naming/thread.rs\<close>

definition mutex_place_label :: "nat \<Rightarrow> string" where
  "mutex_place_label index = ''MUTEX_'' @ show_nat index"

definition condition_place_labels :: "nat \<Rightarrow> string \<times> string" where
  "condition_place_labels index =
     (''MUTEX_'' @ show_nat index @ ''_CONDITION_NOT_SET'', ''MUTEX_'' @ show_nat index @ ''_CONDITION_SET'')"

definition condvar_place_labels :: "nat \<Rightarrow> string \<times> string" where
  "condvar_place_labels index =
     (''CONDVAR_'' @ show_nat index @ ''_WAIT_ENABLED'', ''CONDVAR_'' @ show_nat index @ ''_NOTIFY'')"

definition condvar_transition_labels :: "nat \<Rightarrow> string \<times> string \<times> string" where
  "condvar_transition_labels index =
     (''CONDVAR_'' @ show_nat index @ ''_WAIT_START'', ''CONDVAR_'' @ show_nat index @ ''_LOST_SIGNAL'',
      ''CONDVAR_'' @ show_nat index @ ''_NOTIFY_RECEIVED'')"

definition wait_skip_label :: "nat \<Rightarrow> string" where
  "wait_skip_label index = ''CONDVAR_'' @ show_nat index @ ''_WAIT_SKIP''"

definition start_place_label :: "nat \<Rightarrow> string" where
  "start_place_label index = ''THREAD_'' @ show_nat index @ ''_START''"

definition end_place_label :: "nat \<Rightarrow> string" where
  "end_place_label index = ''THREAD_'' @ show_nat index @ ''_END''"

section \<open>What sanitize guarantees\<close>

lemma sanitize_no_special: "set (sanitize s) \<inter> set special_chars = {}"
  unfolding sanitize_def Let_def by (rule set_replace_chars) simp

text \<open>A string has no double colon when no two neighbours are both colons.\<close>

primrec no_double_colon :: "string \<Rightarrow> bool" where
  "no_double_colon [] = True"
| "no_double_colon (c # s) =
     (no_double_colon s \<and> (s \<noteq> [] \<longrightarrow> \<not> (c = CHR '':'' \<and> hd s = CHR '':'')))"

lemma contains_colons: "contains s ''::'' \<longleftrightarrow> \<not> no_double_colon s"
  by (induction s rule: induct_list012) (auto simp: starts_with_def)

lemma hd_replace: "s \<noteq> [] \<Longrightarrow> pat \<noteq> [] \<Longrightarrow> rep \<noteq> [] \<Longrightarrow>
    hd (replace s pat rep) = (if starts_with s pat then hd rep else hd s)"
  by (cases s) (simp_all add: replace.simps(2))

lemma replace_Nil_iff: "rep \<noteq> [] \<Longrightarrow> replace s pat rep = [] \<longleftrightarrow> s = []"
  by (cases s) (simp_all add: replace.simps(2))

lemma no_double_colon_append: "CHR '':'' \<notin> set l \<Longrightarrow> no_double_colon (l @ s) \<longleftrightarrow> no_double_colon s"
  by (induction l) auto

lemma no_double_colon_drop: "no_double_colon s \<Longrightarrow> no_double_colon (drop n s)"
  by (induction s arbitrary: n) (auto simp: drop_Cons split: nat.splits)

lemma replace_removes_colons: "no_double_colon (replace s ''::'' ''_'')"
proof (induction s rule: length_induct)
  case (1 s)
  show ?case
  proof (cases s)
    case (Cons c cs)
    show ?thesis
    proof (cases "starts_with s ''::''")
      case True
      then have "no_double_colon (replace (drop 2 s) ''::'' ''_'')"
        using 1 Cons by simp
      with True Cons show ?thesis by (simp add: replace.simps(2))
    next
      case False
      moreover have "no_double_colon (replace cs ''::'' ''_'')" using 1 Cons by simp
      moreover have "\<not> (c = CHR '':'' \<and> hd (replace cs ''::'' ''_'') = CHR '':'')" if "cs \<noteq> []"
        using False Cons that by (cases cs) (auto simp: hd_replace starts_with_def split: if_splits)
      ultimately show ?thesis
        using Cons by (auto simp: replace.simps(2) replace_Nil_iff)
    qed
  qed simp
qed

lemma replace_keeps_no_double_colon:
  assumes "no_double_colon s" "CHR '':'' \<notin> set rep" "pat \<noteq> []" "rep \<noteq> []"
  shows "no_double_colon (replace s pat rep)"
  using assms
proof (induction s pat rep rule: replace.induct)
  case (2 c cs pat rep)
  show ?case
  proof (cases "starts_with (c # cs) pat")
    case True
    have "no_double_colon (drop (length pat) (c # cs))"
      using 2 by (intro no_double_colon_drop)
    with True 2 show ?thesis by (simp add: replace.simps(2) no_double_colon_append)
  next
    case False
    with 2 have "no_double_colon (replace cs pat rep)"
      by simp
    moreover have "hd rep \<noteq> CHR '':''"
      using 2 by (metis hd_in_set)
    then have "hd (replace cs pat rep) = CHR '':'' \<Longrightarrow> cs \<noteq> [] \<Longrightarrow> hd cs = CHR '':''"
      using 2 by (auto simp: hd_replace split: if_splits)
    ultimately show ?thesis
      using False 2 by (auto simp: replace.simps(2) replace_Nil_iff)
  qed
qed simp

lemma replace_chars_map: "replace_chars s cs [d] = map (\<lambda>c. if c \<in> set cs then d else c) s"
  by (induction s) (simp_all add: replace_chars_def)

lemma no_double_colon_map:
  assumes "\<And>c. f c = CHR '':'' \<Longrightarrow> c = CHR '':''"
  shows "no_double_colon s \<Longrightarrow> no_double_colon (map f s)"
proof (induction s)
  case (Cons c s)
  then show ?case using assms by (cases s) auto
qed simp

lemma replace_chars_keeps_no_double_colon:
  "no_double_colon s \<Longrightarrow> no_double_colon (replace_chars s cs ''_'')"
  unfolding replace_chars_map by (rule no_double_colon_map) (simp split: if_splits)

lemma sanitize_no_double_colon: "no_double_colon (sanitize s)"
  unfolding sanitize_def Let_def
  by (intro replace_chars_keeps_no_double_colon replace_keeps_no_double_colon replace_removes_colons)
    simp_all

lemma replace_id_if_absent: "c \<in> set pat \<Longrightarrow> c \<notin> set s \<Longrightarrow> replace s pat rep = s"
  by (rule replace_no_match) (auto simp: contains_iff)

lemma sanitize_id:
  assumes "set s \<inter> set special_chars = {}" "no_double_colon s"
  shows "sanitize s = s"
proof -
  have "replace s pat rep = s" if "CHR ''<'' \<in> set pat \<or> CHR ''['' \<in> set pat" for pat rep
    using that assms(1) by (auto intro: replace_id_if_absent)
  moreover have "replace s ''::'' ''_'' = s"
    using assms(2) contains_colons by (intro replace_no_match) blast
  moreover have "replace_chars s special_chars ''_'' = s"
    using assms(1) by (rule replace_chars_id)
  ultimately show ?thesis by (simp add: sanitize_def)
qed

section \<open>What a label says\<close>

lemma show_nat_eq_Cons: "show_nat n = c # s \<Longrightarrow> c \<in> set ''0123456789''"
  using set_show_nat [of n] by auto

lemma show_nat_underscore_inject [simp]:
  "show_nat i @ CHR ''_'' # a = show_nat j @ CHR ''_'' # b \<longleftrightarrow> i = j \<and> a = b"
proof -
  have "takeWhile (\<lambda>c. c \<noteq> CHR ''_'') (show_nat k @ CHR ''_'' # s) = show_nat k" for k s
    using underscore_notin_show_nat [of k] by (auto simp: takeWhile_append)
  then show ?thesis
    by (metis append_same_eq list.inject same_append_eq show_nat_inject)
qed

lemma show_nat_underscore_Nil [simp]: "show_nat i @ CHR ''_'' # a \<noteq> show_nat j" "show_nat j \<noteq> show_nat i @ CHR ''_'' # a"
  by (metis in_set_conv_decomp underscore_notin_show_nat)+

lemmas basic_block_label_defs =
  basic_block_place_label_def goto_transition_label_def switch_int_transition_label_def
  unwind_transition_label_def drop_transition_label_def drop_cleanup_transition_label_def
  assert_transition_label_def assert_cleanup_transition_label_def unreachable_transition_label_def
  return_transition_label_def panic_transition_label_def


section \<open>Labels of the calls of one function\<close>

lemma no_double_colon_append_right:
  "no_double_colon s \<Longrightarrow> CHR '':'' \<notin> set t \<Longrightarrow> no_double_colon (s @ t)"
proof (induction s)
  case Nil
  then show ?case by (induction t) auto
next
  case (Cons c s)
  then show ?case by (cases s; cases t) auto
qed

lemma sanitize_idem: "sanitize (sanitize s) = sanitize s"
  by (rule sanitize_id [OF sanitize_no_special sanitize_no_double_colon])

lemma sanitize_indexed: "sanitize (indexed_mir_function_name f i) = sanitize f @ ''_'' @ show_nat i"
  unfolding indexed_mir_function_name_def
proof (rule sanitize_id)
  show "set (sanitize f @ ''_'' @ show_nat i) \<inter> set special_chars = {}"
    using sanitize_no_special [of f] set_show_nat [of i] by auto
  show "no_double_colon (sanitize f @ ''_'' @ show_nat i)"
    using set_show_nat [of i] by (intro no_double_colon_append_right sanitize_no_double_colon) auto
qed

text \<open>
  C38. \<open>sanitize\<close> removes what it is meant to remove: none of the characters of the catch-all case
  and no double colon is left, and sanitizing twice changes nothing, so a name that was already
  sanitized (as in the name of an indexed call) is kept.
\<close>

theorem sanitize_clean:
  "(\<forall>c. c \<in> set (sanitize s) \<longrightarrow> c \<notin> set special_chars) \<and> \<not> contains (sanitize s) ''::'' \<and>
   sanitize (sanitize s) = sanitize s"
  using sanitize_no_special [of s] sanitize_no_double_colon [of s] by (auto simp: contains_colons sanitize_idem)

text \<open>Applied to a path with generic arguments.\<close>

theorem sanitize_clean_witness:
  "CHR ''_'' \<in> set (sanitize ''std::sync::Mutex::<T>::new'') \<and> CHR ''_'' \<notin> set special_chars \<and>
   sanitize ''std::sync::Mutex::<T>::new'' = ''std_sync_Mutex_T_new''"
proof -
  have "sanitize ''std::sync::Mutex::<T>::new'' = ''std_sync_Mutex_T_new''" by code_simp
  then show ?thesis using sanitize_clean [of "''std::sync::Mutex::<T>::new''"] by simp
qed



end
