(* ===== verification/Special_Function.thy ===== *)
theory Special_Function
  imports Function_Places Petri_Net_Interface Naming
begin

text \<open>
  \<open>src/src/translator/special_function.rs\<close>: functions translated in an abridged form.
\<close>

definition is_panic_function :: "string \<Rightarrow> bool" where
  "is_panic_function function_name \<longleftrightarrow> function_name \<in>
     {''core::panicking::assert_failed'', ''core::panicking::panic'', ''core::panicking::panic_fmt'',
      ''std::rt::begin_panic'', ''std::rt::begin_panic_fmt''}"

definition is_foreign_function :: "def_id \<Rightarrow> string \<Rightarrow> rustc \<Rightarrow> bool" where
  "is_foreign_function function_def_id function_name tcx =
     (starts_with function_name ''std::'' \<or>
      starts_with function_name ''core::'' \<or>
      starts_with function_name ''alloc::'' \<or>
      is_foreign_item tcx function_def_id \<or>
      \<not> is_mir_available tcx function_def_id)"

definition call_foreign_function ::
  "('n, 'p, 't) netcrab \<Rightarrow> string \<Rightarrow> nat \<Rightarrow> 'p call_places \<Rightarrow> 'n \<Rightarrow> ('t call_transitions \<times> 'n) res" where
  "call_foreign_function N function_name index places net =
     (let (default_label, cleanup_label) = foreign_call_transition_labels function_name index
      in case places of
           Basic_Places start_place end_place \<Rightarrow>
             and_then (connect_places N net start_place end_place default_label) (\<lambda>(default_t, net).
             Inr (Basic_Transitions default_t, net))
         | WithCleanup_Places start_place end_place cleanup_place \<Rightarrow>
             and_then (connect_places N net start_place end_place default_label) (\<lambda>(default_t, net).
             and_then (connect_places N net start_place cleanup_place cleanup_label) (\<lambda>(cleanup_t, net).
             Inr (WithCleanup_Transitions default_t cleanup_t, net))))"

definition call_diverging_function ::
  "('n, 'p, 't) netcrab \<Rightarrow> 'p \<Rightarrow> string \<Rightarrow> 'n \<Rightarrow> 'n res" where
  "call_diverging_function N start_place function_name net =
     (let label = diverging_call_transition_label function_name;
          (transition, net) = net_add_transition N label net
      in add_arc_place_transition N net start_place transition)"

definition call_panic_function ::
  "('n, 'p, 't) netcrab \<Rightarrow> 'p \<Rightarrow> 'p \<Rightarrow> string \<Rightarrow> 'n \<Rightarrow> 'n res" where
  "call_panic_function N start_place unwind_place function_name net =
     (let label = panic_transition_label function_name
      in and_then (connect_places N net start_place unwind_place label) (\<lambda>(_, net). Inr net))"

section \<open>References stay valid\<close>

lemma set_ignore_cleanup_place: "set_call_places (ignore_cleanup_place places) \<subseteq> set_call_places places"
  by (cases places) auto

lemma set_get_default: "get_default ts \<in> set_call_transitions ts"
  by (cases ts) auto

context petri_net
begin

lemma ensures_call_foreign_function:
  assumes "set_call_places places \<subseteq> places_of net"
  shows "ensures E (\<lambda>(ts, net'). grows net net' \<and> set_call_transitions ts \<subseteq> transitions_of net')
    (call_foreign_function N function_name index places net)"
proof (cases places)
  case (Basic_Places s e)
  with assms show ?thesis
    by (auto simp: call_foreign_function_def foreign_call_transition_labels_def
        intro!: ensures_mono [OF ensures_connect_places])
next
  case (WithCleanup_Places s e c)
  with assms show ?thesis
    by (auto simp: call_foreign_function_def foreign_call_transition_labels_def
        intro!: ensures_mono [OF ensures_connect_places];
      blast intro: grows_rules)
qed

lemma ensures_call_foreign_function_ignoring_cleanup:
  assumes "set_call_places places \<subseteq> places_of net"
  shows "ensures E (\<lambda>(ts, net'). grows net net' \<and> set_call_transitions ts \<subseteq> transitions_of net')
    (call_foreign_function N function_name index (ignore_cleanup_place places) net)"
  by (rule ensures_call_foreign_function) (rule subset_trans [OF set_ignore_cleanup_place assms])

lemma ensures_call_diverging_function:
  assumes "p \<in> places_of net"
  shows "ensures E (grows net) (call_diverging_function N p function_name net)"
proof -
  obtain t net' where t: "net_add_transition N (diverging_call_transition_label function_name) net = (t, net')"
    by fastforce
  from add_transition_grows [OF t] assms show ?thesis
    by (auto simp: call_diverging_function_def t intro!: ensures_mono [OF ensures_add_arc_pt];
      blast intro: grows_rules)
qed

lemma ensures_call_panic_function:
  assumes "p \<in> places_of net" "q \<in> places_of net"
  shows "ensures E (grows net) (call_panic_function N p q function_name net)"
  using assms by (auto simp: call_panic_function_def intro!: ensures_mono [OF ensures_connect_places])

end

end
