(* ===== verification/Utils.thy ===== *)
theory Utils
  imports Mir
begin

text \<open>\<open>src/src/utils.rs\<close>: helpers over the compiler's types.\<close>

definition extract_def_id_of_called_function_from_operand ::
  "operand \<Rightarrow> def_id \<Rightarrow> rustc \<Rightarrow> def_id res" where
  "extract_def_id_of_called_function_from_operand operand caller_function_def_id tcx =
     (let function_type = (case operand of
            Copy place \<Rightarrow> place_ty tcx caller_function_def_id place
          | Move place \<Rightarrow> place_ty tcx caller_function_def_id place
          | Constant constant \<Rightarrow> const_type constant)
      in case kind function_type of
           FnPtr \<Rightarrow> Inl FunctionPointer
         | FnDef def_id \<Rightarrow> Inr def_id
         | Closure def_id \<Rightarrow> Inr def_id
         | OtherTyKind \<Rightarrow> Inl NotAFunctionType)"

definition extract_nth_argument_as_place :: "operand list \<Rightarrow> nat \<Rightarrow> mir_place option" where
  "extract_nth_argument_as_place args index =
     (if index < length args
      then case args ! index of
             Move place \<Rightarrow> Some place
           | Copy place \<Rightarrow> Some place
           | Constant _ \<Rightarrow> None
      else None)"

definition extract_closure :: "operand list \<Rightarrow> mir_place option res" where
  "extract_closure args = (case args of
      [] \<Rightarrow> Inl SpawnWithoutArguments
    | operand # _ \<Rightarrow> (case operand of
          Move place \<Rightarrow> Inr (Some place)
        | Copy place \<Rightarrow> Inr (Some place)
        | Constant unboxed_const \<Rightarrow>
            if \<not> user_ty_is_none unboxed_const then Inl ClosureWithUserType
            else (case const_kind unboxed_const of
                Const_Ty \<Rightarrow> Inl ClosureConstType
              | Const_Unevaluated \<Rightarrow> Inl ClosureConstUnevaluated
              | Const_Val value \<Rightarrow>
                  if value = ZeroSized then Inr None else Inl ClosureConstNotZeroSized)))"

definition check_substring_in_place_type :: "mir_place \<Rightarrow> string \<Rightarrow> def_id \<Rightarrow> rustc \<Rightarrow> bool" where
  "check_substring_in_place_type place expected_substring caller_function_def_id tcx =
     contains (ty_string (place_ty tcx caller_function_def_id place)) expected_substring"

fun field_number_in :: "projection_elem list \<Rightarrow> nat res" where
  "field_number_in [] = Inl FieldNumberNotFound"
| "field_number_in (elem # elems) =
     (case elem of Field number _ \<Rightarrow> Inr number | _ \<Rightarrow> field_number_in elems)"

definition get_field_number_in_projection :: "mir_place \<Rightarrow> nat res" where
  "get_field_number_in_projection place = field_number_in (projection place)"

lemma get_field_number_first:
  "\<forall>e \<in> set before. \<forall>m t. e \<noteq> Field m t \<Longrightarrow>
   projection place = before @ Field n ty # after \<Longrightarrow> get_field_number_in_projection place = Inr n"
proof -
  have "field_number_in (before @ Field n ty # after) = Inr n"
    if "\<forall>e \<in> set before. \<forall>m t. e \<noteq> Field m t"
    using that by (induction before) (auto split: projection_elem.splits)
  then show "\<forall>e \<in> set before. \<forall>m t. e \<noteq> Field m t \<Longrightarrow>
    projection place = before @ Field n ty # after \<Longrightarrow> get_field_number_in_projection place = Inr n"
    by (simp add: get_field_number_in_projection_def)
qed

lemma field_number_in_Inl: "field_number_in ps = Inl e \<Longrightarrow> e = FieldNumberNotFound"
  by (induction ps) (auto split: projection_elem.splits)

end
