(* ===== verification/Mutex.thy ===== *)
theory Mutex
  imports Store Special_Function Utils
begin

text \<open>
  \<open>src/src/translator/sync/mutex.rs\<close>: a mutex is one place, which holds a token while the mutex
  is unlocked. The mutex also remembers the transitions at which its value was set, from which
  the condition of a condition variable is modelled after the translation of all threads.
\<close>

definition mutex_new :: "('n, 'p, 't) netcrab \<Rightarrow> nat \<Rightarrow> 'n \<Rightarrow> (('p, 't) mutex \<times> 'n) res" where
  "mutex_new N index net =
     (let label = mutex_place_label index;
          (mutex, net) = net_add_place N label net
      in and_then (add_token N net mutex 1) (\<lambda>net.
         Inr (\<lparr>mutex_place = mutex, deref_mut = []\<rparr>, net)))"

definition add_lock_arc :: "('n, 'p, 't) netcrab \<Rightarrow> ('p, 't) mutex \<Rightarrow> 't \<Rightarrow> 'n \<Rightarrow> 'n res" where
  "add_lock_arc N self lock_transition net =
     add_arc_place_transition N net (mutex_place self) lock_transition"

definition add_unlock_arc :: "('n, 'p, 't) netcrab \<Rightarrow> ('p, 't) mutex \<Rightarrow> 't \<Rightarrow> 'n \<Rightarrow> 'n res" where
  "add_unlock_arc N self unlock_transition net =
     add_arc_transition_place N net unlock_transition (mutex_place self)"

definition add_deref_mut_transition :: "mutex_ref \<Rightarrow> 't \<Rightarrow> ('p, 't) store \<Rightarrow> ('p, 't) store res" where
  "add_deref_mut_transition self transition s =
     and_then (deref_cell (mutexes s) self) (\<lambda>mutex.
     Inr (s\<lparr>mutexes := (mutexes s)[self := mutex\<lparr>deref_mut := deref_mut mutex @ [transition]\<rparr>]\<rparr>))"

definition set_condition_arcs ::
  "('n, 'p, 't) netcrab \<Rightarrow> 'p \<Rightarrow> 'p \<Rightarrow> 't \<Rightarrow> 'n \<Rightarrow> 'n res" where
  "set_condition_arcs N condition_not_set condition_set transition_ref net =
     and_then (add_arc_place_transition N net condition_not_set transition_ref) (\<lambda>net.
     add_arc_transition_place N net transition_ref condition_set)"

definition link_to_condvar ::
  "('n, 'p, 't) netcrab \<Rightarrow> ('p, 't) mutex \<Rightarrow> nat \<Rightarrow> 'p \<Rightarrow> 'p \<Rightarrow> 't \<Rightarrow> 'n \<Rightarrow> 'n res" where
  "link_to_condvar N self index start_place end_place wait_start_t net =
     (case deref_mut self of
        [] \<Rightarrow> Inr net
      | _ # _ \<Rightarrow>
          (let (p1, p2) = condition_place_labels index;
               (condition_not_set, net) = net_add_place N p1 net;
               (condition_set, net) = net_add_place N p2 net
           in and_then (add_token N net condition_not_set 1) (\<lambda>net.
              and_then (try_fold (set_condition_arcs N condition_not_set condition_set)
                          (deref_mut self) net) (\<lambda>net.
              and_then (add_arc_place_transition N net condition_not_set wait_start_t) (\<lambda>net.
              and_then (add_arc_transition_place N net wait_start_t condition_not_set) (\<lambda>net.
              and_then (connect_places N net start_place end_place (wait_skip_label index)) (\<lambda>(wait_skip, net).
              and_then (add_arc_place_transition N net condition_set wait_skip) (\<lambda>net.
              add_arc_transition_place N net wait_skip condition_set))))))))"

definition guard_new :: "mutex_ref \<Rightarrow> mutex_guard" where
  "guard_new mutex = \<lparr>guard_mutex = mutex\<rparr>"

definition mutex_call_lock ::
  "('n, 'p, 't) netcrab \<Rightarrow> string \<Rightarrow> nat \<Rightarrow> operand list \<Rightarrow> mir_place \<Rightarrow> 'p call_places \<Rightarrow> 'n \<Rightarrow>
   memory \<Rightarrow> ('p, 't) store \<Rightarrow> ('n \<times> memory) res" where
  "mutex_call_lock N function_name index args destination places net memory s =
     (let places = ignore_cleanup_place places
      in and_then (call_foreign_function N function_name index places net) (\<lambda>(transitions, net).
         let lock_transition = get_default transitions
         in and_then (ok_or (ArgumentNotAPlace function_name) (extract_nth_argument_as_place args 0)) (\<lambda>self_ref.
            and_then (get_mutex self_ref memory) (\<lambda>mutex_ref.
            and_then (deref_cell (mutexes s) mutex_ref) (\<lambda>mutex.
            and_then (add_lock_arc N mutex lock_transition net) (\<lambda>net.
            Inr (net, link_mutex_guard destination (guard_new mutex_ref) memory)))))))"

definition mutex_call_new ::
  "('n, 'p, 't) netcrab \<Rightarrow> string \<Rightarrow> nat \<Rightarrow> mir_place \<Rightarrow> 'p call_places \<Rightarrow> 'n \<Rightarrow> memory \<Rightarrow>
   ('p, 't) store \<Rightarrow> (('p, 't) postprocessing_task \<times> 'n \<times> memory \<times> ('p, 't) store) res" where
  "mutex_call_new N function_name index destination places net memory s =
     and_then (call_foreign_function N function_name index places net) (\<lambda>(_, net).
     and_then (mutex_new N index net) (\<lambda>(mutex, net).
     let (mutex_ref, s) = rc_new_mutex mutex s
     in Inr (new_mutex mutex_ref, net, link_mutex destination mutex_ref memory, s)))"

definition handle_mutex_guard_drop ::
  "('n, 'p, 't) netcrab \<Rightarrow> mir_place \<Rightarrow> 't \<Rightarrow> 'n \<Rightarrow> memory \<Rightarrow> ('p, 't) store \<Rightarrow> 'n res" where
  "handle_mutex_guard_drop N place unlock_transition net memory s =
     (if is_mutex_guard place memory
      then and_then (get_mutex_guard place memory) (\<lambda>mutex_guard_ref.
           and_then (deref_cell (mutexes s) (guard_mutex mutex_guard_ref)) (\<lambda>mutex.
           add_unlock_arc N mutex unlock_transition net))
      else Inr net)"

section \<open>References stay valid\<close>

context petri_net
begin

text \<open>The contract of the handlers: the net and the store grow and stay consistent.\<close>

definition cells_ok :: "'n \<Rightarrow> ('p, 't) store \<Rightarrow> bool" where
  "cells_ok net s \<longleftrightarrow> store_ok (places_of net) (transitions_of net) s"

lemma cells_ok_grows: "cells_ok net s \<Longrightarrow> grows net net' \<Longrightarrow> cells_ok net' s"
  unfolding cells_ok_def grows_def by (auto intro: store_ok_mono)

lemma cells_okD:
  "cells_ok net s \<Longrightarrow> r < length (mutexes s) \<Longrightarrow> mutex_place (mutexes s ! r) \<in> places_of net"
  "cells_ok net s \<Longrightarrow> r < length (mutexes s) \<Longrightarrow> set (deref_mut (mutexes s ! r)) \<subseteq> transitions_of net"
  "cells_ok net s \<Longrightarrow> r < length (condvars s) \<Longrightarrow> wait_start (condvars s ! r) \<in> transitions_of net"
  "cells_ok net s \<Longrightarrow> r < length (condvars s) \<Longrightarrow> notify (condvars s ! r) \<in> places_of net"
  "cells_ok net s \<Longrightarrow> r < length (condvars s) \<Longrightarrow> notify_received (condvars s ! r) \<in> transitions_of net"
  unfolding cells_ok_def store_ok_def by simp_all

lemma ensures_mutex_new:
  "ensures external_panic (\<lambda>(m, net'). grows net net' \<and> mutex_place m \<in> places_of net' \<and> deref_mut m = [])
    (mutex_new N index net)"
proof -
  obtain p net' where p: "net_add_place N (mutex_place_label index) net = (p, net')" by fastforce
  from add_place_grows [OF p] show ?thesis
    by (auto simp: mutex_new_def p intro!: ensures_mono [OF ensures_add_token];
      blast intro: grows_rules)
qed

lemma ensures_add_deref_mut_transition:
  assumes "cells_ok net s" "r < length (mutexes s)" "t \<in> transitions_of net"
  shows "ensures E (\<lambda>s'. store_le s s' \<and> cells_ok net s') (add_deref_mut_transition r t s)"
  using assms cells_okD(1,2) [OF assms(1,2)] unfolding add_deref_mut_transition_def
  by (auto simp: deref_cell_def store_le_def cells_ok_def intro!: store_ok_update_mutex)

lemma ensures_mutex_call_lock:
  assumes "set_call_places places \<subseteq> places_of net" "cells_ok net s" "memory_ok s m"
  shows "ensures external_panic (\<lambda>(net', m'). grows net net' \<and> memory_ok s m')
    (mutex_call_lock N function_name index args destination places net m s)"
proof -
  have lock: "ensures E (\<lambda>net2. grows net net2 \<and> memory_ok s (link_mutex_guard destination (guard_new r) m))
      (add_lock_arc N (mutexes s ! r) (get_default ts) net')"
    if "grows net net'" "set_call_transitions ts \<subseteq> transitions_of net'" "r < length (mutexes s)" for r ts net' E
  proof -
    have "mutex_place (mutexes s ! r) \<in> places_of net'"
      using cells_okD(1) [OF assms(2) that(3)] growsD(1) [OF that(1)] by blast
    moreover have "get_default ts \<in> transitions_of net'" using set_get_default that(2) by blast
    ultimately show ?thesis
      using that assms unfolding add_lock_arc_def
      by (auto simp: guard_new_def intro!: ensures_mono [OF ensures_add_arc_pt]; blast intro: grows_rules)
  qed
  show ?thesis
    unfolding mutex_call_lock_def Let_def ensures_bind
    by (rule ensures_mono [OF ensures_call_foreign_function_ignoring_cleanup [OF assms(1)]])
      (auto intro!: ensures_ok_or ensures_mono [OF ensures_get(1) [OF assms(3)]] ensures_deref_cell
        ensures_mono [OF lock])
qed

text \<open>What a handler may change: the net, the memory of the caller and the store.\<close>

definition sync_step :: "'n \<Rightarrow> ('p, 't) store \<Rightarrow> 'n \<times> memory \<times> ('p, 't) store \<Rightarrow> bool" where
  "sync_step net s = (\<lambda>(net', m', s'). grows net net' \<and> store_le s s' \<and> cells_ok net' s' \<and> memory_ok s' m')"

text \<open>The references of a postprocessing task.\<close>

definition task_ok :: "'n \<Rightarrow> ('p, 't) store \<Rightarrow> ('p, 't) postprocessing_task \<Rightarrow> bool" where
  "task_ok net s task = (case task of
      LinkMutexToCondvar _ _ sp ep w \<Rightarrow> sp \<in> places_of net \<and> ep \<in> places_of net \<and> w \<in> transitions_of net
    | NewMutex _ r \<Rightarrow> r < length (mutexes s))"

lemma task_ok_mono: "task_ok net s task \<Longrightarrow> grows net net' \<Longrightarrow> store_le s s' \<Longrightarrow> task_ok net' s' task"
  unfolding task_ok_def store_le_def by (cases task) (auto dest: growsD)

lemma ensures_mutex_call_new:
  assumes "set_call_places places \<subseteq> places_of net" "cells_ok net s" "memory_ok s m"
  shows "ensures external_panic (\<lambda>(task, net', m', s'). sync_step net s (net', m', s') \<and> task_ok net' s' task)
    (mutex_call_new N function_name index destination places net m s)"
proof -
  have result: "sync_step net s (net', link_mutex destination r m, s') \<and> task_ok net' s' (new_mutex r)"
    if "grows net net1" "grows net1 net'" "mutex_place x \<in> places_of net'" "deref_mut x = []"
      "rc_new_mutex x s = (r, s')" for net1 net' x r s'
  proof -
    have "cells_ok net' s" using assms(2) that(1,2) by (blast intro: cells_ok_grows)
    with that have "cells_ok net' s'"
      using store_ok_rc_new_mutex [of _ _ s x] by (simp add: cells_ok_def)
    with that assms(3) store_le_rc_new(1) [OF that(5)] show ?thesis
      by (auto simp: sync_step_def task_ok_def new_mutex_def intro: grows_trans memory_ok_mono)
  qed
  show ?thesis
    unfolding mutex_call_new_def ensures_bind
    by (rule ensures_mono [OF ensures_call_foreign_function [OF assms(1)]])
      (auto split: prod.splits intro!: ensures_mono [OF ensures_mutex_new];
        blast dest: result)
qed

lemma ensures_handle_mutex_guard_drop:
  assumes "cells_ok net s" "memory_ok s m" "t \<in> transitions_of net"
  shows "ensures external_panic (grows net) (handle_mutex_guard_drop N place t net m s)"
  using assms unfolding handle_mutex_guard_drop_def add_unlock_arc_def
  by (auto intro!: ensures_mono [OF ensures_get(2)] ensures_deref_cell ensures_add_arc_tp cells_okD)

lemma ensures_set_condition_arcs:
  assumes "grows net net'" "p \<in> places_of net" "q \<in> places_of net" "t \<in> transitions_of net"
  shows "ensures E (grows net) (set_condition_arcs N p q t net')"
proof -
  have *: "p \<in> places_of net'" "q \<in> places_of net'" "t \<in> transitions_of net'"
    using assms growsD by blast+
  show ?thesis
    unfolding set_condition_arcs_def ensures_bind
    by (rule ensures_mono [OF ensures_add_arc_pt [OF *(1,3)]], rule ensures_mono [OF ensures_add_arc_tp])
      (use assms * in \<open>blast intro: grows_rules\<close>)+
qed

lemma ensures_link_to_condvar:
  assumes "set (deref_mut m) \<subseteq> transitions_of net" "sp \<in> places_of net" "ep \<in> places_of net"
    "w \<in> transitions_of net"
  shows "ensures external_panic (grows net) (link_to_condvar N m index sp ep w net)"
proof (cases "deref_mut m")
  case Nil
  then show ?thesis by (simp add: link_to_condvar_def)
next
  case (Cons d ds)
  obtain l1 l2 where l: "condition_place_labels index = (l1, l2)" by fastforce
  obtain p n1 where p: "net_add_place N l1 net = (p, n1)" by fastforce
  obtain q n2 where q: "net_add_place N l2 n1 = (q, n2)" by fastforce
  note g = add_place_grows [OF p] add_place_grows [OF q]
  then have gn: "grows net n2" by (blast intro: grows_trans)
  have n2: "p \<in> places_of n2" "q \<in> places_of n2" "sp \<in> places_of n2" "ep \<in> places_of n2" "w \<in> transitions_of n2"
    using g assms gn by (blast intro: growsD)+
  have deref: "ensures E (grows n2) (try_fold (set_condition_arcs N p q) (deref_mut m) n)"
    if "grows n2 n" for n E
    by (rule ensures_try_fold [where I = "grows n2"])
      (use that n2 assms(1) gn in \<open>auto intro!: ensures_set_condition_arcs dest: growsD(2)\<close>)
  have skip: "ensures external_panic (grows net)
      (and_then (connect_places N n sp ep (wait_skip_label index)) (\<lambda>(t, net).
       and_then (add_arc_place_transition N net q t) (\<lambda>net. add_arc_transition_place N net t q)))"
    if "grows n2 n" for n
  proof -
    have "sp \<in> places_of n" "ep \<in> places_of n" "q \<in> places_of n" "grows net n"
      using that n2 gn by (blast intro: grows_rules)+
    then show ?thesis
      by (auto simp del: ensures_bind intro!: ensures_and_then [OF ensures_connect_places]
          ensures_mono [OF ensures_read_arc]; blast intro: grows_rules)
  qed
  show ?thesis
    unfolding link_to_condvar_def Cons list.case l p q Let_def prod.case
    unfolding Cons [symmetric]
    by (intro ensures_chain_bind [where ?n0.0 = n2] ensures_and_then [OF deref] skip) (use n2 in auto)
qed

end

end
