(* ===== verification/Condvar.thy ===== *)
theory Condvar
  imports Mutex
begin

text \<open>
  \<open>src/src/translator/sync/condvar.rs\<close>: a condition variable is two places (\<open>wait_enabled\<close> with
  a token, \<open>notify\<close>) and three transitions (\<open>wait_start\<close>, \<open>lost_signal\<close>, \<open>notify_received\<close>).
\<close>

definition condvar_new :: "('n, 'p, 't) netcrab \<Rightarrow> nat \<Rightarrow> 'n \<Rightarrow> (('p, 't) condvar \<times> 'n) res" where
  "condvar_new N index net =
     (let (p1, p2) = condvar_place_labels index;
          (wait_enabled, net) = net_add_place N p1 net;
          (notify_p, net) = net_add_place N p2 net
      in and_then (add_token N net wait_enabled 1) (\<lambda>net.
         let (t1, t2, t3) = condvar_transition_labels index;
             (wait_start_t, net) = net_add_transition N t1 net;
             (lost_signal, net) = net_add_transition N t2 net;
             (notify_received_t, net) = net_add_transition N t3 net
         in and_then (add_arc_place_transition N net wait_enabled lost_signal) (\<lambda>net.
            and_then (add_arc_place_transition N net notify_p lost_signal) (\<lambda>net.
            and_then (add_arc_transition_place N net lost_signal wait_enabled) (\<lambda>net.
            and_then (add_arc_place_transition N net wait_enabled wait_start_t) (\<lambda>net.
            and_then (add_arc_place_transition N net notify_p notify_received_t) (\<lambda>net.
            and_then (add_arc_transition_place N net notify_received_t wait_enabled) (\<lambda>net.
            Inr (\<lparr>wait_start = wait_start_t, notify = notify_p, notify_received = notify_received_t,
                  already_linked_to_call = False\<rparr>, net)))))))))"

definition link_to_wait_call ::
  "('n, 'p, 't) netcrab \<Rightarrow> condvar_ref \<Rightarrow> 'p \<Rightarrow> 'p \<Rightarrow> mutex_guard \<Rightarrow> 'n \<Rightarrow> ('p, 't) store \<Rightarrow>
   ('n \<times> ('p, 't) store) res" where
  "link_to_wait_call N self_ref start_place end_place mutex_guard_ref net s =
     and_then (deref_cell (condvars s) self_ref) (\<lambda>self.
     if already_linked_to_call self then Inl MultipleWaitCalls
     else and_then (add_arc_place_transition N net start_place (wait_start self)) (\<lambda>net.
          and_then (add_arc_transition_place N net (notify_received self) end_place) (\<lambda>net.
          and_then (deref_cell (mutexes s) (guard_mutex mutex_guard_ref)) (\<lambda>mutex.
          and_then (add_unlock_arc N mutex (wait_start self) net) (\<lambda>net.
          and_then (add_lock_arc N mutex (notify_received self) net) (\<lambda>net.
          if already_linked_to_call self then Inl CondvarLinkedTwice
          else Inr (net, s\<lparr>condvars := (condvars s)[self_ref := self\<lparr>already_linked_to_call := True\<rparr>]\<rparr>)))))))"

definition link_to_notify_one_call ::
  "('n, 'p, 't) netcrab \<Rightarrow> ('p, 't) condvar \<Rightarrow> 't \<Rightarrow> 'n \<Rightarrow> 'n res" where
  "link_to_notify_one_call N self notify_transition net =
     add_arc_transition_place N net notify_transition (notify self)"

definition condvar_call_new ::
  "('n, 'p, 't) netcrab \<Rightarrow> string \<Rightarrow> nat \<Rightarrow> mir_place \<Rightarrow> 'p call_places \<Rightarrow> 'n \<Rightarrow> memory \<Rightarrow>
   ('p, 't) store \<Rightarrow> ('n \<times> memory \<times> ('p, 't) store) res" where
  "condvar_call_new N function_name index destination places net memory s =
     and_then (call_foreign_function N function_name index places net) (\<lambda>(_, net).
     and_then (condvar_new N index net) (\<lambda>(condvar, net).
     let (condvar_ref, s) = rc_new_condvar condvar s
     in Inr (net, link_condvar destination condvar_ref memory, s)))"

definition call_notify_one ::
  "('n, 'p, 't) netcrab \<Rightarrow> string \<Rightarrow> nat \<Rightarrow> operand list \<Rightarrow> 'p call_places \<Rightarrow> 'n \<Rightarrow> memory \<Rightarrow>
   ('p, 't) store \<Rightarrow> 'n res" where
  "call_notify_one N function_name index args places net memory s =
     (let places = ignore_cleanup_place places
      in and_then (call_foreign_function N function_name index places net) (\<lambda>(transitions, net).
         and_then (ok_or (ArgumentNotAPlace function_name) (extract_nth_argument_as_place args 0)) (\<lambda>self_ref.
         and_then (get_condvar self_ref memory) (\<lambda>condvar_ref.
         and_then (deref_cell (condvars s) condvar_ref) (\<lambda>condvar.
         link_to_notify_one_call N condvar (get_default transitions) net)))))"

definition call_wait ::
  "('n, 'p, 't) netcrab \<Rightarrow> string \<Rightarrow> nat \<Rightarrow> operand list \<Rightarrow> mir_place \<Rightarrow> 'p call_places \<Rightarrow> 'n \<Rightarrow>
   memory \<Rightarrow> ('p, 't) store \<Rightarrow> (('p, 't) postprocessing_task \<times> 'n \<times> memory \<times> ('p, 't) store) res" where
  "call_wait N function_name index args destination places net memory s =
     and_then (ok_or (ArgumentNotAPlace function_name) (extract_nth_argument_as_place args 0)) (\<lambda>self_ref.
     and_then (get_condvar self_ref memory) (\<lambda>condvar_ref.
     and_then (ok_or (ArgumentNotAPlace function_name) (extract_nth_argument_as_place args 1)) (\<lambda>mutex_guard.
     and_then (get_mutex_guard mutex_guard memory) (\<lambda>mutex_guard_ref.
     let places = ignore_cleanup_place places;
         (start_place, end_place) = get_start_end_place places
     in and_then (link_to_wait_call N condvar_ref start_place end_place mutex_guard_ref net s) (\<lambda>(net, s).
        and_then (deref_cell (condvars s) condvar_ref) (\<lambda>condvar.
        and_then (link_place_to_same_value destination mutex_guard memory) (\<lambda>memory.
        Inr (link_mutex_to_condvar index start_place end_place (wait_start condvar), net, memory, s))))))))"

section \<open>References stay valid\<close>

context petri_net
begin

lemma ensures_condvar_new:
  "ensures external_panic (\<lambda>(c, net'). grows net net' \<and> wait_start c \<in> transitions_of net' \<and>
      notify c \<in> places_of net' \<and> notify_received c \<in> transitions_of net' \<and> \<not> already_linked_to_call c)
    (condvar_new N index net)"
proof -
  obtain l1 l2 where l: "condvar_place_labels index = (l1, l2)" by fastforce
  obtain k1 k2 k3 where k: "condvar_transition_labels index = (k1, k2, k3)" using prod_cases3 by blast
  obtain p n1 where p: "net_add_place N l1 net = (p, n1)" by fastforce
  obtain q n2 where q: "net_add_place N l2 n1 = (q, n2)" by fastforce
  note pq = add_place_grows [OF p] add_place_grows [OF q]
  have rest: "ensures external_panic (\<lambda>(c, net'). grows net net' \<and> wait_start c \<in> transitions_of net' \<and>
      notify c \<in> places_of net' \<and> notify_received c \<in> transitions_of net' \<and> \<not> already_linked_to_call c)
    (let (w, n) = net_add_transition N k1 n3; (l, n) = net_add_transition N k2 n; (r, n) = net_add_transition N k3 n
     in and_then (add_arc_place_transition N n p l) (\<lambda>n. and_then (add_arc_place_transition N n q l) (\<lambda>n.
        and_then (add_arc_transition_place N n l p) (\<lambda>n. and_then (add_arc_place_transition N n p w) (\<lambda>n.
        and_then (add_arc_place_transition N n q r) (\<lambda>n. and_then (add_arc_transition_place N n r p) (\<lambda>n.
        Inr (\<lparr>wait_start = w, notify = q, notify_received = r, already_linked_to_call = False\<rparr>, n))))))))"
    if "grows n2 n3" for n3
  proof -
    obtain w n4 where w: "net_add_transition N k1 n3 = (w, n4)" by fastforce
    obtain ll n5 where ll: "net_add_transition N k2 n4 = (ll, n5)" by fastforce
    obtain r n6 where r: "net_add_transition N k3 n5 = (r, n6)" by fastforce
    note ts = add_transition_grows [OF w] add_transition_grows [OF ll] add_transition_grows [OF r]
    have g: "grows n2 n6" "grows net n6" using pq ts that by (blast intro: grows_trans)+
    have n6: "p \<in> places_of n6" "q \<in> places_of n6" "w \<in> transitions_of n6" "ll \<in> transitions_of n6" "r \<in> transitions_of n6"
      using pq ts g(1) by (blast intro: growsD)+
    show ?thesis unfolding w ll r Let_def prod.case
      by (intro ensures_chain_bind [where ?n0.0 = n6])
        (use n6 g(2) in \<open>auto dest: growsD grows_trans\<close>)
  qed
  show ?thesis unfolding condvar_new_def l k p q Let_def prod.case
    by (rule ensures_and_then [OF ensures_chain_token [OF _ grows_refl]])
      (simp, rule rest [unfolded Let_def])
qed

lemma ensures_condvar_call_new:
  assumes "set_call_places places \<subseteq> places_of net" "cells_ok net s" "memory_ok s m"
  shows "ensures external_panic (sync_step net s)
    (condvar_call_new N function_name index destination places net m s)"
proof -
  have result: "sync_step net s (net', link_condvar destination r m, s')"
    if "grows net net1" "grows net1 net'" "wait_start x \<in> transitions_of net'" "notify x \<in> places_of net'"
      "notify_received x \<in> transitions_of net'" "rc_new_condvar x s = (r, s')" for net1 net' x r s'
  proof -
    have "cells_ok net' s" using assms(2) that(1,2) by (blast intro: cells_ok_grows)
    with that have "cells_ok net' s'"
      using store_ok_rc_new_condvar [of _ _ s x] by (simp add: cells_ok_def)
    with that assms(3) store_le_rc_new(2) [OF that(6)] show ?thesis
      by (auto simp: sync_step_def intro: grows_trans memory_ok_mono)
  qed
  show ?thesis
    unfolding condvar_call_new_def ensures_bind
    by (rule ensures_mono [OF ensures_call_foreign_function [OF assms(1)]])
      (auto split: prod.splits intro!: ensures_mono [OF ensures_condvar_new]; blast dest: result)
qed

lemma ensures_call_notify_one:
  assumes "set_call_places places \<subseteq> places_of net" "cells_ok net s" "memory_ok s m"
  shows "ensures external_panic (grows net) (call_notify_one N function_name index args places net m s)"
proof -
  have arc: "ensures E (grows net) (link_to_notify_one_call N (condvars s ! r) (get_default ts) net')"
    if "grows net net'" "set_call_transitions ts \<subseteq> transitions_of net'" "r < length (condvars s)" for r ts net' E
  proof -
    have "notify (condvars s ! r) \<in> places_of net'"
      using cells_okD(4) [OF assms(2) that(3)] growsD(1) [OF that(1)] by blast
    moreover have "get_default ts \<in> transitions_of net'" using set_get_default that(2) by blast
    ultimately show ?thesis
      using that(1) unfolding link_to_notify_one_call_def
      by (auto intro!: ensures_mono [OF ensures_add_arc_tp]; blast intro: grows_rules)
  qed
  show ?thesis
    unfolding call_notify_one_def Let_def ensures_bind
    by (rule ensures_mono [OF ensures_call_foreign_function_ignoring_cleanup [OF assms(1)]])
      (auto intro!: ensures_ok_or ensures_mono [OF ensures_get(4) [OF assms(3)]] ensures_deref_cell arc)
qed

lemma ensures_link_to_wait_call:
  assumes "cells_ok net s" "c < length (condvars s)" "guard_mutex g < length (mutexes s)"
    "sp \<in> places_of net" "ep \<in> places_of net"
  shows "ensures external_panic (\<lambda>(net', s'). grows net net' \<and> store_le s s' \<and> cells_ok net' s' \<and>
      c < length (condvars s')) (link_to_wait_call N c sp ep g net s)"
proof -
  define self where "self = condvars s ! c"
  define mutex where "mutex = mutexes s ! guard_mutex g"
  have self: "wait_start self \<in> transitions_of net" "notify self \<in> places_of net"
      "notify_received self \<in> transitions_of net" "mutex_place mutex \<in> places_of net"
    unfolding self_def mutex_def using assms cells_okD by blast+
  have upd: "grows net net' \<and> store_le s s' \<and> cells_ok net' s' \<and> c < length (condvars s')"
    if "grows net net'" "s' = s\<lparr>condvars := (condvars s)[c := self\<lparr>already_linked_to_call := True\<rparr>]\<rparr>" for net' s'
    using that assms(2) cells_ok_grows [OF assms(1) that(1)] self growsD [OF that(1)]
    by (auto simp: cells_ok_def store_le_def intro!: store_ok_update_condvar)
  have d: "deref_cell (condvars s) c = Inr self" "deref_cell (mutexes s) (guard_mutex g) = Inr mutex"
    using assms by (simp_all add: deref_cell_def self_def mutex_def)
  show ?thesis
  proof (cases "already_linked_to_call self")
    case True
    then show ?thesis by (simp add: link_to_wait_call_def d)
  next
    case False
    then show ?thesis
      unfolding link_to_wait_call_def d and_then_Inr add_unlock_arc_def add_lock_arc_def if_not_P [OF False]
      by (intro ensures_chain_bind [where ?n0.0 = net]) (use assms self upd in auto)
  qed
qed

lemma ensures_call_wait:
  assumes "set_call_places places \<subseteq> places_of net" "cells_ok net s" "memory_ok s m"
  shows "ensures external_panic (\<lambda>(task, net', m', s'). sync_step net s (net', m', s') \<and> task_ok net' s' task)
    (call_wait N function_name index args destination places net m s)"
proof -
  obtain sp ep where pl: "get_start_end_place (ignore_cleanup_place places) = (sp, ep)" by fastforce
  then have se: "sp \<in> places_of net" "ep \<in> places_of net" using assms(1) by (cases places; auto)+
  have rest: "ensures external_panic (\<lambda>x. case x of (task, net', m', s') \<Rightarrow> sync_step net s (net', m', s') \<and> task_ok net' s' task)
      (and_then (deref_cell (condvars s') c) (\<lambda>condvar.
       and_then (link_place_to_same_value destination g m) (\<lambda>memory.
       Inr (link_mutex_to_condvar index sp ep (wait_start condvar), net', memory, s'))))"
    if "grows net net'" "store_le s s'" "cells_ok net' s'" "c < length (condvars s')" for net' s' c g
    using that cells_okD(3) [OF that(3,4)] se memory_ok_mono [OF assms(3) that(2)] growsD(1) [OF that(1)]
    by (auto simp: sync_step_def task_ok_def link_mutex_to_condvar_def
        intro!: ensures_deref_cell ensures_mono [OF ensures_link_place_to_same_value])
  show ?thesis
    unfolding call_wait_def pl Let_def prod.case ensures_bind
    by (auto intro!: ensures_ok_or ensures_mono [OF ensures_get(4) [OF assms(3)]]
        ensures_mono [OF ensures_get(2) [OF assms(3)]]
        ensures_mono [OF ensures_link_to_wait_call [OF assms(2) _ _ se]] rest [simplified])
qed

end

end
