(* ===== verification/Thread.thy ===== *)
theory Thread
  imports Mutex
begin

text \<open>
  \<open>src/src/translator/sync/thread.rs\<close>: a spawned thread, translated after the function that
  spawned it, between its spawn transition and its (optional) join transition.
\<close>

definition thread_new :: "'t \<Rightarrow> def_id \<Rightarrow> val list \<Rightarrow> nat \<Rightarrow> 't thread" where
  "thread_new transition thread_function_def_id aggregate index =
     \<lparr>spawn_transition = transition, thread_def_id = thread_function_def_id,
      thread_aggregate = aggregate, join_transition = None, thread_index = index\<rparr>"

definition set_join_transition :: "thread_ref \<Rightarrow> 't \<Rightarrow> ('p, 't) store \<Rightarrow> ('p, 't) store res" where
  "set_join_transition self transition s =
     and_then (deref_cell (thread_cells s) self) (\<lambda>thread.
     case join_transition thread of
       Some _ \<Rightarrow> Inl JoinTransitionSetTwice
     | None \<Rightarrow> Inr (s\<lparr>thread_cells := (thread_cells s)[self := thread\<lparr>join_transition := Some transition\<rparr>]\<rparr>))"

definition prepare_for_translation ::
  "('n, 'p, 't) netcrab \<Rightarrow> 't thread \<Rightarrow> 'n \<Rightarrow> ((def_id \<times> 'p \<times> 'p) \<times> 'n) res" where
  "prepare_for_translation N self net =
     (let (thread_start_place, net) = net_add_place N (start_place_label (thread_index self)) net;
          (thread_end_place, net) = net_add_place N (end_place_label (thread_index self)) net
      in and_then (add_arc_transition_place N net (spawn_transition self) thread_start_place) (\<lambda>net.
         and_then (case join_transition self of
             Some transition \<Rightarrow> add_arc_place_transition N net thread_end_place transition
           | None \<Rightarrow> Inr net) (\<lambda>net.
         Inr ((thread_def_id self, thread_start_place, thread_end_place), net))))"

definition link_debug_place :: "mir_place \<Rightarrow> var_debug_info_contents \<Rightarrow> memory \<Rightarrow> memory res" where
  "link_debug_place base_place debug_info memory = (case debug_info of
      OtherDebugInfo \<Rightarrow> Inr memory
    | DebugPlace place \<Rightarrow>
        if local place \<noteq> 1 then Inr memory
        else and_then (get_field_number_in_projection place) (\<lambda>field_number.
             link_field_in_aggregate place base_place field_number memory))"

definition move_sync_variables :: "'t thread \<Rightarrow> memory \<Rightarrow> rustc \<Rightarrow> memory res" where
  "move_sync_variables self memory tcx =
     (let base_place = local_place 1
      in and_then (link_aggregate base_place (thread_aggregate self) memory) (\<lambda>memory.
         try_fold (link_debug_place base_place) (var_debug_info tcx (thread_def_id self)) memory))"

definition call_join ::
  "('n, 'p, 't) netcrab \<Rightarrow> string \<Rightarrow> nat \<Rightarrow> operand list \<Rightarrow> 'p call_places \<Rightarrow> 'n \<Rightarrow> memory \<Rightarrow>
   ('p, 't) store \<Rightarrow> ('n \<times> ('p, 't) store) res" where
  "call_join N function_name index args places net memory s =
     (let places = ignore_cleanup_place places
      in and_then (call_foreign_function N function_name index places net) (\<lambda>(transitions, net).
         let transition = get_default transitions
         in and_then (ok_or (ArgumentNotAPlace function_name) (extract_nth_argument_as_place args 0)) (\<lambda>self_ref.
            and_then (get_join_handle self_ref memory) (\<lambda>thread_ref.
            and_then (set_join_transition thread_ref transition s) (\<lambda>s.
            Inr (net, s))))))"

section \<open>References stay valid\<close>

lemma ensures_link_debug_place:
  "memory_ok s m \<Longrightarrow> ensures external_panic (memory_ok s) (link_debug_place base info m)"
proof (cases info)
  case (DebugPlace place)
  then show "memory_ok s m \<Longrightarrow> ?thesis"
    by (cases "get_field_number_in_projection place")
      (auto simp: link_debug_place_def get_field_number_in_projection_def
        dest: field_number_in_Inl intro: ensures_link_field_in_aggregate)
qed (simp add: link_debug_place_def)

lemma ensures_move_sync_variables:
  assumes "memory_ok s m" "\<forall>v \<in> set (thread_aggregate self). val_ok s v"
  shows "ensures external_panic (memory_ok s) (move_sync_variables self m tcx)"
  unfolding move_sync_variables_def Let_def ensures_bind
  by (rule ensures_mono [OF ensures_link_aggregate [OF assms]])
    (auto intro: ensures_try_fold ensures_link_debug_place)

context petri_net
begin

lemma ensures_set_join_transition:
  assumes "cells_ok net s" "r < length (thread_cells s)" "t \<in> transitions_of net"
  shows "ensures external_panic (\<lambda>s'. store_le s s' \<and> cells_ok net s') (set_join_transition r t s)"
  using assms store_ok_update_thread [of _ _ s r t]
  by (auto simp: set_join_transition_def deref_cell_def store_le_def cells_ok_def split: option.splits)

lemma ensures_call_join:
  assumes "set_call_places places \<subseteq> places_of net" "cells_ok net s" "memory_ok s m"
  shows "ensures external_panic (\<lambda>(net', s'). sync_step net s (net', m, s'))
    (call_join N function_name index args places net m s)"
proof -
  have set: "ensures external_panic (\<lambda>s'. sync_step net s (net', m, s')) (set_join_transition r (get_default ts) s)"
    if "grows net net'" "set_call_transitions ts \<subseteq> transitions_of net'" "r < length (thread_cells s)" for r ts net'
    by (rule ensures_mono [OF ensures_set_join_transition [OF cells_ok_grows [OF assms(2) that(1)] that(3)]])
      (use that set_get_default [of ts] assms(3) in \<open>auto simp: sync_step_def intro: memory_ok_mono\<close>)
  show ?thesis
    unfolding call_join_def Let_def ensures_bind
    by (rule ensures_mono [OF ensures_call_foreign_function_ignoring_cleanup [OF assms(1)]])
      (auto intro!: ensures_ok_or ensures_mono [OF ensures_get(3) [OF assms(3)]] set)
qed

lemma ensures_prepare_for_translation:
  assumes "spawn_transition self \<in> transitions_of net" "set_option (join_transition self) \<subseteq> transitions_of net"
  shows "ensures E (\<lambda>((d, sp, ep), net'). grows net net' \<and> sp \<in> places_of net' \<and> ep \<in> places_of net' \<and>
      d = thread_def_id self) (prepare_for_translation N self net)"
proof -
  obtain p n1 where p: "net_add_place N (start_place_label (thread_index self)) net = (p, n1)" by fastforce
  obtain q n2 where q: "net_add_place N (end_place_label (thread_index self)) n1 = (q, n2)" by fastforce
  note pq = add_place_grows [OF p] add_place_grows [OF q]
  have n2: "grows net n2" "p \<in> places_of n2" "q \<in> places_of n2" "spawn_transition self \<in> transitions_of n2"
      "set_option (join_transition self) \<subseteq> transitions_of n2"
    using pq assms by (blast intro: grows_rules)+
  have join: "ensures E (grows n2) (case join_transition self of
      Some t \<Rightarrow> add_arc_place_transition N n q t | None \<Rightarrow> Inr n)" if "grows n2 n" for n
    using that n2 by (auto intro: ensures_chain split: option.splits)
  show ?thesis unfolding prepare_for_translation_def p q Let_def prod.case
    by (rule ensures_chain_bind(2) [where ?n0.0 = n2], simp, rule n2(2), rule n2(4),
        rule ensures_and_then [OF join])
      (use n2 in \<open>auto dest: growsD intro: grows_trans\<close>)
qed

end

end
