(* ===== verification/Sync.thy ===== *)
theory Sync
  imports Condvar Thread
begin

text \<open>
  \<open>src/src/translator/sync.rs\<close>: the dispatch to the handlers of the synchronization functions,
  and the tracking of synchronization variables through assignments and calls.
\<close>

definition is_supported_function :: "string \<Rightarrow> bool" where
  "is_supported_function function_name \<longleftrightarrow> function_name \<in>
     {''std::sync::Condvar::new'', ''std::sync::Condvar::notify_one'', ''std::sync::Condvar::wait'',
      ''std::sync::Condvar::wait_while'', ''std::sync::Mutex::<T>::lock'', ''std::sync::Mutex::<T>::new'',
      ''std::thread::spawn'', ''std::thread::JoinHandle::<T>::join''}"

definition sync_call_function ::
  "('n, 'p, 't) netcrab \<Rightarrow> string \<Rightarrow> nat \<Rightarrow> operand list \<Rightarrow> mir_place \<Rightarrow> 'p call_places \<Rightarrow> 'n \<Rightarrow>
   memory \<Rightarrow> ('p, 't) store \<Rightarrow>
   (('p, 't) postprocessing_task option \<times> 'n \<times> memory \<times> ('p, 't) store) res" where
  "sync_call_function N function_name index args destination places net memory s =
     (if function_name = ''std::sync::Condvar::new'' then
        and_then (condvar_call_new N function_name index destination places net memory s) (\<lambda>(net, memory, s).
        Inr (None, net, memory, s))
      else if function_name = ''std::sync::Condvar::notify_one'' then
        and_then (call_notify_one N function_name index args places net memory s) (\<lambda>net.
        Inr (None, net, memory, s))
      else if function_name = ''std::sync::Condvar::wait'' \<or> function_name = ''std::sync::Condvar::wait_while'' then
        and_then (call_wait N function_name index args destination places net memory s) (\<lambda>(task, net, memory, s).
        Inr (Some task, net, memory, s))
      else if function_name = ''std::sync::Mutex::<T>::lock'' then
        and_then (mutex_call_lock N function_name index args destination places net memory s) (\<lambda>(net, memory).
        Inr (None, net, memory, s))
      else if function_name = ''std::sync::Mutex::<T>::new'' then
        and_then (mutex_call_new N function_name index destination places net memory s) (\<lambda>(task, net, memory, s).
        Inr (Some task, net, memory, s))
      else if function_name = ''std::thread::JoinHandle::<T>::join'' then
        and_then (call_join N function_name index args places net memory s) (\<lambda>(net, s).
        Inr (None, net, memory, s))
      else Inl (HandlerNotDefined function_name))"

definition check_if_sync_variable :: "mir_place \<Rightarrow> def_id \<Rightarrow> rustc \<Rightarrow> bool" where
  "check_if_sync_variable place caller_function_def_id tcx =
     (check_substring_in_place_type place ''std::sync::MutexGuard<'' caller_function_def_id tcx \<or>
      check_substring_in_place_type place ''std::sync::Mutex<'' caller_function_def_id tcx \<or>
      check_substring_in_place_type place ''std::thread::JoinHandle<'' caller_function_def_id tcx \<or>
      check_substring_in_place_type place ''std::sync::Condvar'' caller_function_def_id tcx)"

fun places_with_sync_variables :: "operand list \<Rightarrow> def_id \<Rightarrow> rustc \<Rightarrow> mir_place list" where
  "places_with_sync_variables [] caller_function_def_id tcx = []"
| "places_with_sync_variables (operand # operands) caller_function_def_id tcx =
     (let rhs = (case operand of Copy place \<Rightarrow> Some place | Move place \<Rightarrow> Some place | Constant _ \<Rightarrow> None);
          rest = places_with_sync_variables operands caller_function_def_id tcx
      in case rhs of
           None \<Rightarrow> rest
         | Some rhs \<Rightarrow> if check_if_sync_variable rhs caller_function_def_id tcx then rhs # rest else rest)"

definition handle_aggregate_assignment ::
  "mir_place \<Rightarrow> operand list \<Rightarrow> memory \<Rightarrow> def_id \<Rightarrow> rustc \<Rightarrow> memory res" where
  "handle_aggregate_assignment place operands memory caller_function_def_id tcx =
     (let places = places_with_sync_variables operands caller_function_def_id tcx
      in case places of
           [] \<Rightarrow> Inr memory
         | _ # _ \<Rightarrow> create_aggregate place places memory)"

definition link_if_sync_variable ::
  "mir_place \<Rightarrow> mir_place \<Rightarrow> memory \<Rightarrow> def_id \<Rightarrow> rustc \<Rightarrow> memory res" where
  "link_if_sync_variable place_to_link place_linked memory caller_function_def_id tcx =
     (if \<not> check_if_sync_variable place_to_link caller_function_def_id tcx then Inr memory
      else if is_indirect tcx place_linked then
        and_then (get_field_number_in_projection place_linked) (\<lambda>field_number.
        let base_place = place_linked\<lparr>projection := []\<rparr>
        in link_field_in_aggregate place_to_link base_place field_number memory)
      else link_place_to_same_value place_to_link place_linked memory)"

definition link_return_value_if_sync_variable ::
  "operand list \<Rightarrow> mir_place \<Rightarrow> memory \<Rightarrow> def_id \<Rightarrow> rustc \<Rightarrow> memory res" where
  "link_return_value_if_sync_variable args return_value memory caller_function_def_id tcx =
     (case extract_nth_argument_as_place args 0 of
        None \<Rightarrow> Inr memory
      | Some first_argument \<Rightarrow>
          link_if_sync_variable return_value first_argument memory caller_function_def_id tcx)"

section \<open>References stay valid\<close>

lemma ensures_get_field_number: "ensures external_panic (\<lambda>_. True) (get_field_number_in_projection p)"
  by (cases "get_field_number_in_projection p")
    (auto simp: get_field_number_in_projection_def dest: field_number_in_Inl)

lemma ensures_handle_aggregate_assignment:
  "memory_ok s m \<Longrightarrow> ensures external_panic (memory_ok s) (handle_aggregate_assignment p operands m d tcx)"
  by (auto simp: handle_aggregate_assignment_def Let_def split: list.splits intro: ensures_create_aggregate)

lemma ensures_link_if_sync_variable:
  "memory_ok s m \<Longrightarrow> ensures external_panic (memory_ok s) (link_if_sync_variable p q m d tcx)"
  by (auto simp: link_if_sync_variable_def Let_def
      intro: ensures_mono [OF ensures_get_field_number] ensures_link_field_in_aggregate
        ensures_link_place_to_same_value)

lemma ensures_link_return_value:
  "memory_ok s m \<Longrightarrow> ensures external_panic (memory_ok s) (link_return_value_if_sync_variable args p m d tcx)"
  by (auto simp: link_return_value_if_sync_variable_def split: option.splits intro: ensures_link_if_sync_variable)

text \<open>
  Every function that \<open>is_supported_function\<close> accepts has a handler, except
  \<open>std::thread::spawn\<close>, which the translator handles before.
\<close>

lemma sync_call_function_cases:
  assumes "is_supported_function name" "name \<noteq> ''std::thread::spawn''"
  obtains
    (condvar_new) "\<And>N. sync_call_function N name i args dest pl net m s =
      and_then (condvar_call_new N name i dest pl net m s) (\<lambda>(net, m, s). Inr (None, net, m, s))"
  | (notify_one) "\<And>N. sync_call_function N name i args dest pl net m s =
      and_then (call_notify_one N name i args pl net m s) (\<lambda>net. Inr (None, net, m, s))"
  | (wait) "\<And>N. sync_call_function N name i args dest pl net m s =
      and_then (call_wait N name i args dest pl net m s) (\<lambda>(task, net, m, s). Inr (Some task, net, m, s))"
  | (lock) "\<And>N. sync_call_function N name i args dest pl net m s =
      and_then (mutex_call_lock N name i args dest pl net m s) (\<lambda>(net, m). Inr (None, net, m, s))"
  | (mutex_new) "\<And>N. sync_call_function N name i args dest pl net m s =
      and_then (mutex_call_new N name i dest pl net m s) (\<lambda>(task, net, m, s). Inr (Some task, net, m, s))"
  | (join) "\<And>N. sync_call_function N name i args dest pl net m s =
      and_then (call_join N name i args pl net m s) (\<lambda>(net, s). Inr (None, net, m, s))"
  using assms(1) unfolding is_supported_function_def insert_iff empty_iff
proof (elim disjE)
  assume "name = ''std::sync::Condvar::new''"
  then show thesis by (intro condvar_new) (simp add: sync_call_function_def)
next
  assume "name = ''std::sync::Condvar::notify_one''"
  then show thesis by (intro notify_one) (simp add: sync_call_function_def)
next
  assume "name = ''std::sync::Condvar::wait''"
  then show thesis by (intro wait) (simp add: sync_call_function_def)
next
  assume "name = ''std::sync::Condvar::wait_while''"
  then show thesis by (intro wait) (simp add: sync_call_function_def)
next
  assume "name = ''std::sync::Mutex::<T>::lock''"
  then show thesis by (intro lock) (simp add: sync_call_function_def)
next
  assume "name = ''std::sync::Mutex::<T>::new''"
  then show thesis by (intro mutex_new) (simp add: sync_call_function_def)
next
  assume "name = ''std::thread::JoinHandle::<T>::join''"
  then show thesis by (intro join) (simp add: sync_call_function_def)
qed (use assms(2) in simp_all)

context petri_net
begin

definition sync_result :: "'n \<Rightarrow> ('p, 't) store \<Rightarrow>
    ('p, 't) postprocessing_task option \<times> 'n \<times> memory \<times> ('p, 't) store \<Rightarrow> bool" where
  "sync_result net s = (\<lambda>(task, net', m', s'). sync_step net s (net', m', s') \<and>
     (\<forall>t. task = Some t \<longrightarrow> task_ok net' s' t \<and> well_prioritised t))"

lemma sync_step_grows: "grows net net' \<Longrightarrow> cells_ok net s \<Longrightarrow> memory_ok s m \<Longrightarrow> sync_step net s (net', m, s)"
  unfolding sync_step_def by (auto intro: cells_ok_grows)

lemma mutex_call_new_task:
  "mutex_call_new N function_name index destination places net m s = Inr (t, r) \<Longrightarrow> well_prioritised t"
  by (auto simp: mutex_call_new_def case_prod_unfold Let_def)

lemma call_wait_task:
  "call_wait N function_name index args destination places net m s = Inr (t, r) \<Longrightarrow> well_prioritised t"
  by (auto simp: call_wait_def case_prod_unfold Let_def)

lemma ensures_sync_call_function:
  assumes "set_call_places places \<subseteq> places_of net" "cells_ok net s" "memory_ok s m"
    "is_supported_function function_name" "function_name \<noteq> ''std::thread::spawn''"
  shows "ensures external_panic (sync_result net s)
    (sync_call_function N function_name index args destination places net m s)"
  using assms(4,5)
proof (cases rule: sync_call_function_cases [where i = index and dest = destination and args = args
      and pl = places and net = net and m = m and s = s])
  case condvar_new
  show ?thesis unfolding condvar_new ensures_bind
    by (rule ensures_mono [OF ensures_condvar_call_new [OF assms(1-3)]]) (auto simp: sync_result_def)
next
  case notify_one
  show ?thesis unfolding notify_one ensures_bind
    by (rule ensures_mono [OF ensures_call_notify_one [OF assms(1-3)]])
      (use assms(2,3) in \<open>simp add: sync_result_def sync_step_grows\<close>)
next
  case wait
  show ?thesis unfolding wait ensures_bind
    by (rule ensures_mono [OF ensures_call_wait [OF assms(1-3)]])
      (auto simp: sync_result_def dest: call_wait_task)
next
  case lock
  show ?thesis unfolding lock ensures_bind
    by (rule ensures_mono [OF ensures_mutex_call_lock [OF assms(1-3)]])
      (use assms(2) in \<open>auto simp: sync_result_def sync_step_grows\<close>)
next
  case mutex_new
  show ?thesis unfolding mutex_new ensures_bind
    by (rule ensures_mono [OF ensures_mutex_call_new [OF assms(1-3)]])
      (auto simp: sync_result_def dest: mutex_call_new_task)
next
  case join
  show ?thesis unfolding join ensures_bind
    by (rule ensures_mono [OF ensures_call_join [OF assms(1-3)]]) (auto simp: sync_result_def)
qed

end

end
