(* ===== verification/Mir_Function.thy ===== *)
theory Mir_Function
  imports Petri_Net_Interface Naming Memory
begin

text \<open>
  \<open>src/src/translator/mir_function/basic_block.rs\<close>, \<open>src/src/translator/mir_function.rs\<close> and
  \<open>src/src/translator/mir_function/terminator.rs\<close>: a function under translation, its basic
  blocks, and the transitions its terminators add to the net. The operations that take
  \<open>&mut self\<close> return the updated function beside their result.
\<close>

section \<open>basic_block.rs\<close>

record 'p basic_block =
  block_function_name :: string
  block_idx :: nat
  block_place :: 'p

definition basic_block_new ::
  "('n, 'p, 't) netcrab \<Rightarrow> string \<Rightarrow> nat \<Rightarrow> 'p option \<Rightarrow> 'n \<Rightarrow> 'p basic_block \<times> 'n" where
  "basic_block_new N function_name index place net =
     (let (place, net) = (case place of
            None \<Rightarrow> net_add_place N (basic_block_place_label function_name index) net
          | Some place \<Rightarrow> (place, net))
      in (\<lparr>block_function_name = function_name, block_idx = index, block_place = place\<rparr>, net))"

definition block_goto :: "('n, 'p, 't) netcrab \<Rightarrow> 'p basic_block \<Rightarrow> 'p basic_block \<Rightarrow> 'n \<Rightarrow> 'n res" where
  "block_goto N self target net =
     (let label = goto_transition_label (block_function_name self) (block_idx self)
      in and_then (connect_places N net (block_place self) (block_place target) label) (\<lambda>(_, net). Inr net))"

definition block_switch_int ::
  "('n, 'p, 't) netcrab \<Rightarrow> 'p basic_block \<Rightarrow> 'p basic_block \<Rightarrow> nat \<Rightarrow> 'n \<Rightarrow> 'n res" where
  "block_switch_int N self target target_index net =
     (let label = switch_int_transition_label (block_function_name self) (block_idx self) target_index
      in and_then (connect_places N net (block_place self) (block_place target) label) (\<lambda>(_, net). Inr net))"

definition block_unwind :: "('n, 'p, 't) netcrab \<Rightarrow> 'p basic_block \<Rightarrow> 'p \<Rightarrow> 'n \<Rightarrow> ('t \<times> 'n) res" where
  "block_unwind N self unwind_place net =
     (let label = unwind_transition_label (block_function_name self) (block_idx self)
      in connect_places N net (block_place self) unwind_place label)"

definition block_drop ::
  "('n, 'p, 't) netcrab \<Rightarrow> 'p basic_block \<Rightarrow> 'p basic_block \<Rightarrow> 'n \<Rightarrow> ('t \<times> 'n) res" where
  "block_drop N self target net =
     (let label = drop_transition_label (block_function_name self) (block_idx self)
      in connect_places N net (block_place self) (block_place target) label)"

definition block_drop_cleanup ::
  "('n, 'p, 't) netcrab \<Rightarrow> 'p basic_block \<Rightarrow> 'p basic_block \<Rightarrow> 'n \<Rightarrow> ('t \<times> 'n) res" where
  "block_drop_cleanup N self cleanup net =
     (let label = drop_cleanup_transition_label (block_function_name self) (block_idx self)
      in connect_places N net (block_place self) (block_place cleanup) label)"

definition block_assert :: "('n, 'p, 't) netcrab \<Rightarrow> 'p basic_block \<Rightarrow> 'p basic_block \<Rightarrow> 'n \<Rightarrow> 'n res" where
  "block_assert N self target net =
     (let label = assert_transition_label (block_function_name self) (block_idx self)
      in and_then (connect_places N net (block_place self) (block_place target) label) (\<lambda>(_, net). Inr net))"

definition block_assert_cleanup ::
  "('n, 'p, 't) netcrab \<Rightarrow> 'p basic_block \<Rightarrow> 'p basic_block \<Rightarrow> 'n \<Rightarrow> 'n res" where
  "block_assert_cleanup N self cleanup net =
     (let label = assert_cleanup_transition_label (block_function_name self) (block_idx self)
      in and_then (connect_places N net (block_place self) (block_place cleanup) label) (\<lambda>(_, net). Inr net))"

definition block_unreachable :: "('n, 'p, 't) netcrab \<Rightarrow> 'p basic_block \<Rightarrow> 'p \<Rightarrow> 'n \<Rightarrow> 'n res" where
  "block_unreachable N self end_place net =
     (let label = unreachable_transition_label (block_function_name self) (block_idx self)
      in and_then (connect_places N net (block_place self) end_place label) (\<lambda>(_, net). Inr net))"

section \<open>mir_function.rs\<close>

record 'p mir_function =
  fn_def_id :: def_id
  fn_name :: string
  fn_start_place :: 'p
  fn_end_place :: 'p
  fn_active_block :: "block_index option"
  fn_basic_blocks :: "(block_index, 'p basic_block) hash_map"
  fn_memory :: memory

definition mir_function_new :: "def_id \<Rightarrow> string \<Rightarrow> 'p \<Rightarrow> 'p \<Rightarrow> 'p mir_function" where
  "mir_function_new def_id function_name start_place end_place =
     \<lparr>fn_def_id = def_id, fn_name = function_name, fn_start_place = start_place,
      fn_end_place = end_place, fn_active_block = None, fn_basic_blocks = hm_new,
      fn_memory = memory_default\<rparr>"

definition prepare_start_place_for_next_basic_block :: "'p mir_function \<Rightarrow> 'p option" where
  "prepare_start_place_for_next_basic_block self =
     (if hm_is_empty (fn_basic_blocks self) then Some (fn_start_place self) else None)"

definition get_active_block :: "'p mir_function \<Rightarrow> 'p basic_block res" where
  "get_active_block self =
     and_then (ok_or NoActiveBlock (fn_active_block self)) (\<lambda>active_block_index.
     ok_or InvalidActiveBlock (hm_get (fn_basic_blocks self) active_block_index))"

definition prepare_start_place_for_return_statement :: "'p mir_function \<Rightarrow> 'p res" where
  "prepare_start_place_for_return_statement self =
     (if hm_is_empty (fn_basic_blocks self) then Inr (fn_start_place self)
      else and_then (get_active_block self) (\<lambda>active_block. Inr (block_place active_block)))"

definition add_basic_block ::
  "('n, 'p, 't) netcrab \<Rightarrow> block_index \<Rightarrow> 'p mir_function \<Rightarrow> 'n \<Rightarrow> ('p mir_function \<times> 'n) res" where
  "add_basic_block N block_number self net =
     (let start_place = prepare_start_place_for_next_basic_block self;
          (basic_block, net) = basic_block_new N (fn_name self) block_number start_place net
      in case hm_get (fn_basic_blocks self) block_number of
           Some _ \<Rightarrow> Inl BlockAddedTwice
         | None \<Rightarrow> Inr (self\<lparr>fn_basic_blocks := hm_insert block_number basic_block (fn_basic_blocks self)\<rparr>, net))"

definition add_basic_block_if_absent ::
  "('n, 'p, 't) netcrab \<Rightarrow> block_index \<Rightarrow> 'p mir_function \<Rightarrow> 'n \<Rightarrow> ('p mir_function \<times> 'n) res" where
  "add_basic_block_if_absent N block_number self net =
     (if \<not> hm_contains_key (fn_basic_blocks self) block_number
      then add_basic_block N block_number self net else Inr (self, net))"

definition get_or_add_basic_block ::
  "('n, 'p, 't) netcrab \<Rightarrow> block_index \<Rightarrow> 'p mir_function \<Rightarrow> 'n \<Rightarrow>
   ('p basic_block \<times> 'p mir_function \<times> 'n) res" where
  "get_or_add_basic_block N block_number self net =
     and_then (add_basic_block_if_absent N block_number self net) (\<lambda>(self, net).
     and_then (ok_or BlockNotRetrieved (hm_get (fn_basic_blocks self) block_number)) (\<lambda>basic_block.
     Inr (basic_block, self, net)))"

definition get_pair_active_block_target_block ::
  "('n, 'p, 't) netcrab \<Rightarrow> block_index \<Rightarrow> 'p mir_function \<Rightarrow> 'n \<Rightarrow>
   (('p basic_block \<times> 'p basic_block) \<times> 'p mir_function \<times> 'n) res" where
  "get_pair_active_block_target_block N block_number self net =
     and_then (add_basic_block_if_absent N block_number self net) (\<lambda>(self, net).
     and_then (ok_or BlockNotRetrieved (hm_get (fn_basic_blocks self) block_number)) (\<lambda>target_block.
     and_then (get_active_block self) (\<lambda>active_block.
     Inr ((active_block, target_block), self, net))))"

definition activate_block ::
  "('n, 'p, 't) netcrab \<Rightarrow> block_index \<Rightarrow> 'p mir_function \<Rightarrow> 'n \<Rightarrow> ('p mir_function \<times> 'n) res" where
  "activate_block N block self net =
     and_then (add_basic_block_if_absent N block self net) (\<lambda>(self, net).
     Inr (self\<lparr>fn_active_block := Some block\<rparr>, net))"

definition get_start_place_for_function_call :: "'p mir_function \<Rightarrow> 'p res" where
  "get_start_place_for_function_call self =
     and_then (get_active_block self) (\<lambda>active_block. Inr (block_place active_block))"

definition get_end_place_for_function_call ::
  "('n, 'p, 't) netcrab \<Rightarrow> block_index \<Rightarrow> 'p mir_function \<Rightarrow> 'n \<Rightarrow> ('p \<times> 'p mir_function \<times> 'n) res" where
  "get_end_place_for_function_call N block_number self net =
     and_then (get_or_add_basic_block N block_number self net) (\<lambda>(return_block, self, net).
     Inr (block_place return_block, self, net))"

section \<open>terminator.rs\<close>

definition goto ::
  "('n, 'p, 't) netcrab \<Rightarrow> block_index \<Rightarrow> 'p mir_function \<Rightarrow> 'n \<Rightarrow> ('p mir_function \<times> 'n) res" where
  "goto N target self net =
     and_then (get_pair_active_block_target_block N target self net) (\<lambda>((active_block, target_block), self, net).
     and_then (block_goto N active_block target_block net) (\<lambda>net.
     Inr (self, net)))"

definition switch_int_to ::
  "('n, 'p, 't) netcrab \<Rightarrow> block_index \<Rightarrow> 'p mir_function \<times> 'n \<Rightarrow> ('p mir_function \<times> 'n) res" where
  "switch_int_to N basic_block = (\<lambda>(self, net).
     and_then (get_pair_active_block_target_block N basic_block self net) (\<lambda>((active_block, target_block), self, net).
     and_then (block_switch_int N active_block target_block basic_block net) (\<lambda>net.
     Inr (self, net))))"

definition switch_int ::
  "('n, 'p, 't) netcrab \<Rightarrow> block_index list \<Rightarrow> 'p mir_function \<Rightarrow> 'n \<Rightarrow> ('p mir_function \<times> 'n) res" where
  "switch_int N targets self net = try_fold (switch_int_to N) targets (self, net)"

definition unwind :: "('n, 'p, 't) netcrab \<Rightarrow> 'p \<Rightarrow> 'p mir_function \<Rightarrow> 'n \<Rightarrow> ('t \<times> 'n) res" where
  "unwind N unwind_place self net =
     and_then (get_active_block self) (\<lambda>active_block. block_unwind N active_block unwind_place net)"

definition drop_terminator ::
  "('n, 'p, 't) netcrab \<Rightarrow> block_index \<Rightarrow> block_index option \<Rightarrow> 'p mir_function \<Rightarrow> 'n \<Rightarrow>
   (('t \<times> 't option) \<times> 'p mir_function \<times> 'n) res" where
  "drop_terminator N target cleanup self net =
     and_then (get_pair_active_block_target_block N target self net) (\<lambda>((active_block, target_block), self, net).
     and_then (block_drop N active_block target_block net) (\<lambda>(drop_transition, net).
     case cleanup of
       None \<Rightarrow> Inr ((drop_transition, None), self, net)
     | Some cleanup \<Rightarrow>
         and_then (get_pair_active_block_target_block N cleanup self net) (\<lambda>((active_block, cleanup_block), self, net).
         and_then (block_drop_cleanup N active_block cleanup_block net) (\<lambda>(cleanup_transition, net).
         Inr ((drop_transition, Some cleanup_transition), self, net)))))"

definition assert_terminator ::
  "('n, 'p, 't) netcrab \<Rightarrow> block_index \<Rightarrow> block_index option \<Rightarrow> 'p mir_function \<Rightarrow> 'n \<Rightarrow>
   ('p mir_function \<times> 'n) res" where
  "assert_terminator N target cleanup self net =
     and_then (get_pair_active_block_target_block N target self net) (\<lambda>((active_block, target_block), self, net).
     and_then (block_assert N active_block target_block net) (\<lambda>net.
     case cleanup of
       None \<Rightarrow> Inr (self, net)
     | Some cleanup \<Rightarrow>
         and_then (get_pair_active_block_target_block N cleanup self net) (\<lambda>((active_block, cleanup_block), self, net).
         and_then (block_assert_cleanup N active_block cleanup_block net) (\<lambda>net.
         Inr (self, net)))))"

definition return_statement :: "('n, 'p, 't) netcrab \<Rightarrow> 'p mir_function \<Rightarrow> 'n \<Rightarrow> 'n res" where
  "return_statement N self net =
     and_then (prepare_start_place_for_return_statement self) (\<lambda>start_place.
     let label = return_transition_label (fn_name self)
     in and_then (connect_places N net start_place (fn_end_place self) label) (\<lambda>(_, net). Inr net))"

definition unreachable :: "('n, 'p, 't) netcrab \<Rightarrow> 'p \<Rightarrow> 'p mir_function \<Rightarrow> 'n \<Rightarrow> 'n res" where
  "unreachable N end_place self net =
     and_then (get_active_block self) (\<lambda>active_block. block_unreachable N active_block end_place net)"

section \<open>The frame invariant\<close>

text \<open>
  The places of a frame belong to the net (\<open>P\<close> is the set of its places), and the active block,
  once there is one, has been created.
\<close>

definition frame_ok :: "'p set \<Rightarrow> 'p mir_function \<Rightarrow> bool" where
  "frame_ok P f \<longleftrightarrow> fn_start_place f \<in> P \<and> fn_end_place f \<in> P \<and>
     (\<forall>i b. hm_get (fn_basic_blocks f) i = Some b \<longrightarrow> block_place b \<in> P) \<and>
     (\<forall>i. fn_active_block f = Some i \<longrightarrow> hm_get (fn_basic_blocks f) i \<noteq> None)"

text \<open>
  What the terminators leave unchanged: everything but the blocks, and a block that was created
  keeps its place.
\<close>

definition frame_kept :: "'p mir_function \<Rightarrow> 'p mir_function \<Rightarrow> bool" where
  "frame_kept f f' \<longleftrightarrow> (\<exists>blocks. f' = f\<lparr>fn_basic_blocks := blocks\<rparr> \<and>
     (\<forall>i b. hm_get (fn_basic_blocks f) i = Some b \<longrightarrow> hm_get blocks i = Some b))"

lemma frame_kept_refl [simp]: "frame_kept f f"
  unfolding frame_kept_def by (rule exI [of _ "fn_basic_blocks f"]) simp

lemma frame_kept_trans: "frame_kept f g \<Longrightarrow> frame_kept g h \<Longrightarrow> frame_kept f h"
  unfolding frame_kept_def by auto

lemma frame_kept_block: "frame_kept f f' \<Longrightarrow> hm_get (fn_basic_blocks f) i = Some b \<Longrightarrow> hm_get (fn_basic_blocks f') i = Some b"
  unfolding frame_kept_def by auto

lemma frame_kept_insert:
  "hm_get (fn_basic_blocks f) i = None \<Longrightarrow> frame_kept f (f\<lparr>fn_basic_blocks := hm_insert i b (fn_basic_blocks f)\<rparr>)"
  unfolding frame_kept_def by (intro exI conjI, rule refl) auto

lemma frame_kept_simps:
  assumes "frame_kept f f'"
  shows "fn_def_id f' = fn_def_id f" "fn_name f' = fn_name f" "fn_start_place f' = fn_start_place f"
    "fn_end_place f' = fn_end_place f" "fn_active_block f' = fn_active_block f"
    "fn_memory f' = fn_memory f"
  using assms unfolding frame_kept_def by auto

lemma frame_ok_mono: "frame_ok P f \<Longrightarrow> P \<subseteq> Q \<Longrightarrow> frame_ok Q f"
  unfolding frame_ok_def by blast

lemma frame_ok_new [simp]: "frame_ok P (mir_function_new d n s e) \<longleftrightarrow> s \<in> P \<and> e \<in> P"
  by (simp add: frame_ok_def mir_function_new_def)

lemma frame_ok_memory [simp]: "frame_ok P (f\<lparr>fn_memory := m\<rparr>) \<longleftrightarrow> frame_ok P f"
  by (simp add: frame_ok_def)

lemma mir_function_new_simps [simp]:
  "fn_active_block (mir_function_new d n s e) = None"
  "fn_memory (mir_function_new d n s e) = memory_default"
  "fn_def_id (mir_function_new d n s e) = d"
  by (simp_all add: mir_function_new_def)

lemma ensures_get_active_block:
  "frame_ok P f \<Longrightarrow> fn_active_block f \<noteq> None \<Longrightarrow> ensures E (\<lambda>b. block_place b \<in> P) (get_active_block f)"
  by (auto simp: get_active_block_def frame_ok_def)

lemma ensures_start_place_for_function_call:
  "frame_ok P f \<Longrightarrow> fn_active_block f \<noteq> None \<Longrightarrow>
   ensures E (\<lambda>p. p \<in> P) (get_start_place_for_function_call f)"
  unfolding get_start_place_for_function_call_def
  by (auto intro: ensures_mono [OF ensures_get_active_block])

context petri_net
begin

text \<open>The contract of the operations on a frame: the net grows and the frame stays valid.\<close>

definition frame_step :: "'n \<Rightarrow> 'p mir_function \<Rightarrow> 'p mir_function \<times> 'n \<Rightarrow> bool" where
  "frame_step net f = (\<lambda>(f', net').
     grows net net' \<and> frame_ok (places_of net') f' \<and> frame_kept f f')"

lemma frame_ok_grows: "frame_ok (places_of net) f \<Longrightarrow> grows net net' \<Longrightarrow> frame_ok (places_of net') f"
  by (erule frame_ok_mono) (simp add: grows_def)

lemma frame_step_refl: "frame_ok (places_of net) f \<Longrightarrow> frame_step net f (f, net)"
  by (simp add: frame_step_def)

lemma frame_step_trans:
  "frame_step net f (f', net') \<Longrightarrow> frame_step net' f' r \<Longrightarrow> frame_step net f r"
  unfolding frame_step_def by (auto intro: grows_trans frame_kept_trans)

lemma frame_step_grows: "frame_step net f (f', net') \<Longrightarrow> grows net' net'' \<Longrightarrow> frame_step net f (f', net'')"
  unfolding frame_step_def by (auto intro: grows_trans frame_ok_grows)

lemma frame_step_via:
  "frame_step net f (f', net') \<Longrightarrow> frame_step net' f' (f2, net2) \<Longrightarrow> grows net2 net3 \<Longrightarrow>
   frame_step net f (f2, net3)"
  by (blast intro: frame_step_grows frame_step_trans)

lemma frame_step_transition:
  "frame_step net f (f', net') \<Longrightarrow> grows net' net2 \<Longrightarrow> t \<in> transitions_of net \<Longrightarrow> t \<in> transitions_of net2"
  unfolding frame_step_def grows_def by auto

lemma frame_step_net: "frame_ok (places_of net) f \<Longrightarrow> grows net net' \<Longrightarrow> frame_step net f (f, net')"
  by (rule frame_step_grows [OF frame_step_refl])

lemma ensures_add_basic_block_if_absent:
  assumes "frame_ok (places_of net) f"
  shows "ensures E (\<lambda>r. frame_step net f r \<and> hm_get (fn_basic_blocks (fst r)) i \<noteq> None)
    (add_basic_block_if_absent N i f net)"
proof (cases "hm_get (fn_basic_blocks f) i")
  case None
  obtain b net' where b: "basic_block_new N (fn_name f) i (prepare_start_place_for_next_basic_block f) net = (b, net')"
    by fastforce
  have "grows net net' \<and> block_place b \<in> places_of net'"
    using b assms unfolding basic_block_new_def
    by (auto simp: prepare_start_place_for_next_basic_block_def frame_ok_def
        split: option.splits if_splits prod.splits dest: add_place_grows)
  then have "frame_step net f (f\<lparr>fn_basic_blocks := hm_insert i b (fn_basic_blocks f)\<rparr>, net')"
    using assms frame_kept_insert [OF None] by (auto simp: frame_step_def frame_ok_def grows_def)
  with None show ?thesis
    by (simp add: add_basic_block_if_absent_def add_basic_block_def b)
next
  case (Some b)
  then show ?thesis
    by (simp add: add_basic_block_if_absent_def frame_step_refl assms)
qed

lemma ensures_get_pair:
  assumes "frame_ok (places_of net) f" "fn_active_block f \<noteq> None"
  shows "ensures E (\<lambda>((a, b), f', net'). frame_step net f (f', net') \<and>
      block_place a \<in> places_of net' \<and> block_place b \<in> places_of net')
    (get_pair_active_block_target_block N i f net)"
  unfolding get_pair_active_block_target_block_def ensures_bind
proof (rule ensures_mono [OF ensures_add_basic_block_if_absent [OF assms(1), of _ i]], clarsimp)
  fix f' net' b
  assume step: "frame_step net f (f', net')" and b: "hm_get (fn_basic_blocks f') i = Some b"
  then have "frame_ok (places_of net') f'" "fn_active_block f' \<noteq> None" "block_place b \<in> places_of net'"
    using assms(2) by (auto simp: frame_step_def frame_kept_simps frame_ok_def)
  then show "ensures E (\<lambda>a. block_place a \<in> places_of net' \<and> block_place b \<in> places_of net')
    (get_active_block f')"
    by (auto intro: ensures_mono [OF ensures_get_active_block])
qed

lemma ensures_get_end_place:
  assumes "frame_ok (places_of net) f"
  shows "ensures E (\<lambda>(p, f', net'). frame_step net f (f', net') \<and> p \<in> places_of net')
    (get_end_place_for_function_call N i f net)"
  unfolding get_end_place_for_function_call_def get_or_add_basic_block_def ensures_bind
  by (rule ensures_mono [OF ensures_add_basic_block_if_absent [OF assms, of _ i]])
    (auto simp: frame_step_def frame_ok_def)

lemma ensures_activate_block:
  assumes "frame_ok (places_of net) f"
  shows "ensures E (\<lambda>(f', net'). grows net net' \<and> frame_ok (places_of net') f' \<and>
      fn_active_block f' = Some i \<and> fn_memory f' = fn_memory f)
    (activate_block N i f net)"
  unfolding activate_block_def ensures_bind
  by (rule ensures_mono [OF ensures_add_basic_block_if_absent [OF assms, of _ i]])
    (auto simp: frame_step_def frame_ok_def frame_kept_simps)

lemmas block_defs = block_goto_def block_switch_int_def block_unwind_def block_drop_def
  block_drop_cleanup_def block_assert_def block_assert_cleanup_def block_unreachable_def

lemma ensures_goto:
  assumes "frame_ok (places_of net) f" "fn_active_block f \<noteq> None"
  shows "ensures E (frame_step net f) (goto N i f net)"
  unfolding goto_def ensures_bind
  by (rule ensures_mono [OF ensures_get_pair [OF assms]])
    (auto simp: block_defs Let_def intro!: ensures_mono [OF ensures_connect_places];
      blast intro: frame_step_grows)

lemma ensures_switch_int:
  assumes "frame_ok (places_of net) f" "fn_active_block f \<noteq> None"
  shows "ensures E (frame_step net f) (switch_int N targets f net)"
  unfolding switch_int_def
proof (rule ensures_try_fold)
  show "frame_step net f (f, net)" by (rule frame_step_refl [OF assms(1)])
  fix i r assume r: "frame_step net f r"
  obtain f' net' where [simp]: "r = (f', net')" by fastforce
  have ok: "frame_ok (places_of net') f'" "fn_active_block f' \<noteq> None"
    using r assms(2) by (auto simp: frame_step_def frame_kept_simps)
  show "ensures E (frame_step net f) (switch_int_to N i r)"
    unfolding switch_int_to_def \<open>r = (f', net')\<close> prod.case ensures_bind
    by (rule ensures_mono [OF ensures_get_pair [OF ok]])
      (use r in \<open>auto simp: block_defs Let_def intro!: ensures_mono [OF ensures_connect_places]\<close>;
        blast intro: frame_step_via)
qed

lemma ensures_unwind:
  assumes "frame_ok (places_of net) f" "fn_active_block f \<noteq> None" "p \<in> places_of net"
  shows "ensures E (\<lambda>(t, net'). t \<in> transitions_of net' \<and> grows net net') (unwind N p f net)"
  unfolding unwind_def ensures_bind block_defs Let_def
  by (rule ensures_mono [OF ensures_get_active_block [OF assms(1,2)]])
    (auto intro!: ensures_connect_places assms(3))

lemma ensures_unreachable:
  assumes "frame_ok (places_of net) f" "fn_active_block f \<noteq> None" "p \<in> places_of net"
  shows "ensures E (grows net) (unreachable N p f net)"
  unfolding unreachable_def ensures_bind block_defs Let_def
  by (rule ensures_mono [OF ensures_get_active_block [OF assms(1,2)]])
    (auto intro!: ensures_mono [OF ensures_connect_places] assms(3))

lemma ensures_return_statement:
  assumes "frame_ok (places_of net) f" "fn_active_block f \<noteq> None"
  shows "ensures E (grows net) (return_statement N f net)"
proof -
  have "ensures E (\<lambda>p. p \<in> places_of net) (prepare_start_place_for_return_statement f)"
    unfolding prepare_start_place_for_return_statement_def
    using assms by (auto simp: frame_ok_def intro!: ensures_mono [OF ensures_get_active_block [OF assms]])
  then show ?thesis
    unfolding return_statement_def ensures_bind Let_def
    by (rule ensures_mono)
      (use assms in \<open>auto simp: frame_ok_def intro!: ensures_mono [OF ensures_connect_places]\<close>)
qed

lemma ensures_assert_terminator:
  assumes "frame_ok (places_of net) f" "fn_active_block f \<noteq> None"
  shows "ensures E (frame_step net f) (assert_terminator N i c f net)"
proof -
  have "ensures E (frame_step net f)
      (and_then (get_pair_active_block_target_block N c' f' net') (\<lambda>((active_block, cleanup_block), self, net).
         and_then (block_assert_cleanup N active_block cleanup_block net) (\<lambda>net. Inr (self, net))))"
    if "frame_step net f (f', net')" for c' f' net'
  proof -
    have ok: "frame_ok (places_of net') f'" "fn_active_block f' \<noteq> None"
      using that assms(2) by (auto simp: frame_step_def frame_kept_simps)
    show ?thesis unfolding ensures_bind
      by (rule ensures_mono [OF ensures_get_pair [OF ok]])
        (use that in \<open>auto simp: block_defs Let_def intro!: ensures_mono [OF ensures_connect_places]\<close>;
        blast intro: frame_step_via)
  qed
  then show ?thesis
    unfolding assert_terminator_def ensures_bind
    by (intro ensures_mono [OF ensures_get_pair [OF assms]])
      (auto simp: block_defs Let_def split: option.splits
        intro!: ensures_mono [OF ensures_connect_places];
      blast intro: frame_step_grows)
qed

text \<open>The transitions that \<open>drop\<close> returns belong to the net.\<close>

lemma ensures_drop_terminator:
  assumes "frame_ok (places_of net) f" "fn_active_block f \<noteq> None"
  shows "ensures E (\<lambda>((t, c), r). frame_step net f r \<and> t \<in> transitions_of (snd r) \<and>
      set_option c \<subseteq> transitions_of (snd r)) (drop_terminator N i c f net)"
proof -
  have "ensures E (\<lambda>((t, c), r). frame_step net f r \<and> t \<in> transitions_of (snd r) \<and>
      set_option c \<subseteq> transitions_of (snd r))
      (and_then (get_pair_active_block_target_block N c' f' net') (\<lambda>((active_block, cleanup_block), self, net).
         and_then (block_drop_cleanup N active_block cleanup_block net) (\<lambda>(u, net). Inr ((t, Some u), self, net))))"
    if "frame_step net f (f', net')" "t \<in> transitions_of net'" for c' f' net' t
  proof -
    have ok: "frame_ok (places_of net') f'" "fn_active_block f' \<noteq> None"
      using that assms(2) by (auto simp: frame_step_def frame_kept_simps)
    show ?thesis unfolding ensures_bind
      by (rule ensures_mono [OF ensures_get_pair [OF ok]])
        (use that in \<open>auto simp: block_defs Let_def intro!: ensures_mono [OF ensures_connect_places]\<close>;
        blast intro: frame_step_via frame_step_transition)
  qed
  then show ?thesis
    unfolding drop_terminator_def ensures_bind
    by (intro ensures_mono [OF ensures_get_pair [OF assms]])
      (auto simp: block_defs Let_def split: option.splits
        intro!: ensures_mono [OF ensures_connect_places];
      blast intro: frame_step_grows)
qed

end

end
