(* ===== verification/Stack.thy ===== *)
theory Stack
  imports Prelude
begin

text \<open>
  The call stack of the translation, \<open>src/src/data_structures/stack.rs\<close>. A \<open>Stack<T>\<close> wraps a
  vector whose last element is the top. \<open>peek\<close> and \<open>peek_mut\<close> panic on an empty stack; the
  mutable reference \<open>peek_mut\<close> returns is modelled as the top element together with the
  write-back that assigning through the reference performs.

  The locale \<open>lifo\<close> is the contract the translator relies on.
\<close>

record 'a stack =
  stack :: "'a list"

definition stack_new :: "'a stack" where
  "stack_new = \<lparr>stack = []\<rparr>"

definition push :: "'a \<Rightarrow> 'a stack \<Rightarrow> 'a stack" where
  "push item s = s\<lparr>stack := stack s @ [item]\<rparr>"

definition pop :: "'a stack \<Rightarrow> 'a option \<times> 'a stack" where
  "pop s = (case stack s of
      [] \<Rightarrow> (None, s)
    | _ # _ \<Rightarrow> (Some (last (stack s)), s\<lparr>stack := butlast (stack s)\<rparr>))"

definition peek :: "'a stack \<Rightarrow> 'a res" where
  "peek s = (case stack s of
      [] \<Rightarrow> Inl PeekOnEmptyStack
    | _ # _ \<Rightarrow> (let len = length (stack s) in Inr (stack s ! (len - 1))))"

definition peek_mut :: "'a stack \<Rightarrow> ('a \<times> ('a \<Rightarrow> 'a stack)) res" where
  "peek_mut s = (case stack s of
      [] \<Rightarrow> Inl PeekMutOnEmptyStack
    | _ # _ \<Rightarrow> (let len = length (stack s)
                in Inr (stack s ! (len - 1), \<lambda>item. s\<lparr>stack := (stack s)[len - 1 := item]\<rparr>)))"

section \<open>The contract of a stack\<close>

locale lifo =
  fixes new :: "'s"
    and push_on :: "'a \<Rightarrow> 's \<Rightarrow> 's"
    and pop_off :: "'s \<Rightarrow> 'a option \<times> 's"
    and top :: "'s \<Rightarrow> 'a res"
    and top_mut :: "'s \<Rightarrow> ('a \<times> ('a \<Rightarrow> 's)) res"
  assumes stack_cases: "s = new \<or> (\<exists>x s'. s = push_on x s')"
    and pop_new: "pop_off new = (None, new)"
    and pop_push: "pop_off (push_on x s) = (Some x, s)"
    and top_new: "top new = Inl PeekOnEmptyStack"
    and top_push: "top (push_on x s) = Inr x"
    and top_mut_new: "top_mut new = Inl PeekMutOnEmptyStack"
    and top_mut_push: "top_mut (push_on x s) = Inr (x, \<lambda>y. push_on y s)"
begin

lemma push_inject: "push_on x s = push_on y t \<longleftrightarrow> x = y \<and> s = t"
  by (metis pop_push Pair_inject option.inject)

lemma push_not_new: "push_on x s \<noteq> new"
  by (metis pop_new pop_push option.distinct(1) prod.inject)

lemma top_ok_iff: "(\<exists>x. top s = Inr x) \<longleftrightarrow> s \<noteq> new"
  by (metis stack_cases top_new top_push push_not_new sum.distinct(1))

lemma assign_through_top_mut:
  assumes "top_mut s = Inr (x, assign)"
  shows "top s = Inr x \<and> top (assign y) = Inr y \<and> snd (pop_off (assign y)) = snd (pop_off s)"
  using assms stack_cases [of s] by (auto simp: top_mut_new top_mut_push top_push pop_push)

lemma pop_after_pushes:
  "pop_off (foldl (\<lambda>s x. push_on x s) s (xs @ [x])) = (Some x, foldl (\<lambda>s x. push_on x s) s xs)"
  by (simp add: pop_push)

end

lemma case_snoc [simp]: "(case xs @ [x] of [] \<Rightarrow> a | _ # _ \<Rightarrow> b) = b"
  by (cases xs) simp_all

interpretation call_stack: lifo stack_new push pop peek peek_mut
proof
  show "s = stack_new \<or> (\<exists>x s'. s = push x s')" for s :: "'a stack"
  proof (cases "stack s" rule: rev_cases)
    case Nil
    then show ?thesis by (simp add: stack_new_def)
  next
    case (snoc xs x)
    then have "s = push x \<lparr>stack = xs\<rparr>" by (simp add: push_def)
    then show ?thesis by blast
  qed
qed (simp_all add: stack_new_def push_def pop_def peek_def peek_mut_def)

lemmas stack_simps [simp] =
  call_stack.pop_new call_stack.pop_push call_stack.top_new call_stack.top_push
  call_stack.top_mut_new call_stack.top_mut_push call_stack.push_inject
  call_stack.push_not_new call_stack.push_not_new [symmetric]

lemma stack_push [simp]: "stack (push x s) = stack s @ [x]" "stack stack_new = []"
  by (simp_all add: push_def stack_new_def)

lemma set_stack_pop: "set (stack (snd (pop s))) \<subseteq> set (stack s)"
  by (auto simp: pop_def split: list.splits dest: in_set_butlastD)

lemma peek_eq_Inr: "peek s = Inr x \<longleftrightarrow> (\<exists>t. s = push x t)"
  using call_stack.stack_cases [of s] by auto

lemma peek_mut_eq_Inr: "peek_mut s = Inr (x, w) \<longleftrightarrow> (\<exists>t. s = push x t \<and> w = (\<lambda>y. push y t))"
  using call_stack.stack_cases [of s] by auto

section \<open>The stack is a list\<close>

text \<open>
  A use of the stack is a sequence of its operations; the reference is a list with the top at its
  head. \<open>Assign\<close> writes through the reference of \<open>peek_mut\<close>. The result is what the operations
  returned, or the panic of the first one that failed.
\<close>

datatype 'a stack_op = Push 'a | Pop | Peek | Assign 'a

fun stack_answers :: "'a stack_op list \<Rightarrow> 'a stack \<Rightarrow> 'a option list res" where
  "stack_answers [] s = Inr []"
| "stack_answers (Push x # ops) s = stack_answers ops (push x s)"
| "stack_answers (Pop # ops) s =
     (let (x, s) = pop s in and_then (stack_answers ops s) (\<lambda>answers. Inr (x # answers)))"
| "stack_answers (Peek # ops) s =
     and_then (peek s) (\<lambda>x. and_then (stack_answers ops s) (\<lambda>answers. Inr (Some x # answers)))"
| "stack_answers (Assign y # ops) s =
     and_then (peek_mut s) (\<lambda>(x, assign). and_then (stack_answers ops (assign y)) (\<lambda>answers. Inr (Some x # answers)))"

fun list_answers :: "'a stack_op list \<Rightarrow> 'a list \<Rightarrow> 'a option list res" where
  "list_answers [] xs = Inr []"
| "list_answers (Push x # ops) xs = list_answers ops (x # xs)"
| "list_answers (Pop # ops) [] = and_then (list_answers ops []) (\<lambda>answers. Inr (None # answers))"
| "list_answers (Pop # ops) (x # xs) = and_then (list_answers ops xs) (\<lambda>answers. Inr (Some x # answers))"
| "list_answers (Peek # ops) [] = Inl PeekOnEmptyStack"
| "list_answers (Peek # ops) (x # xs) = and_then (list_answers ops (x # xs)) (\<lambda>answers. Inr (Some x # answers))"
| "list_answers (Assign y # ops) [] = Inl PeekMutOnEmptyStack"
| "list_answers (Assign y # ops) (x # xs) = and_then (list_answers ops (y # xs)) (\<lambda>answers. Inr (Some x # answers))"

definition stack_of :: "'a list \<Rightarrow> 'a stack" where
  "stack_of xs = foldr push xs stack_new"

lemma stack_answers_list: "stack_answers ops (stack_of xs) = list_answers ops xs"
proof (induction ops xs rule: list_answers.induct)
  case (2 x ops xs)
  then show ?case by (simp add: stack_of_def)
qed (simp_all add: stack_of_def)

text \<open>
  C35. The vector-backed stack behaves as a list: in every sequence of operations on a new stack, the
  results and the panics are those of a list whose head is the top.
\<close>

theorem stack_is_a_list: "stack_answers ops stack_new = list_answers ops []"
  using stack_answers_list [of ops "[]"] by (simp add: stack_of_def)

end
