(* ===== verification/Hash_Map_Counter.thy ===== *)
theory Hash_Map_Counter
  imports Prelude
begin

text \<open>
  \<open>src/src/data_structures/hash_map_counter.rs\<close>: how many times each function name was seen so
  far. Looking a name up inserts a zero entry for an unknown name, so \<open>get_count\<close> also returns
  the updated counter. A \<open>usize\<close> is a \<open>nat\<close>: a count is the number of calls translated so
  far, which is bounded by the memory that holds the translation.
\<close>

record hash_map_counter =
  counts :: "(string, nat) hash_map"

definition counter_new :: hash_map_counter where
  "counter_new = \<lparr>counts = hm_new\<rparr>"

definition increment :: "string \<Rightarrow> hash_map_counter \<Rightarrow> hash_map_counter" where
  "increment key c = (case hm_get (counts c) key of
      Some count \<Rightarrow> c\<lparr>counts := hm_insert key (count + 1) (counts c)\<rparr>
    | None \<Rightarrow> c\<lparr>counts := hm_insert key 1 (counts c)\<rparr>)"

definition get_count :: "string \<Rightarrow> hash_map_counter \<Rightarrow> nat \<times> hash_map_counter" where
  "get_count key c = (case hm_get (counts c) key of
      Some count \<Rightarrow> (count, c)
    | None \<Rightarrow> (0, c\<lparr>counts := hm_insert key 0 (counts c)\<rparr>))"

section \<open>The contract of a counter\<close>

text \<open>
  The abstract counter is a total function from names to numbers; \<open>count_of\<close> abstracts the
  hash map to it.
\<close>

definition count_of :: "hash_map_counter \<Rightarrow> string \<Rightarrow> nat" where
  "count_of c key = (case hm_get (counts c) key of Some count \<Rightarrow> count | None \<Rightarrow> 0)"

locale occurrence_counter =
  fixes fresh :: "'c"
    and tick :: "'k \<Rightarrow> 'c \<Rightarrow> 'c"
    and read :: "'k \<Rightarrow> 'c \<Rightarrow> nat \<times> 'c"
    and abs :: "'c \<Rightarrow> 'k \<Rightarrow> nat"
  assumes abs_fresh: "abs fresh = (\<lambda>_. 0)"
    and abs_tick: "abs (tick k c) = (abs c)(k := abs c k + 1)"
    and read_value: "fst (read k c) = abs c k"
    and abs_read: "abs (snd (read k c)) = abs c"
begin

lemma abs_ticks: "abs (foldl (\<lambda>c k. tick k c) c ks) k = abs c k + count_list ks k"
  by (induction ks arbitrary: c) (auto simp: abs_tick)

lemma read_after_ticks: "fst (read k (foldl (\<lambda>c k. tick k c) fresh ks)) = count_list ks k"
  by (simp add: read_value abs_ticks abs_fresh)

lemma read_read: "fst (read k (snd (read k' c))) = fst (read k c)"
  by (simp add: read_value abs_read)

lemma read_after_tick: "fst (read k (tick k' c)) = fst (read k c) + (if k = k' then 1 else 0)"
  by (simp add: read_value abs_tick)

end

interpretation function_counter: occurrence_counter counter_new increment get_count count_of
  by unfold_locales
    (auto simp: counter_new_def increment_def get_count_def count_of_def fun_eq_iff
      split: option.splits)

lemmas counter_simps [simp] =
  function_counter.abs_fresh function_counter.abs_tick function_counter.read_value
  function_counter.abs_read

section \<open>The counter counts\<close>

text \<open>
  A use of the counter is a sequence of its operations; the reference remembers all names seen and
  counts them when it is asked.
\<close>

datatype counter_op = Increment string | Get_Count string

fun counter_answers :: "counter_op list \<Rightarrow> hash_map_counter \<Rightarrow> nat list" where
  "counter_answers [] c = []"
| "counter_answers (Increment key # ops) c = counter_answers ops (increment key c)"
| "counter_answers (Get_Count key # ops) c = (let (n, c) = get_count key c in n # counter_answers ops c)"

fun counted_answers :: "counter_op list \<Rightarrow> string list \<Rightarrow> nat list" where
  "counted_answers [] seen = []"
| "counted_answers (Increment key # ops) seen = counted_answers ops (key # seen)"
| "counted_answers (Get_Count key # ops) seen = count_list seen key # counted_answers ops seen"

lemma counter_answers_counted: "count_of c = count_list seen \<Longrightarrow> counter_answers ops c = counted_answers ops seen"
proof (induction ops arbitrary: c seen)
  case (Cons op ops)
  then show ?case
  proof (cases op)
    case (Get_Count key)
    obtain n c' where g: "get_count key c = (n, c')" by fastforce
    then have "n = count_of c key" "count_of c' = count_of c"
      using function_counter.read_value [of key c] function_counter.abs_read [of key c] by auto
    with Cons Get_Count g show ?thesis by simp
  qed (auto simp: fun_eq_iff intro!: Cons.IH)
qed simp


end
