(* ===== verification/Binary_Heap.thy ===== *)
theory Binary_Heap
  imports Prelude "HOL-Library.Multiset"
begin

text \<open>
  \<open>std::collections::BinaryHeap\<close>, which holds the postprocessing tasks of the translator. The
  heap is a vector in which the parent of index \<open>i\<close> is \<open>(i - 1) / 2\<close>; \<open>push\<close> appends and sifts
  up, \<open>pop\<close> moves the last element to the root, sifts it down to the bottom and then up, as the
  standard library does. Elements are compared by a key, here the priority of a task: elements
  with equal keys are interchangeable for the comparison, but not equal.

  The locale \<open>max_queue\<close> states what the translator relies on: \<open>pop\<close> removes an element with a
  greatest key.
\<close>

type_synonym 'a binary_heap = "'a list"

definition swap :: "nat \<Rightarrow> nat \<Rightarrow> 'a list \<Rightarrow> 'a list" where
  "swap i j xs = xs[i := xs ! j, j := xs ! i]"

function sift_up :: "('a \<Rightarrow> 'k::linorder) \<Rightarrow> 'a list \<Rightarrow> nat \<Rightarrow> 'a list" where
  "sift_up key xs pos =
     (if pos = 0 then xs
      else let parent = (pos - 1) div 2
           in if key (xs ! pos) \<le> key (xs ! parent) then xs
              else sift_up key (swap pos parent xs) parent)"
  by pat_completeness auto
termination
  by (relation "measure (\<lambda>(key, xs, pos). pos)") auto

function sift_down :: "('a \<Rightarrow> 'k::linorder) \<Rightarrow> 'a list \<Rightarrow> nat \<Rightarrow> 'a list \<times> nat" where
  "sift_down key xs pos =
     (let child = 2 * pos + 1
      in if child + 1 < length xs
         then let child = (if key (xs ! child) \<le> key (xs ! (child + 1)) then child + 1 else child)
              in sift_down key (swap pos child xs) child
         else if child + 1 = length xs then (swap pos child xs, child)
         else (xs, pos))"
  by pat_completeness auto
termination
  by (relation "measure (\<lambda>(key, xs, pos). length xs - pos)") (auto simp: swap_def)

declare sift_up.simps [simp del] sift_down.simps [simp del]

definition heap_new :: "'a binary_heap" where
  "heap_new = []"

definition heap_push :: "('a \<Rightarrow> 'k::linorder) \<Rightarrow> 'a \<Rightarrow> 'a binary_heap \<Rightarrow> 'a binary_heap" where
  "heap_push key item data = sift_up key (data @ [item]) (length data)"

definition heap_pop :: "('a \<Rightarrow> 'k::linorder) \<Rightarrow> 'a binary_heap \<Rightarrow> ('a \<times> 'a binary_heap) option" where
  "heap_pop key data = (case data of
      [] \<Rightarrow> None
    | _ # _ \<Rightarrow>
        (let item = last data; data = butlast data
         in case data of
              [] \<Rightarrow> Some (item, [])
            | root # _ \<Rightarrow> (let (data, pos) = sift_down key (data[0 := item]) 0
                         in Some (root, sift_up key data pos))))"

section \<open>Permutation\<close>

lemma length_swap [simp]: "length (swap i j xs) = length xs"
  by (simp add: swap_def)

lemma mset_swap_id: "i < length xs \<Longrightarrow> j < length xs \<Longrightarrow> mset (swap i j xs) = mset xs"
  unfolding swap_def by (rule mset_swap)

lemma nth_swap: "i < length xs \<Longrightarrow> j < length xs \<Longrightarrow> k < length xs \<Longrightarrow>
    swap i j xs ! k = (if k = j then xs ! i else if k = i then xs ! j else xs ! k)"
  by (auto simp: swap_def nth_list_update)

lemma mset_sift_up: "pos < length xs \<Longrightarrow> mset (sift_up key xs pos) = mset xs"
proof (induction key xs pos rule: sift_up.induct)
  case (1 key xs pos)
  have "(pos - 1) div 2 < length xs" using "1.prems" by linarith
  with 1 show ?case
    by (subst sift_up.simps) (simp add: Let_def mset_swap_id)
qed

lemma sift_down_mset_bound:
  "pos < length xs \<Longrightarrow> mset (fst (sift_down key xs pos)) = mset xs \<and> snd (sift_down key xs pos) < length xs"
proof (induction key xs pos rule: sift_down.induct)
  case (1 key xs pos)
  then show ?case
    by (subst (1 2) sift_down.simps) (auto simp add: Let_def mset_swap_id)
qed

lemma length_sift_up: "pos < length xs \<Longrightarrow> length (sift_up key xs pos) = length xs"
  by (metis mset_sift_up size_mset)

lemma mset_heap_push: "mset (heap_push key x xs) = add_mset x (mset xs)"
  by (simp add: heap_push_def mset_sift_up)

lemma heap_pop_None_iff: "heap_pop key xs = None \<longleftrightarrow> xs = []"
  by (auto simp: heap_pop_def Let_def split: list.splits prod.splits)

lemma heap_pop_simps:
  "heap_pop key [x] = Some (x, [])"
  "heap_pop key (x # zs @ [item]) =
     Some (x, sift_up key (fst (sift_down key (item # zs) 0)) (snd (sift_down key (item # zs) 0)))"
  by (simp_all add: heap_pop_def Let_def butlast_append split: prod.splits)

lemma heap_pop_cases:
  assumes "heap_pop key xs = Some (x, xs')"
  obtains "xs = [x]" "xs' = []"
  | zs item where "xs = x # zs @ [item]"
      "xs' = sift_up key (fst (sift_down key (item # zs) 0)) (snd (sift_down key (item # zs) 0))"
proof (cases xs rule: rev_cases)
  case Nil
  with assms show ?thesis by (simp add: heap_pop_def)
next
  case (snoc ys y)
  with assms that show ?thesis by (cases ys) (simp_all add: heap_pop_simps)
qed

lemma mset_heap_pop:
  assumes "heap_pop key xs = Some (x, xs')"
  shows "mset xs = add_mset x (mset xs')"
  using assms
proof (cases rule: heap_pop_cases)
  case (2 zs item)
  let ?r = "sift_down key (item # zs) 0"
  have "mset (fst ?r) = mset (item # zs)" "snd ?r < length (item # zs)"
    using sift_down_mset_bound [of 0 "item # zs" key] by auto
  moreover from this(1) have "length (fst ?r) = length (item # zs)"
    by (metis size_mset)
  ultimately show ?thesis using 2 by (simp add: mset_sift_up)
qed simp

section \<open>The heap property\<close>

definition heap_ordered :: "('a \<Rightarrow> 'k::linorder) \<Rightarrow> 'a binary_heap \<Rightarrow> bool" where
  "heap_ordered key xs \<longleftrightarrow> (\<forall>i. 0 < i \<and> i < length xs \<longrightarrow> key (xs ! i) \<le> key (xs ! ((i - 1) div 2)))"

text \<open>
  While an element is sifted, the order may be broken at its position only: towards its parent
  (\<open>up_ordered\<close>) or towards its parent and its children (\<open>hole_ordered\<close>). In both cases its
  children are in order with its parent.
\<close>

definition bridged :: "('a \<Rightarrow> 'k::linorder) \<Rightarrow> 'a list \<Rightarrow> nat \<Rightarrow> bool" where
  "bridged key xs pos \<longleftrightarrow> (\<forall>i. 0 < pos \<and> 0 < i \<and> i < length xs \<and> (i - 1) div 2 = pos \<longrightarrow>
     key (xs ! i) \<le> key (xs ! ((pos - 1) div 2)))"

definition up_ordered :: "('a \<Rightarrow> 'k::linorder) \<Rightarrow> 'a list \<Rightarrow> nat \<Rightarrow> bool" where
  "up_ordered key xs pos \<longleftrightarrow> bridged key xs pos \<and>
     (\<forall>i. 0 < i \<and> i < length xs \<and> i \<noteq> pos \<longrightarrow> key (xs ! i) \<le> key (xs ! ((i - 1) div 2)))"

definition hole_ordered :: "('a \<Rightarrow> 'k::linorder) \<Rightarrow> 'a list \<Rightarrow> nat \<Rightarrow> bool" where
  "hole_ordered key xs pos \<longleftrightarrow> bridged key xs pos \<and>
     (\<forall>i. 0 < i \<and> i < length xs \<and> i \<noteq> pos \<and> (i - 1) div 2 \<noteq> pos \<longrightarrow>
        key (xs ! i) \<le> key (xs ! ((i - 1) div 2)))"

lemma up_ordered_swap:
  assumes "up_ordered key xs pos" "0 < pos" "pos < length xs" "key (xs ! ((pos - 1) div 2)) < key (xs ! pos)"
  shows "up_ordered key (swap pos ((pos - 1) div 2) xs) ((pos - 1) div 2)"
proof -
  let ?p = "(pos - 1) div 2" and ?ys = "swap pos ((pos - 1) div 2) xs"
  have p: "?p < pos" "?p < length xs" using assms(2,3) by linarith+
  have nth: "?ys ! k = (if k = ?p then xs ! pos else if k = pos then xs ! ?p else xs ! k)"
    if "k < length xs" for k
    using nth_swap [of pos xs ?p k] assms(3) p(2) that by simp
  have ord: "key (xs ! i) \<le> key (xs ! ((i - 1) div 2))" if "0 < i" "i < length xs" "i \<noteq> pos" for i
    using assms(1) that by (simp add: up_ordered_def)
  have bridge: "key (xs ! i) \<le> key (xs ! ?p)" if "0 < i" "i < length xs" "(i - 1) div 2 = pos" for i
    using assms(1,2) that by (simp add: up_ordered_def bridged_def)
  have "key (?ys ! i) \<le> key (?ys ! ((i - 1) div 2))" if i: "0 < i" "i < length xs" "i \<noteq> ?p" for i
  proof -
    have "(i - 1) div 2 < length xs" using i by linarith
    with i nth show ?thesis
      using ord [of i] bridge [of i] assms(4) by (auto simp: not_less split: if_splits)
  qed
  moreover have "bridged key ?ys ?p"
    unfolding bridged_def
  proof (intro allI impI, elim conjE)
    fix i assume i: "0 < ?p" "0 < i" "i < length ?ys" "(i - 1) div 2 = ?p"
    then have "(?p - 1) div 2 < ?p" "i \<noteq> ?p" by linarith+
    then show "key (?ys ! i) \<le> key (?ys ! ((?p - 1) div 2))"
      using ord [of i] ord [of ?p] i p assms(4) nth [of i] nth [of "(?p - 1) div 2"] by auto
  qed
  ultimately show ?thesis by (simp add: up_ordered_def)
qed

lemma sift_up_ordered: "up_ordered key xs pos \<Longrightarrow> pos < length xs \<Longrightarrow> heap_ordered key (sift_up key xs pos)"
proof (induction key xs pos rule: sift_up.induct)
  case (1 key xs pos)
  show ?case
  proof (cases "pos = 0 \<or> key (xs ! pos) \<le> key (xs ! ((pos - 1) div 2))")
    case True
    then have "sift_up key xs pos = xs"
      by (subst sift_up.simps) (auto simp: Let_def)
    with True "1.prems" show ?thesis by (auto simp: up_ordered_def heap_ordered_def)
  next
    case False
    then have "up_ordered key (swap pos ((pos - 1) div 2) xs) ((pos - 1) div 2)"
      using "1.prems" by (intro up_ordered_swap) auto
    moreover have "(pos - 1) div 2 < length xs" using "1.prems" by linarith
    moreover have "sift_up key xs pos = sift_up key (swap pos ((pos - 1) div 2) xs) ((pos - 1) div 2)"
      using False by (subst sift_up.simps) (auto simp: Let_def)
    ultimately show ?thesis using "1.IH" False by simp
  qed
qed

lemma hole_ordered_swap:
  assumes "hole_ordered key xs pos" "child < length xs" "child = 2 * pos + 1 \<or> child = 2 * pos + 2"
    and sibling: "\<And>i. i < length xs \<Longrightarrow> 0 < i \<Longrightarrow> (i - 1) div 2 = pos \<Longrightarrow> key (xs ! i) \<le> key (xs ! child)"
  shows "hole_ordered key (swap pos child xs) child"
proof -
  let ?ys = "swap pos child xs"
  have parent: "(child - 1) div 2 = pos" "pos < child" "pos < length xs"
    using assms(2,3) by auto
  have nth: "?ys ! k = (if k = child then xs ! pos else if k = pos then xs ! child else xs ! k)"
    if "k < length xs" for k
    using nth_swap [of pos xs child k] assms(2) parent that by simp
  have ord: "key (xs ! i) \<le> key (xs ! ((i - 1) div 2))"
    if "0 < i" "i < length xs" "i \<noteq> pos" "(i - 1) div 2 \<noteq> pos" for i
    using assms(1) that by (simp add: hole_ordered_def)
  have bridge: "key (xs ! child) \<le> key (xs ! ((pos - 1) div 2))" if "0 < pos"
    using assms(1,2) that parent by (auto simp: hole_ordered_def bridged_def)
  have "key (?ys ! i) \<le> key (?ys ! ((i - 1) div 2))"
    if i: "0 < i" "i < length xs" "i \<noteq> child" "(i - 1) div 2 \<noteq> child" for i
  proof -
    have "(i - 1) div 2 < length xs" using i by linarith
    then show ?thesis
      using i nth ord [of i] bridge sibling [of i] by (auto split: if_splits)
  qed
  moreover have "bridged key ?ys child"
    unfolding bridged_def
  proof (intro allI impI, elim conjE)
    fix i assume i: "0 < child" "0 < i" "i < length ?ys" "(i - 1) div 2 = child"
    then have "i \<noteq> child" "i \<noteq> pos" using parent by linarith+
    then show "key (?ys ! i) \<le> key (?ys ! ((child - 1) div 2))"
      using ord [of i] i parent nth [of i] nth [of pos] by auto
  qed
  ultimately show ?thesis by (simp add: hole_ordered_def)
qed

lemma sift_down_ordered:
  assumes "hole_ordered key xs pos" "pos < length xs"
  shows "up_ordered key (fst (sift_down key xs pos)) (snd (sift_down key xs pos))"
  using assms
proof (induction key xs pos rule: sift_down.induct)
  case (1 key xs pos)
  let ?c = "2 * pos + 1"
  have children: "i = ?c \<or> i = ?c + 1" if "0 < i" "(i - 1) div 2 = pos" for i :: nat
    using that by linarith
  consider (two) "?c + 1 < length xs" | (one) "?c + 1 = length xs" | (none) "length xs \<le> ?c" by linarith
  then show ?case
  proof cases
    case two
    define child where "child = (if key (xs ! ?c) \<le> key (xs ! (?c + 1)) then ?c + 1 else ?c)"
    have hole: "hole_ordered key (swap pos child xs) child"
      using "1.prems" two children
      by (intro hole_ordered_swap) (auto simp: child_def dest!: children split: if_splits)
    have "sift_down key xs pos = sift_down key (swap pos child xs) child"
      using two by (subst sift_down.simps) (simp add: Let_def child_def)
    moreover have "child < length xs" using two by (simp add: child_def)
    ultimately show ?thesis
      using "1.IH" [OF refl two child_def hole] by simp
  next
    case one
    have "hole_ordered key (swap pos ?c xs) ?c"
      using "1.prems" one by (intro hole_ordered_swap) (auto dest!: children)
    then have "up_ordered key (swap pos ?c xs) ?c"
      using one by (auto simp: hole_ordered_def up_ordered_def)
    then show ?thesis using one by (subst (1 2) sift_down.simps) (simp add: Let_def)
  next
    case none
    then have "up_ordered key xs pos"
      using "1.prems" children by (fastforce simp: hole_ordered_def up_ordered_def)
    then show ?thesis using none by (subst (1 2) sift_down.simps) (simp add: Let_def)
  qed
qed

lemma heap_ordered_push: "heap_ordered key xs \<Longrightarrow> heap_ordered key (heap_push key x xs)"
proof -
  assume h: "heap_ordered key xs"
  have "up_ordered key (xs @ [x]) (length xs)"
    unfolding up_ordered_def bridged_def
  proof (intro conjI allI impI; elim conjE)
    fix i assume "0 < i" "i < length (xs @ [x])" "i \<noteq> length xs"
    moreover from this have "(i - 1) div 2 < length xs" by simp
    ultimately show "key ((xs @ [x]) ! i) \<le> key ((xs @ [x]) ! ((i - 1) div 2))"
      using h by (simp add: heap_ordered_def nth_append)
  qed simp
  then show ?thesis unfolding heap_push_def by (rule sift_up_ordered) simp
qed

lemma heap_ordered_root:
  assumes "heap_ordered key xs" "i < length xs"
  shows "key (xs ! i) \<le> key (xs ! 0)"
  using assms(2)
proof (induction i rule: less_induct)
  case (less i)
  show ?case
  proof (cases "i = 0")
    case False
    then have "key (xs ! i) \<le> key (xs ! ((i - 1) div 2))"
      using assms(1) less.prems by (simp add: heap_ordered_def)
    also have "\<dots> \<le> key (xs ! 0)"
      using False less.prems by (intro less.IH) linarith+
    finally show ?thesis .
  qed simp
qed

lemma heap_ordered_pop:
  assumes "heap_ordered key xs" "heap_pop key xs = Some (x, xs')"
  shows "heap_ordered key xs'"
  using assms(2)
proof (cases rule: heap_pop_cases)
  case 1
  then show ?thesis by (simp add: heap_ordered_def)
next
  case (2 zs item)
  let ?r = "sift_down key (item # zs) 0"
  have "hole_ordered key (item # zs) 0"
    unfolding hole_ordered_def bridged_def
  proof (intro conjI allI impI; elim conjE)
    fix i assume i: "0 < i" "i < length (item # zs)" "(i - 1) div 2 \<noteq> 0"
    have eq: "xs ! k = (item # zs) ! k" if "0 < k" "k < length (item # zs)" for k
      using 2 that by (auto simp: nth_append nth_Cons split: nat.splits)
    have "i < length xs" using i 2 by simp
    with i assms(1) have "key (xs ! i) \<le> key (xs ! ((i - 1) div 2))"
      unfolding heap_ordered_def by blast
    with i eq [of i] eq [of "(i - 1) div 2"]
    show "key ((item # zs) ! i) \<le> key ((item # zs) ! ((i - 1) div 2))" by auto
  qed simp
  then have "up_ordered key (fst ?r) (snd ?r)" by (rule sift_down_ordered) simp
  moreover have "snd ?r < length (fst ?r)"
    using sift_down_mset_bound [of 0 "item # zs" key] by (metis length_greater_0_conv list.distinct(1) size_mset)
  ultimately show ?thesis using 2 by (simp add: sift_up_ordered)
qed

lemma heap_pop_max:
  assumes "heap_ordered key xs" "heap_pop key xs = Some (x, xs')" "y \<in># mset xs"
  shows "key y \<le> key x"
proof -
  have "xs ! 0 = x" using assms(2) by (cases rule: heap_pop_cases) simp_all
  moreover obtain i where "i < length xs" "y = xs ! i"
    using assms(3) by (auto simp: in_set_conv_nth)
  ultimately show ?thesis using heap_ordered_root [OF assms(1)] by blast
qed

section \<open>The contract of a priority queue\<close>

locale max_queue =
  fixes new :: "'q"
    and insert_item :: "'a \<Rightarrow> 'q \<Rightarrow> 'q"
    and take_max :: "'q \<Rightarrow> ('a \<times> 'q) option"
    and key :: "'a \<Rightarrow> 'k::linorder"
    and contents :: "'q \<Rightarrow> 'a multiset"
    and invar :: "'q \<Rightarrow> bool"
  assumes invar_new: "invar new"
    and contents_new: "contents new = {#}"
    and invar_insert: "invar q \<Longrightarrow> invar (insert_item x q)"
    and contents_insert: "contents (insert_item x q) = add_mset x (contents q)"
    and take_max_None: "take_max q = None \<longleftrightarrow> contents q = {#}"
    and invar_take: "invar q \<Longrightarrow> take_max q = Some (x, q') \<Longrightarrow> invar q'"
    and contents_take: "take_max q = Some (x, q') \<Longrightarrow> contents q = add_mset x (contents q')"
    and take_greatest: "invar q \<Longrightarrow> take_max q = Some (x, q') \<Longrightarrow> y \<in># contents q \<Longrightarrow> key y \<le> key x"
begin

text \<open>\<open>drains q xs\<close>: repeatedly removing an element until none is left gives \<open>xs\<close> in this order.\<close>

inductive drains :: "'q \<Rightarrow> 'a list \<Rightarrow> bool" where
  drained: "take_max q = None \<Longrightarrow> drains q []"
| drain_next: "take_max q = Some (x, q') \<Longrightarrow> drains q' xs \<Longrightarrow> drains q (x # xs)"

lemma drains_contents: "drains q xs \<Longrightarrow> mset xs = contents q"
  by (induction rule: drains.induct) (auto simp: take_max_None contents_take)

lemma drains_sorted: "drains q xs \<Longrightarrow> invar q \<Longrightarrow> sorted_wrt (\<lambda>x y. key y \<le> key x) xs"
proof (induction rule: drains.induct)
  case (drain_next q x q' xs)
  have "key y \<le> key x" if "y \<in> set xs" for y
    using that drain_next drains_contents [OF drain_next.hyps(2)] contents_take [OF drain_next.hyps(1)]
    by (intro take_greatest [OF drain_next.prems drain_next.hyps(1)]) (metis in_diffD add_mset_remove_trivial set_mset_mset)
  with drain_next show ?case by (auto intro: invar_take)
qed simp

lemma drains_exists: "\<exists>xs. drains q xs"
proof (induction "size (contents q)" arbitrary: q rule: less_induct)
  case less
  show ?case
  proof (cases "take_max q")
    case None
    then show ?thesis by (blast intro: drained)
  next
    case (Some r)
    then obtain x q' where r: "take_max q = Some (x, q')" by (cases r) simp
    then have "size (contents q') < size (contents q)" by (simp add: contents_take)
    then obtain xs where "drains q' xs" using less by blast
    with r show ?thesis by (blast intro: drain_next)
  qed
qed

end

interpretation binary_heap: max_queue heap_new "heap_push key" "heap_pop key" key mset "heap_ordered key"
  for key :: "'a \<Rightarrow> 'k::linorder"
  by unfold_locales
    (auto simp: heap_new_def heap_ordered_def [of _ "[]"] mset_heap_push heap_pop_None_iff mset_heap_pop
      intro: heap_ordered_push heap_ordered_pop heap_pop_max)

lemma length_heap_pop: "heap_pop key xs = Some (x, xs') \<Longrightarrow> length xs' < length xs"
  using mset_heap_pop [of key xs x xs'] by (metis lessI size_add_mset size_mset)

end
