(* ===== verification/Translator.thy ===== *)
theory Translator
  imports Sync Mir_Function Stack Hash_Map_Counter Binary_Heap
begin

text \<open>
  \<open>src/src/translator.rs\<close> and \<open>src/src/translator/mir_visitor.rs\<close>: the translator and its
  implementation of the MIR visitor.

  The state is the struct \<open>Translator\<close> without the typing context, which is the argument \<open>tcx\<close>,
  and with the store of the cells shared through \<open>Rc\<close>. A call to a function with a MIR body makes
  \<open>call_mir_function\<close> translate that body before it returns, so the code recurses through the
  visitor. The definitions of the recursion take the recursive call \<open>translate_top_call_stack\<close> as
  an argument (\<open>rec\<close>), and \<open>translate_top_call_stack\<close> closes the loop with a bound on the depth
  of the recursion. The loop over the threads has a bound on its rounds.
\<close>

record ('n, 'p, 't) translator =
  tr_net :: 'n
  program_start :: 'p
  program_end :: 'p
  program_panic :: 'p
  call_stack :: "'p mir_function stack"
  function_counter :: hash_map_counter
  threads :: "thread_ref list"
  postprocessing :: "('p, 't) postprocessing_task binary_heap"
  cells :: "('p, 't) store"

type_synonym ('n, 'p, 't) step = "('n, 'p, 't) translator \<Rightarrow> ('n, 'p, 't) translator res"

definition translator_new :: "('n, 'p, 't) netcrab \<Rightarrow> ('n, 'p, 't) translator res" where
  "translator_new N =
     (let net = net_new N;
          (program_panic_place, net) = net_add_place N PROGRAM_PANIC net;
          (program_end_place, net) = net_add_place N PROGRAM_END net;
          (program_start_place, net) = net_add_place N PROGRAM_START net
      in and_then (add_token N net program_start_place 1) (\<lambda>net.
         Inr \<lparr>tr_net = net, program_start = program_start_place, program_end = program_end_place,
              program_panic = program_panic_place, call_stack = stack_new,
              function_counter = counter_new, threads = [], postprocessing = heap_new,
              cells = store_new\<rparr>))"

definition get_result :: "('n, 'p, 't) netcrab \<Rightarrow> ('n, 'p, 't) translator \<Rightarrow> 'n \<times> ('n, 'p, 't) translator" where
  "get_result N st = (tr_net st, st\<lparr>tr_net := net_default N\<rparr>)"

definition push_function_to_call_stack ::
  "rustc \<Rightarrow> def_id \<Rightarrow> 'p \<Rightarrow> 'p \<Rightarrow> ('n, 'p, 't) translator \<Rightarrow> ('n, 'p, 't) translator" where
  "push_function_to_call_stack tcx function_def_id start_place end_place st =
     (let function_name = def_path_str tcx function_def_id;
          function = mir_function_new function_def_id function_name start_place end_place
      in st\<lparr>call_stack := push function (call_stack st)\<rparr>)"

section \<open>Calls\<close>

definition is_self_ref_mutex ::
  "rustc \<Rightarrow> string \<Rightarrow> operand list \<Rightarrow> ('n, 'p, 't) translator \<Rightarrow> bool res" where
  "is_self_ref_mutex tcx function_name args st =
     and_then (ok_or (ArgumentNotAPlace function_name) (extract_nth_argument_as_place args 0)) (\<lambda>self_ref.
     and_then (peek (call_stack st)) (\<lambda>function.
     Inr (check_substring_in_place_type self_ref ''std::sync::MutexGuard<'' (fn_def_id function) tcx \<or>
          check_substring_in_place_type self_ref ''std::sync::Mutex<'' (fn_def_id function) tcx)))"

definition call_mir_function ::
  "('n, 'p, 't) netcrab \<Rightarrow> ('n, 'p, 't) step \<Rightarrow> def_id \<Rightarrow> string \<Rightarrow> 'p call_places \<Rightarrow> ('n, 'p, 't) step" where
  "call_mir_function N rec function_def_id function_name places st =
     (let (index, counter) = get_count function_name (function_counter st);
          st = st\<lparr>function_counter := counter\<rparr>
      in and_then (case places of
             WithCleanup_Places start_place end_place cleanup_place \<Rightarrow>
               and_then (connect_places N (tr_net st) start_place cleanup_place
                           (indexed_mir_function_cleanup_label function_name index)) (\<lambda>(_, net).
               Inr (st\<lparr>tr_net := net,
                       call_stack := push (mir_function_new function_def_id
                         (indexed_mir_function_name function_name index) start_place end_place)
                         (call_stack st)\<rparr>))
           | Basic_Places start_place end_place \<Rightarrow>
               Inr (st\<lparr>call_stack := push (mir_function_new function_def_id
                         (indexed_mir_function_name function_name index) start_place end_place)
                         (call_stack st)\<rparr>)) (\<lambda>st.
         rec st))"

definition translator_call_foreign_function ::
  "('n, 'p, 't) netcrab \<Rightarrow> rustc \<Rightarrow> string \<Rightarrow> operand list \<Rightarrow> mir_place \<Rightarrow> 'p call_places \<Rightarrow>
   ('n, 'p, 't) translator \<Rightarrow> ('t call_transitions \<times> ('n, 'p, 't) translator) res" where
  "translator_call_foreign_function N tcx function_name args destination places st =
     (let (index, counter) = get_count function_name (function_counter st);
          st = st\<lparr>function_counter := counter\<rparr>
      in and_then (call_foreign_function N function_name index places (tr_net st)) (\<lambda>(transitions, net).
         and_then (peek_mut (call_stack st)) (\<lambda>(current_function, assign).
         and_then (link_return_value_if_sync_variable args destination (fn_memory current_function)
                     (fn_def_id current_function) tcx) (\<lambda>memory.
         Inr (transitions,
              st\<lparr>tr_net := net, call_stack := assign (current_function\<lparr>fn_memory := memory\<rparr>)\<rparr>)))))"

definition call_mem_drop ::
  "('n, 'p, 't) netcrab \<Rightarrow> rustc \<Rightarrow> string \<Rightarrow> operand list \<Rightarrow> mir_place \<Rightarrow> 'p call_places \<Rightarrow> ('n, 'p, 't) step" where
  "call_mem_drop N tcx function_name args destination places st =
     and_then (translator_call_foreign_function N tcx function_name args destination places st) (\<lambda>(transitions, st).
     and_then (ok_or (ArgumentNotAPlace function_name) (extract_nth_argument_as_place args 0)) (\<lambda>dropped_place.
     and_then (peek_mut (call_stack st)) (\<lambda>(function, _).
     let memory = fn_memory function; net = tr_net st
     in case transitions of
          Basic_Transitions default_t \<Rightarrow>
            and_then (handle_mutex_guard_drop N dropped_place default_t net memory (cells st)) (\<lambda>net.
            Inr (st\<lparr>tr_net := net\<rparr>))
        | WithCleanup_Transitions default_t cleanup_t \<Rightarrow>
            and_then (handle_mutex_guard_drop N dropped_place default_t net memory (cells st)) (\<lambda>net.
            and_then (handle_mutex_guard_drop N dropped_place cleanup_t net memory (cells st)) (\<lambda>net.
            Inr (st\<lparr>tr_net := net\<rparr>))))))"

definition call_deref_mutex ::
  "('n, 'p, 't) netcrab \<Rightarrow> rustc \<Rightarrow> string \<Rightarrow> operand list \<Rightarrow> mir_place \<Rightarrow> 'p call_places \<Rightarrow> ('n, 'p, 't) step" where
  "call_deref_mutex N tcx function_name args destination places st =
     (let places = ignore_cleanup_place places
      in and_then (translator_call_foreign_function N tcx function_name args destination places st) (\<lambda>(transitions, st).
         let transition = get_default transitions
         in if function_name = ''std::ops::DerefMut::deref_mut'' then
              and_then (ok_or (ArgumentNotAPlace function_name) (extract_nth_argument_as_place args 0)) (\<lambda>reference.
              and_then (peek_mut (call_stack st)) (\<lambda>(function, _).
              and_then (get_mutex_guard reference (fn_memory function)) (\<lambda>mutex_guard_ref.
              and_then (add_deref_mut_transition (guard_mutex mutex_guard_ref) transition (cells st)) (\<lambda>s.
              Inr (st\<lparr>cells := s\<rparr>)))))
            else Inr st))"

definition call_unwrap_mutex ::
  "('n, 'p, 't) netcrab \<Rightarrow> rustc \<Rightarrow> string \<Rightarrow> operand list \<Rightarrow> mir_place \<Rightarrow> 'p call_places \<Rightarrow> ('n, 'p, 't) step" where
  "call_unwrap_mutex N tcx function_name args destination places st =
     (let places = ignore_cleanup_place places
      in and_then (translator_call_foreign_function N tcx function_name args destination places st) (\<lambda>(_, st).
         Inr st))"

definition call_thread_spawn ::
  "('n, 'p, 't) netcrab \<Rightarrow> rustc \<Rightarrow> string \<Rightarrow> operand list \<Rightarrow> mir_place \<Rightarrow> 'p call_places \<Rightarrow> ('n, 'p, 't) step" where
  "call_thread_spawn N tcx function_name args destination places st =
     and_then (translator_call_foreign_function N tcx function_name args destination places st) (\<lambda>(transitions, st).
     let transition = get_default transitions
     in and_then (peek_mut (call_stack st)) (\<lambda>(current_function, assign).
        and_then (case args of [] \<Rightarrow> Inl SpawnWithoutFunction | first # _ \<Rightarrow> Inr first) (\<lambda>function_to_be_run.
        and_then (extract_def_id_of_called_function_from_operand function_to_be_run
                    (fn_def_id current_function) tcx) (\<lambda>thread_function_def_id.
        and_then (extract_closure args) (\<lambda>closure.
        let memory = fn_memory current_function
        in and_then (case closure of None \<Rightarrow> Inr [] | Some place \<Rightarrow> copy_aggregate place memory) (\<lambda>aggregate.
           let index = length (threads st);
               thread = thread_new transition thread_function_def_id aggregate index;
               (thread_ref, s) = rc_new_thread thread (cells st);
               memory = link_join_handle destination thread_ref memory
           in Inr (st\<lparr>cells := s,
                      call_stack := assign (current_function\<lparr>fn_memory := memory\<rparr>),
                      threads := threads st @ [thread_ref]\<rparr>)))))))"

definition call_sync_function ::
  "('n, 'p, 't) netcrab \<Rightarrow> string \<Rightarrow> operand list \<Rightarrow> mir_place \<Rightarrow> 'p call_places \<Rightarrow> ('n, 'p, 't) step" where
  "call_sync_function N function_name args destination places st =
     (let (index, counter) = get_count function_name (function_counter st);
          st = st\<lparr>function_counter := counter\<rparr>
      in and_then (peek_mut (call_stack st)) (\<lambda>(current_function, assign).
         and_then (sync_call_function N function_name index args destination places (tr_net st)
                     (fn_memory current_function) (cells st)) (\<lambda>(task, net, memory, s).
         Inr (st\<lparr>tr_net := net, cells := s,
                 call_stack := assign (current_function\<lparr>fn_memory := memory\<rparr>),
                 postprocessing := (case task of
                     Some task \<Rightarrow> heap_push get_priority task (postprocessing st)
                   | None \<Rightarrow> postprocessing st)\<rparr>))))"

definition start_function_call ::
  "('n, 'p, 't) netcrab \<Rightarrow> rustc \<Rightarrow> ('n, 'p, 't) step \<Rightarrow> def_id \<Rightarrow> string \<Rightarrow> operand list \<Rightarrow> mir_place \<Rightarrow>
   'p call_places \<Rightarrow> ('n, 'p, 't) step" where
  "start_function_call N tcx rec function_def_id function_name args destination places st =
     (if function_name = ''std::mem::drop'' then
        call_mem_drop N tcx function_name args destination places st
      else
        and_then (if function_name = ''std::ops::Deref::deref'' \<or> function_name = ''std::ops::DerefMut::deref_mut''
                  then is_self_ref_mutex tcx function_name args st else Inr False) (\<lambda>is_deref_mutex.
        if is_deref_mutex then call_deref_mutex N tcx function_name args destination places st
        else
          and_then (if function_name = ''std::result::Result::<T, E>::unwrap''
                    then is_self_ref_mutex tcx function_name args st else Inr False) (\<lambda>is_unwrap_mutex.
          if is_unwrap_mutex then call_unwrap_mutex N tcx function_name args destination places st
          else if function_name = ''std::thread::spawn'' then
            call_thread_spawn N tcx function_name args destination places st
          else if is_supported_function function_name then
            call_sync_function N function_name args destination places st
          else if is_foreign_function function_def_id function_name tcx then
            and_then (translator_call_foreign_function N tcx function_name args destination places st) (\<lambda>(_, st).
            Inr st)
          else call_mir_function N rec function_def_id function_name places st)))"

text \<open>
  The match of \<open>call_function\<close> on the return block and the unwind action: the places of the call,
  or \<open>None\<close> for the arm that handles a call which neither returns nor unwinds and then returns.
\<close>

definition places_for_call ::
  "('n, 'p, 't) netcrab \<Rightarrow> string \<Rightarrow> 'p \<Rightarrow> block_index option \<Rightarrow> unwind_action \<Rightarrow> 'p \<Rightarrow> 'p \<Rightarrow>
   'p mir_function \<Rightarrow> 'n \<Rightarrow> ('p call_places option \<times> 'p mir_function \<times> 'n) res" where
  "places_for_call N function_name start_place target on_unwind panic_place end_of_program current_function net =
     (case (target, on_unwind) of
        (Some return_block, Continue) \<Rightarrow>
          and_then (get_end_place_for_function_call N return_block current_function net) (\<lambda>(end_place, current_function, net).
          Inr (Some (Basic_Places start_place end_place), current_function, net))
      | (Some return_block, Cleanup cleanup_block) \<Rightarrow>
          and_then (get_end_place_for_function_call N return_block current_function net) (\<lambda>(end_place, current_function, net).
          and_then (get_end_place_for_function_call N cleanup_block current_function net) (\<lambda>(cleanup_place, current_function, net).
          Inr (Some (WithCleanup_Places start_place end_place cleanup_place), current_function, net)))
      | (Some return_block, Terminate) \<Rightarrow>
          and_then (get_end_place_for_function_call N return_block current_function net) (\<lambda>(end_place, current_function, net).
          Inr (Some (WithCleanup_Places start_place end_place panic_place), current_function, net))
      | (None, Terminate) \<Rightarrow>
          Inr (Some (Basic_Places start_place panic_place), current_function, net)
      | (None, Cleanup cleanup_block) \<Rightarrow>
          and_then (get_end_place_for_function_call N cleanup_block current_function net) (\<lambda>(end_place, current_function, net).
          Inr (Some (Basic_Places start_place end_place), current_function, net))
      | (None, Continue) \<Rightarrow>
          and_then (if is_panic_function function_name
                    then call_panic_function N start_place panic_place (fn_name current_function) net
                    else call_diverging_function N start_place function_name net) (\<lambda>net.
          Inr (None, current_function, net))
      | (Some return_block, Unreachable_Unwind) \<Rightarrow>
          and_then (get_end_place_for_function_call N return_block current_function net) (\<lambda>(end_place, current_function, net).
          Inr (Some (WithCleanup_Places start_place end_place end_of_program), current_function, net))
      | (None, Unreachable_Unwind) \<Rightarrow>
          Inr (Some (Basic_Places start_place end_of_program), current_function, net))"

definition call_function ::
  "('n, 'p, 't) netcrab \<Rightarrow> rustc \<Rightarrow> ('n, 'p, 't) step \<Rightarrow> operand \<Rightarrow> operand list \<Rightarrow> mir_place \<Rightarrow>
   block_index option \<Rightarrow> unwind_action \<Rightarrow> ('n, 'p, 't) step" where
  "call_function N tcx rec func args destination target on_unwind st =
     and_then (peek_mut (call_stack st)) (\<lambda>(current_function, assign).
     and_then (extract_def_id_of_called_function_from_operand func (fn_def_id current_function) tcx) (\<lambda>function_def_id.
     let function_name = def_path_str tcx function_def_id
     in and_then (get_start_place_for_function_call current_function) (\<lambda>start_place.
        and_then (places_for_call N function_name start_place target on_unwind (program_panic st)
                    (program_end st) current_function (tr_net st)) (\<lambda>(places, current_function, net).
        let st = st\<lparr>tr_net := net, call_stack := assign current_function\<rparr>
        in case places of
             None \<Rightarrow> Inr st
           | Some places \<Rightarrow>
               and_then (start_function_call N tcx rec function_def_id function_name args destination places st) (\<lambda>st.
               Inr (st\<lparr>function_counter := increment function_name (function_counter st)\<rparr>))))))"

section \<open>The visitor\<close>

definition visit_basic_block_data :: "('n, 'p, 't) netcrab \<Rightarrow> block_index \<Rightarrow> ('n, 'p, 't) step" where
  "visit_basic_block_data N block st =
     and_then (peek_mut (call_stack st)) (\<lambda>(function, assign).
     and_then (activate_block N block function (tr_net st)) (\<lambda>(function, net).
     Inr (st\<lparr>tr_net := net, call_stack := assign function\<rparr>)))"

definition visit_assign :: "rustc \<Rightarrow> mir_place \<Rightarrow> rvalue \<Rightarrow> ('n, 'p, 't) step" where
  "visit_assign tcx place rvalue st =
     (let link = (\<lambda>rhs.
            and_then (peek_mut (call_stack st)) (\<lambda>(function, assign).
            and_then (link_if_sync_variable place rhs (fn_memory function) (fn_def_id function) tcx) (\<lambda>memory.
            Inr (st\<lparr>call_stack := assign (function\<lparr>fn_memory := memory\<rparr>)\<rparr>))))
      in case rvalue of
           Use (Copy rhs) \<Rightarrow> link rhs
         | Use (Move rhs) \<Rightarrow> link rhs
         | Ref rhs \<Rightarrow> link rhs
         | AggregateRvalue operands \<Rightarrow>
             and_then (peek_mut (call_stack st)) (\<lambda>(function, assign).
             and_then (handle_aggregate_assignment place operands (fn_memory function) (fn_def_id function) tcx) (\<lambda>memory.
             Inr (st\<lparr>call_stack := assign (function\<lparr>fn_memory := memory\<rparr>)\<rparr>)))
         | _ \<Rightarrow> Inr st)"

definition visit_drop ::
  "('n, 'p, 't) netcrab \<Rightarrow> mir_place \<Rightarrow> block_index \<Rightarrow> unwind_action \<Rightarrow> 'p mir_function \<Rightarrow>
   ('n, 'p, 't) translator \<Rightarrow> ('p mir_function \<times> 'n) res" where
  "visit_drop N place target on_unwind function st =
     and_then (case on_unwind of
         Cleanup cleanup \<Rightarrow> drop_terminator N target (Some cleanup) function (tr_net st)
       | Continue \<Rightarrow> drop_terminator N target None function (tr_net st)
       | Terminate \<Rightarrow> drop_terminator N target None function (tr_net st)
       | Unreachable_Unwind \<Rightarrow>
           and_then (unreachable N (program_end st) function (tr_net st)) (\<lambda>net.
           drop_terminator N target None function net)) (\<lambda>((transition, cleanup_transition), function, net).
     let memory = fn_memory function
     in and_then (handle_mutex_guard_drop N place transition net memory (cells st)) (\<lambda>net.
        case cleanup_transition of
          None \<Rightarrow> Inr (function, net)
        | Some cleanup_transition \<Rightarrow>
            and_then (handle_mutex_guard_drop N place cleanup_transition net memory (cells st)) (\<lambda>net.
            Inr (function, net))))"

definition visit_assert ::
  "('n, 'p, 't) netcrab \<Rightarrow> block_index \<Rightarrow> unwind_action \<Rightarrow> 'p mir_function \<Rightarrow>
   ('n, 'p, 't) translator \<Rightarrow> ('p mir_function \<times> 'n) res" where
  "visit_assert N target on_unwind function st = (case on_unwind of
       Cleanup cleanup \<Rightarrow> assert_terminator N target (Some cleanup) function (tr_net st)
     | Continue \<Rightarrow> assert_terminator N target None function (tr_net st)
     | Terminate \<Rightarrow> assert_terminator N target None function (tr_net st)
     | Unreachable_Unwind \<Rightarrow>
         and_then (assert_terminator N target None function (tr_net st)) (\<lambda>(function, net).
         and_then (unreachable N (program_end st) function net) (\<lambda>net.
         Inr (function, net))))"

definition visit_terminator ::
  "('n, 'p, 't) netcrab \<Rightarrow> rustc \<Rightarrow> ('n, 'p, 't) step \<Rightarrow> terminator_kind \<Rightarrow> ('n, 'p, 't) step" where
  "visit_terminator N tcx rec terminator st =
     and_then (peek_mut (call_stack st)) (\<lambda>(function, assign).
     let update = (\<lambda>(function, net). Inr (st\<lparr>tr_net := net, call_stack := assign function\<rparr>));
         update_net = (\<lambda>net. Inr (st\<lparr>tr_net := net\<rparr>))
     in case terminator of
          Goto target \<Rightarrow> and_then (goto N target function (tr_net st)) update
        | SwitchInt targets \<Rightarrow> and_then (switch_int N targets function (tr_net st)) update
        | UnwindResume \<Rightarrow> and_then (unwind N (program_panic st) function (tr_net st)) (\<lambda>(_, net). update_net net)
        | UnwindTerminate \<Rightarrow> and_then (unwind N (program_panic st) function (tr_net st)) (\<lambda>(_, net). update_net net)
        | Return \<Rightarrow> and_then (return_statement N function (tr_net st)) update_net
        | Unreachable \<Rightarrow> and_then (unreachable N (program_end st) function (tr_net st)) update_net
        | Drop place target on_unwind \<Rightarrow> and_then (visit_drop N place target on_unwind function st) update
        | Call func args destination target on_unwind \<Rightarrow>
            call_function N tcx rec func args destination target on_unwind st
        | Assert target on_unwind \<Rightarrow> and_then (visit_assert N target on_unwind function st) update
        | Yield \<Rightarrow> Inl (TerminatorNotImplemented ''Yield'')
        | CoroutineDrop \<Rightarrow> Inl (TerminatorNotImplemented ''CoroutineDrop'')
        | FalseEdge \<Rightarrow> Inl (TerminatorNotImplemented ''FalseEdge'')
        | FalseUnwind \<Rightarrow> Inl (TerminatorNotImplemented ''FalseUnwind'')
        | InlineAsm \<Rightarrow> Inl (TerminatorNotImplemented ''InlineAsm'')
        | TailCall \<Rightarrow> Inl (TerminatorNotImplemented ''TailCall''))"

definition visit :: "('n, 'p, 't) netcrab \<Rightarrow> rustc \<Rightarrow> ('n, 'p, 't) step \<Rightarrow> visitor_call \<Rightarrow> ('n, 'p, 't) step" where
  "visit N tcx rec call st = (case call of
      VisitBasicBlockData block \<Rightarrow> visit_basic_block_data N block st
    | VisitAssign place rvalue \<Rightarrow> visit_assign tcx place rvalue st
    | VisitTerminator terminator \<Rightarrow> visit_terminator N tcx rec terminator st)"

section \<open>The translation loops\<close>

fun translate_top_call_stack :: "('n, 'p, 't) netcrab \<Rightarrow> rustc \<Rightarrow> nat \<Rightarrow> ('n, 'p, 't) step" where
  "translate_top_call_stack N tcx 0 st = Inl OutOfFuel"
| "translate_top_call_stack N tcx (Suc depth) st =
     and_then (peek (call_stack st)) (\<lambda>function.
     and_then (try_fold (visit N tcx (translate_top_call_stack N tcx depth))
                 (visit_body tcx (fn_def_id function)) st) (\<lambda>st.
     Inr (st\<lparr>call_stack := snd (pop (call_stack st))\<rparr>)))"

definition translate_thread ::
  "('n, 'p, 't) netcrab \<Rightarrow> rustc \<Rightarrow> nat \<Rightarrow> thread_ref \<Rightarrow> ('n, 'p, 't) step" where
  "translate_thread N tcx depth thread_ref st =
     and_then (deref_cell (thread_cells (cells st)) thread_ref) (\<lambda>thread.
     and_then (prepare_for_translation N thread (tr_net st)) (\<lambda>((thread_function_def_id, thread_start_place, thread_end_place), net).
     let st = st\<lparr>tr_net := net, program_panic := thread_end_place\<rparr>;
         st = push_function_to_call_stack tcx thread_function_def_id thread_start_place thread_end_place st
     in and_then (peek_mut (call_stack st)) (\<lambda>(new_function, assign).
        and_then (move_sync_variables thread (fn_memory new_function) tcx) (\<lambda>memory.
        translate_top_call_stack N tcx depth
          (st\<lparr>call_stack := assign (new_function\<lparr>fn_memory := memory\<rparr>)\<rparr>)))))"

fun translate_threads :: "('n, 'p, 't) netcrab \<Rightarrow> rustc \<Rightarrow> nat \<Rightarrow> nat \<Rightarrow> ('n, 'p, 't) step" where
  "translate_threads N tcx depth 0 st =
     (case threads st of [] \<Rightarrow> Inr st | _ # _ \<Rightarrow> Inl OutOfFuel)"
| "translate_threads N tcx depth (Suc rounds) st =
     (case threads st of
        [] \<Rightarrow> Inr st
      | thread_ref # rest \<Rightarrow>
          and_then (translate_thread N tcx depth thread_ref (st\<lparr>threads := rest\<rparr>))
            (translate_threads N tcx depth rounds))"

definition link_mutex_ref_to_condvar ::
  "('n, 'p, 't) netcrab \<Rightarrow> ('p, 't) store \<Rightarrow> nat \<Rightarrow> 'p \<Rightarrow> 'p \<Rightarrow> 't \<Rightarrow> mutex_ref \<Rightarrow> 'n \<Rightarrow> 'n res" where
  "link_mutex_ref_to_condvar N s index start_place end_place wait_start_t mutex_ref net =
     and_then (deref_cell (mutexes s) mutex_ref) (\<lambda>mutex.
     link_to_condvar N mutex index start_place end_place wait_start_t net)"

function run_tasks ::
  "('n, 'p, 't) netcrab \<Rightarrow> ('p, 't) store \<Rightarrow> mutex_ref list \<Rightarrow> ('p, 't) postprocessing_task binary_heap \<Rightarrow>
   'n \<Rightarrow> 'n res" where
  "run_tasks N s mutex_refs tasks net = (case heap_pop get_priority tasks of
      None \<Rightarrow> Inr net
    | Some (task, tasks) \<Rightarrow> (case task of
          LinkMutexToCondvar _ index start_place end_place wait_start_t \<Rightarrow>
            and_then (try_fold (link_mutex_ref_to_condvar N s index start_place end_place wait_start_t)
                        mutex_refs net) (\<lambda>net.
            run_tasks N s mutex_refs tasks net)
        | NewMutex _ mutex_ref \<Rightarrow> run_tasks N s (mutex_refs @ [mutex_ref]) tasks net))"
  by pat_completeness auto
termination
  by (relation "measure (\<lambda>(N, s, mutex_refs, tasks, net). length tasks)") (auto simp: length_heap_pop)

declare run_tasks.simps [simp del]

definition translation_postprocessing :: "('n, 'p, 't) netcrab \<Rightarrow> ('n, 'p, 't) step" where
  "translation_postprocessing N st =
     and_then (run_tasks N (cells st) [] (postprocessing st) (tr_net st)) (\<lambda>net.
     Inr (st\<lparr>tr_net := net, postprocessing := heap_new\<rparr>))"

definition run :: "('n, 'p, 't) netcrab \<Rightarrow> rustc \<Rightarrow> nat \<Rightarrow> nat \<Rightarrow> ('n, 'p, 't) step" where
  "run N tcx depth rounds st =
     and_then (ok_or NoMainFunction (entry_fn tcx)) (\<lambda>main_function_id.
     and_then (translate_top_call_stack N tcx depth
                 (push_function_to_call_stack tcx main_function_id (program_start st) (program_end st) st)) (\<lambda>st.
     and_then (translate_threads N tcx depth rounds st)
       (translation_postprocessing N)))"

end
