(* ===== verification/Driver.thy ===== *)
theory Driver
  imports Translator
begin

text \<open>
  \<open>src/src/lib.rs\<close>, \<open>src/src/sysroot.rs\<close>, \<open>src/src/compiler_config.rs\<close>,
  \<open>src/src/model_checker/lola.rs\<close> and \<open>src/src/bin/check-deadlock/*.rs\<close>: the command line
  program around the translator.

  What the program reads of its environment is the record \<open>environment\<close>, an argument of the
  definitions: which paths exist, the error of creating a file (\<open>None\<close> if it can be created), what
  the commands \<open>rustc\<close> and \<open>lola\<close> answer, what the compiler makes of a configuration, and how the
  net library writes a net, as the text and the error that stopped the writing. An
  \<open>std::io::Error\<close> is its text. The files the program writes are explicit state, a map from paths
  to contents.
  A path is its string; \<open>Path::push\<close> and \<open>set_extension\<close> are those of a Unix platform.
  The initialisation of the logger and the parsing of the arguments are left out.
\<close>

section \<open>Paths\<close>

type_synonym path = string
type_synonym files = "(path, string) hash_map"

text \<open>\<open>PathBuf::push\<close>: an absolute argument replaces the path.\<close>

definition path_push :: "path \<Rightarrow> path \<Rightarrow> path" where
  "path_push self p =
     (if starts_with p ''/'' then p
      else if self = [] \<or> last self = CHR ''/'' then self @ p
      else self @ ''/'' @ p)"

text \<open>
  Drops the separators and the components \<open>.\<close> at the end of a path, here at the start of the
  reversed path.
\<close>

fun skip_trailing :: "string \<Rightarrow> string" where
  "skip_trailing [] = []"
| "skip_trailing (c # cs) =
     (if c = CHR ''/'' then skip_trailing cs
      else if c = CHR ''.'' \<and> (cs = [] \<or> hd cs = CHR ''/'') then skip_trailing cs
      else c # cs)"

text \<open>
  \<open>PathBuf::set_extension\<close>: the extension of the last component, from its last dot, is replaced
  unless the dot is its first character; a path whose last component is \<open>..\<close>, or that has no
  component, is left unchanged.
\<close>

definition set_extension :: "string \<Rightarrow> path \<Rightarrow> path" where
  "set_extension ext self =
     (let r = skip_trailing (rev self);
          name = rev (takeWhile (\<lambda>c. c \<noteq> CHR ''/'') r);
          folder = rev (dropWhile (\<lambda>c. c \<noteq> CHR ''/'') r);
          front = rev (drop 1 (dropWhile (\<lambda>c. c \<noteq> CHR ''.'') (rev name)));
          file_stem = (if front = [] then name else front)
      in if name = [] \<or> name = ''..'' then self
         else folder @ file_stem @ (if ext = [] then [] else ''.'' @ ext))"

section \<open>The environment\<close>

datatype command_output = CommandNotFound | CommandFailed | CommandStderr "string option"

record rustc_config =
  maybe_sysroot :: "path option"
  config_input :: path

datatype output_format = Pnml | Lola | Dot

record 'n environment =
  path_exists :: "path \<Rightarrow> bool"
  create_error :: "path \<Rightarrow> string option"
  rustc_print_sysroot :: "string option option"
  run_compiler :: "rustc_config \<Rightarrow> rustc option"
  write_net :: "output_format \<Rightarrow> 'n \<Rightarrow> string \<times> string option"
  run_command :: "string \<Rightarrow> string list \<Rightarrow> files \<Rightarrow> command_output"

section \<open>sysroot.rs, compiler_config.rs and lib.rs\<close>

definition is_whitespace :: "char \<Rightarrow> bool" where
  "is_whitespace c \<longleftrightarrow> c \<in> {CHR '' '', CHR 0x09, CHR 0x0A, CHR 0x0B, CHR 0x0C, CHR 0x0D}"

definition trim :: "string \<Rightarrow> string" where
  "trim s = rev (dropWhile is_whitespace (rev (dropWhile is_whitespace s)))"

text \<open>
  \<open>rustc_print_sysroot\<close> is what \<open>rustc --print=sysroot\<close> writes: \<open>None\<close> if the command cannot be
  run, \<open>Some None\<close> if its output is not UTF-8.
\<close>

definition get_from_rustc :: "'n environment \<Rightarrow> string + path" where
  "get_from_rustc env = (case rustc_print_sysroot env of
      None \<Rightarrow> Inl ''Could not run rustc to get the sysroot: Make sure you can run `rustc --print=sysroot` in a terminal''
    | Some None \<Rightarrow> Inl ''Could not parse stdout to get the sysroot: Make sure you can run `rustc --print=sysroot` in a terminal''
    | Some (Some sysroot) \<Rightarrow> Inr (trim sysroot))"

definition prepare_rustc_config :: "path \<Rightarrow> path \<Rightarrow> rustc_config" where
  "prepare_rustc_config sysroot source_code_filepath =
     \<lparr>maybe_sysroot = Some sysroot, config_input = source_code_filepath\<rparr>"

text \<open>
  The outer result is a panic, the inner one the \<open>Result\<close> that \<open>run\<close> returns.
\<close>

definition lib_run ::
  "'n environment \<Rightarrow> ('n, 'p, 't) netcrab \<Rightarrow> nat \<Rightarrow> nat \<Rightarrow> path \<Rightarrow> (string + 'n) res" where
  "lib_run env N depth rounds source_code_filepath =
     (case get_from_rustc env of
        Inl err_str \<Rightarrow> Inr (Inl err_str)
      | Inr sysroot \<Rightarrow>
          (let config = prepare_rustc_config sysroot source_code_filepath
           in and_then (ok_or GlobalContextUnavailable (run_compiler env config)) (\<lambda>tcx.
              and_then (translator_new N) (\<lambda>translator.
              and_then (run N tcx depth rounds translator) (\<lambda>translator.
              Inr (Inr (fst (get_result N translator))))))))"

section \<open>lola.rs\<close>

definition deadlock_formula :: string where
  "deadlock_formula = ''--formula=EF (DEADLOCK AND (PROGRAM_END = 0 AND PROGRAM_PANIC = 0))''"

definition check_deadlock :: "'n environment \<Rightarrow> files \<Rightarrow> path \<Rightarrow> bool res" where
  "check_deadlock env fs net_filepath =
     (let args = [net_filepath, deadlock_formula]
      in and_then (case run_command env ''lola'' args fs of
             CommandStderr stderr \<Rightarrow> Inr stderr
           | CommandNotFound \<Rightarrow>
               (case run_command env ''./assets/lola'' args fs of
                  CommandStderr stderr \<Rightarrow> Inr stderr
                | _ \<Rightarrow> Inl LolaNotFound)
           | CommandFailed \<Rightarrow> Inl LolaUnknownError) (\<lambda>stderr.
         and_then (ok_or LolaNotUtf8 stderr) (\<lambda>stderr_string.
         if contains stderr_string ''result: yes'' then Inr True
         else if contains stderr_string ''result: no'' then Inr False
         else Inl LolaUnknownOutput)))"

section \<open>The command line\<close>

fun output_format_to_string :: "output_format \<Rightarrow> string" where
  "output_format_to_string Dot = ''dot''"
| "output_format_to_string Lola = ''lola''"
| "output_format_to_string Pnml = ''pnml''"

text \<open>The error of \<open>create_output_file\<close>, if any; the file is created before the net is written.\<close>

definition create_output_file ::
  "'n environment \<Rightarrow> output_format \<Rightarrow> 'n \<Rightarrow> string \<Rightarrow> path \<Rightarrow> files \<Rightarrow> string option \<times> files" where
  "create_output_file env self output_net filename output_folder fs =
     (let filepath = set_extension (output_format_to_string self) (path_push output_folder filename)
      in case create_error env filepath of
           Some err \<Rightarrow> (Some err, fs)
         | None \<Rightarrow> (let (text, err) = write_net env self output_net in (err, hm_insert filepath text fs)))"

datatype cargo_result =
    DeadlockAnalysis string
  | SimpleTranslation
  | SourceFileNotFound string
  | OutputFolderNotFound string
  | TranslationError string
  | OutputGenerationError string

record args =
  arg_path :: path
  arg_filename :: string
  arg_output_folder :: path
  arg_dot :: bool
  arg_pnml :: bool
  arg_skip_analysis :: bool

text \<open>The files are returned beside the result, also when the analysis panics.\<close>

definition create_if ::
  "bool \<Rightarrow> 'n environment \<Rightarrow> output_format \<Rightarrow> 'n \<Rightarrow> args \<Rightarrow> files \<Rightarrow> string option \<times> files" where
  "create_if requested env format output_net self fs =
     (if requested then create_output_file env format output_net (arg_filename self) (arg_output_folder self) fs
      else (None, fs))"

definition analyse :: "'n environment \<Rightarrow> args \<Rightarrow> files \<Rightarrow> cargo_result res" where
  "analyse env self fs =
     (if arg_skip_analysis self then Inr SimpleTranslation
      else (let filepath = set_extension (output_format_to_string Lola)
                  (path_push (arg_output_folder self) (arg_filename self))
            in and_then (check_deadlock env fs filepath) (\<lambda>deadlock.
               Inr (DeadlockAnalysis
                 (if deadlock then ''Deadlock can be reached according to the model checker `LoLA`''
                  else ''The program is deadlock-free according to the model checker `LoLA`'')))))"

definition exec ::
  "'n environment \<Rightarrow> ('n, 'p, 't) netcrab \<Rightarrow> nat \<Rightarrow> nat \<Rightarrow> args \<Rightarrow> files \<Rightarrow> cargo_result res \<times> files" where
  "exec env N depth rounds self fs =
     (if \<not> path_exists env (arg_path self) then
        (Inr (SourceFileNotFound (''Source code file at '' @ arg_path self @ '' does not exist'')), fs)
      else if \<not> path_exists env (arg_output_folder self) then
        (Inr (OutputFolderNotFound (''Output folder at '' @ arg_output_folder self @ '' does not exist'')), fs)
      else (case lib_run env N depth rounds (arg_path self) of
          Inl panic \<Rightarrow> (Inl panic, fs)
        | Inr (Inl err_str) \<Rightarrow> (Inr (TranslationError err_str), fs)
        | Inr (Inr output_net) \<Rightarrow>
            (case create_if (arg_dot self) env Dot output_net self fs of
               (Some err_str, fs) \<Rightarrow> (Inr (OutputGenerationError err_str), fs)
             | (None, fs) \<Rightarrow>
            (case create_if (arg_pnml self) env Pnml output_net self fs of
               (Some err_str, fs) \<Rightarrow> (Inr (OutputGenerationError err_str), fs)
             | (None, fs) \<Rightarrow>
            (case create_if True env Lola output_net self fs of
               (Some err_str, fs) \<Rightarrow> (Inr (OutputGenerationError err_str), fs)
             | (None, fs) \<Rightarrow> (analyse env self fs, fs))))))"

datatype command = CheckDeadlock args

definition command_exec ::
  "'n environment \<Rightarrow> ('n, 'p, 't) netcrab \<Rightarrow> nat \<Rightarrow> nat \<Rightarrow> command \<Rightarrow> files \<Rightarrow> cargo_result res \<times> files" where
  "command_exec env N depth rounds self fs = (case self of CheckDeadlock args \<Rightarrow> exec env N depth rounds args fs)"

text \<open>
  \<open>main\<close>, from the parsed command line: the exit code of the process, the lines it writes to the
  standard output and to the standard error, and the files it leaves. A panic ends a Rust process
  with the exit code 101; its message is left out. The result is \<open>None\<close> when the bounds of the
  translation were too small.
\<close>

record process_result =
  exit_code :: nat
  stdout :: "string list"
  stderr :: "string list"
  files_left :: files

definition report :: "cargo_result \<Rightarrow> files \<Rightarrow> process_result" where
  "report result fs = (case result of
      SourceFileNotFound err_str \<Rightarrow> \<lparr>exit_code = 1, stdout = [], stderr = [err_str], files_left = fs\<rparr>
    | OutputFolderNotFound err_str \<Rightarrow> \<lparr>exit_code = 2, stdout = [], stderr = [err_str], files_left = fs\<rparr>
    | TranslationError err_str \<Rightarrow> \<lparr>exit_code = 3, stdout = [], stderr = [err_str], files_left = fs\<rparr>
    | OutputGenerationError err_str \<Rightarrow> \<lparr>exit_code = 4, stdout = [], stderr = [err_str], files_left = fs\<rparr>
    | DeadlockAnalysis message \<Rightarrow> \<lparr>exit_code = 0, stdout = [''Result: '' @ message], stderr = [], files_left = fs\<rparr>
    | SimpleTranslation \<Rightarrow> \<lparr>exit_code = 0, stdout = [], stderr = [], files_left = fs\<rparr>)"

definition main ::
  "'n environment \<Rightarrow> ('n, 'p, 't) netcrab \<Rightarrow> nat \<Rightarrow> nat \<Rightarrow> command \<Rightarrow> files \<Rightarrow> process_result option" where
  "main env N depth rounds args fs = (case command_exec env N depth rounds args fs of
      (Inl panic, fs) \<Rightarrow>
        if panic = OutOfFuel then None
        else Some \<lparr>exit_code = 101, stdout = [], stderr = [], files_left = fs\<rparr>
    | (Inr result, fs) \<Rightarrow> Some (report result fs))"

end
