(* ===== verification/Simple_Net.thy ===== *)
theory Simple_Net
  imports Petri_Net_Interface
begin

text \<open>
  An executable Petri net that satisfies the contracts of \<open>Petri_Net_Interface\<close>. A node is
  identified by its label; each transition carries the multiplicities of its incoming and
  outgoing arcs, as a transition of a \<open>.lola\<close> file does with its \<open>CONSUME\<close> and \<open>PRODUCE\<close>
  lists. It shows that the contracts can be met, and it is the net on which the definitions of
  the development are evaluated.
\<close>

record simple_net =
  sn_places :: "(string, nat) hash_map"
  sn_transitions :: "(string, (string, nat) hash_map \<times> (string, nat) hash_map) hash_map"

definition sn_empty :: simple_net where
  "sn_empty = \<lparr>sn_places = hm_new, sn_transitions = hm_new\<rparr>"

definition sn_add_place :: "string \<Rightarrow> simple_net \<Rightarrow> string \<times> simple_net" where
  "sn_add_place l net = (l,
     if hm_contains_key (sn_places net) l then net
     else net\<lparr>sn_places := hm_insert l 0 (sn_places net)\<rparr>)"

definition sn_add_transition :: "string \<Rightarrow> simple_net \<Rightarrow> string \<times> simple_net" where
  "sn_add_transition l net = (l,
     if hm_contains_key (sn_transitions net) l then net
     else net\<lparr>sn_transitions := hm_insert l (hm_new, hm_new) (sn_transitions net)\<rparr>)"

definition sn_add_token :: "string \<Rightarrow> nat \<Rightarrow> simple_net \<Rightarrow> simple_net option" where
  "sn_add_token p k net = (case hm_get (sn_places net) p of
      None \<Rightarrow> None
    | Some m \<Rightarrow> if int (m + k) < 2 ^ 64 then Some (net\<lparr>sn_places := hm_insert p (m + k) (sn_places net)\<rparr>)
                else None)"

definition multiplicity :: "(string, nat) hash_map \<Rightarrow> string \<Rightarrow> nat" where
  "multiplicity arcs p = (case hm_get arcs p of None \<Rightarrow> 0 | Some k \<Rightarrow> k)"

definition sn_add_arc_pt :: "string \<Rightarrow> string \<Rightarrow> simple_net \<Rightarrow> simple_net option" where
  "sn_add_arc_pt p t net = (case (hm_get (sn_places net) p, hm_get (sn_transitions net) t) of
      (Some _, Some (consume, produce)) \<Rightarrow>
        Some (net\<lparr>sn_transitions := hm_insert t
          (hm_insert p (multiplicity consume p + 1) consume, produce) (sn_transitions net)\<rparr>)
    | _ \<Rightarrow> None)"

definition sn_add_arc_tp :: "string \<Rightarrow> string \<Rightarrow> simple_net \<Rightarrow> simple_net option" where
  "sn_add_arc_tp t p net = (case (hm_get (sn_places net) p, hm_get (sn_transitions net) t) of
      (Some _, Some (consume, produce)) \<Rightarrow>
        Some (net\<lparr>sn_transitions := hm_insert t
          (consume, hm_insert p (multiplicity produce p + 1) produce) (sn_transitions net)\<rparr>)
    | _ \<Rightarrow> None)"

definition simple_netcrab :: "(simple_net, string, string) netcrab" where
  "simple_netcrab = \<lparr>
     net_new = sn_empty,
     net_default = sn_empty,
     net_add_place = sn_add_place,
     net_add_transition = sn_add_transition,
     net_add_token = sn_add_token,
     net_add_arc_place_transition = sn_add_arc_pt,
     net_add_arc_transition_place = sn_add_arc_tp\<rparr>"

definition sn_places_of :: "simple_net \<Rightarrow> string set" where
  "sn_places_of net = {p. hm_get (sn_places net) p \<noteq> None}"

definition sn_transitions_of :: "simple_net \<Rightarrow> string set" where
  "sn_transitions_of net = {t. hm_get (sn_transitions net) t \<noteq> None}"

definition sn_arcs_in :: "simple_net \<Rightarrow> string \<Rightarrow> string \<Rightarrow> nat" where
  "sn_arcs_in net t p = (case hm_get (sn_transitions net) t of
      None \<Rightarrow> 0 | Some (consume, _) \<Rightarrow> multiplicity consume p)"

definition sn_arcs_out :: "simple_net \<Rightarrow> string \<Rightarrow> string \<Rightarrow> nat" where
  "sn_arcs_out net t p = (case hm_get (sn_transitions net) t of
      None \<Rightarrow> 0 | Some (_, produce) \<Rightarrow> multiplicity produce p)"

definition sn_tokens :: "simple_net \<Rightarrow> string \<Rightarrow> nat" where
  "sn_tokens net p = multiplicity (sn_places net) p"

definition sn_view :: "simple_net \<Rightarrow> (string, string) pnet" where
  "sn_view net = \<lparr>pn_places = sn_places_of net, pn_transitions = sn_transitions_of net,
     pn_pre = sn_arcs_in net, pn_post = sn_arcs_out net, pn_tokens = sn_tokens net\<rparr>"

lemmas simple_net_defs =
  sn_empty_def sn_add_place_def sn_add_transition_def sn_add_token_def sn_add_arc_pt_def
  sn_add_arc_tp_def sn_places_of_def sn_transitions_of_def sn_arcs_in_def sn_arcs_out_def
  sn_tokens_def multiplicity_def

lemma simple_netcrab_simps [simp]:
  "net_new simple_netcrab = sn_empty"
  "net_default simple_netcrab = sn_empty"
  "net_add_place simple_netcrab = sn_add_place"
  "net_add_transition simple_netcrab = sn_add_transition"
  "net_add_token simple_netcrab = sn_add_token"
  "net_add_arc_place_transition simple_netcrab = sn_add_arc_pt"
  "net_add_arc_transition_place simple_netcrab = sn_add_arc_tp"
  by (simp_all add: simple_netcrab_def)

lemma sn_view_simps [simp]:
  "pn_places (sn_view net) = sn_places_of net" "pn_transitions (sn_view net) = sn_transitions_of net"
  "pn_pre (sn_view net) = sn_arcs_in net" "pn_post (sn_view net) = sn_arcs_out net"
  "pn_tokens (sn_view net) = sn_tokens net"
  by (simp_all add: sn_view_def)

interpretation simple: labelled_petri_net simple_netcrab sn_view "\<lambda>p. p" "\<lambda>t. t"
  by unfold_locales
    (auto simp: simple_net_defs sn_view_def pnet_defs fun_eq_iff split: if_splits option.splits)

end
