(* ===== verification/Net_Semantics.thy ===== *)
theory Net_Semantics
  imports Simple_Net
begin

text \<open>
  The behaviour of a Petri net: markings, firing, reachability, and the question the tool asks the
  model checker, the formula \<open>EF (DEADLOCK AND (PROGRAM_END = 0 AND PROGRAM_PANIC = 0))\<close> of
  \<open>src/src/model_checker/lola.rs\<close>. Place invariants bound what is reachable in every net; for the
  executable nets of \<open>Simple_Net\<close> a finite list of markings that is closed under firing gives all
  reachable ones.
\<close>

section \<open>Markings and firing\<close>

type_synonym 'p marking = "'p \<Rightarrow> nat"

definition enabled :: "('p, 't) pnet \<Rightarrow> 'p marking \<Rightarrow> 't \<Rightarrow> bool" where
  "enabled P m t \<longleftrightarrow> t \<in> pn_transitions P \<and> (\<forall>p. pn_pre P t p \<le> m p)"

definition fire :: "('p, 't) pnet \<Rightarrow> 't \<Rightarrow> 'p marking \<Rightarrow> 'p marking" where
  "fire P t m = (\<lambda>p. m p - pn_pre P t p + pn_post P t p)"

inductive reachable :: "('p, 't) pnet \<Rightarrow> 'p marking \<Rightarrow> bool" for P where
  initial: "reachable P (pn_tokens P)"
| fires: "reachable P m \<Longrightarrow> enabled P m t \<Longrightarrow> reachable P (fire P t m)"

definition dead :: "('p, 't) pnet \<Rightarrow> 'p marking \<Rightarrow> bool" where
  "dead P m \<longleftrightarrow> (\<forall>t. \<not> enabled P m t)"

text \<open>
  The formula, for the references of the places labelled \<open>PROGRAM_END\<close> and \<open>PROGRAM_PANIC\<close>.
\<close>

definition can_deadlock :: "('p, 't) pnet \<Rightarrow> 'p \<Rightarrow> 'p \<Rightarrow> bool" where
  "can_deadlock P program_end program_panic \<longleftrightarrow>
     (\<exists>m. reachable P m \<and> dead P m \<and> m program_end = 0 \<and> m program_panic = 0)"

section \<open>Place invariants\<close>

text \<open>The weighted sum of the tokens on a finite set of places.\<close>

definition weight :: "'p set \<Rightarrow> ('p \<Rightarrow> int) \<Rightarrow> 'p marking \<Rightarrow> int" where
  "weight S w m = (\<Sum>p \<in> S. w p * int (m p))"

definition place_invariant :: "('p, 't) pnet \<Rightarrow> 'p set \<Rightarrow> ('p \<Rightarrow> int) \<Rightarrow> bool" where
  "place_invariant P S w \<longleftrightarrow> finite S \<and>
     (\<forall>t \<in> pn_transitions P. weight S w (pn_pre P t) = weight S w (pn_post P t))"

lemma weight_fire:
  assumes "enabled P m t"
  shows "weight S w (fire P t m) = weight S w m - weight S w (pn_pre P t) + weight S w (pn_post P t)"
proof -
  have "int (fire P t m p) = int (m p) - int (pn_pre P t p) + int (pn_post P t p)" for p
  proof -
    have "pn_pre P t p \<le> m p" using assms by (simp add: enabled_def)
    then show ?thesis unfolding fire_def by linarith
  qed
  then show ?thesis
    unfolding weight_def by (simp add: right_diff_distrib distrib_left sum.distrib sum_subtractf)
qed

lemma place_invariant_reachable:
  assumes "place_invariant P S w" "reachable P m"
  shows "weight S w m = weight S w (pn_tokens P)"
  using assms(2)
proof induction
  case (fires m t)
  then have "t \<in> pn_transitions P" by (simp add: enabled_def)
  with assms(1) fires show ?case by (simp add: weight_fire place_invariant_def)
qed simp

text \<open>
  An invariant of weight one with no negative weights is a mutual exclusion: two places of positive
  weight are never marked together.
\<close>

lemma place_invariant_exclusive:
  assumes "place_invariant P S w" "reachable P m" "weight S w (pn_tokens P) = 1"
    "\<And>r. r \<in> S \<Longrightarrow> 0 \<le> w r" "p \<in> S" "q \<in> S" "p \<noteq> q" "0 < w p" "0 < w q"
  shows "m p = 0 \<or> m q = 0"
proof (rule ccontr)
  assume "\<not> (m p = 0 \<or> m q = 0)"
  then have m: "1 \<le> int (m p)" "1 \<le> int (m q)" by auto
  have fin: "finite S" using assms(1) by (simp add: place_invariant_def)
  have "1 * 1 \<le> w p * int (m p)" "1 * 1 \<le> w q * int (m q)"
    using assms(8,9) m by (intro mult_mono; simp)+
  then have "2 \<le> (\<Sum>r \<in> {p, q}. w r * int (m r))" using assms(7) by simp
  also have "\<dots> \<le> (\<Sum>r \<in> S. w r * int (m r))"
    using fin assms(4-6) by (intro sum_mono2) auto
  finally show False
    using place_invariant_reachable [OF assms(1,2)] assms(3) by (simp add: weight_def)
qed

section \<open>Exploring an executable net\<close>

text \<open>A marking as the list of the tokens on the places, in the order of the net's places.\<close>

definition place_list :: "simple_net \<Rightarrow> string list" where
  "place_list net = map fst (sn_places net)"

definition marking_of :: "simple_net \<Rightarrow> nat list \<Rightarrow> string marking" where
  "marking_of net ks p = (case map_of (zip (place_list net) ks) p of None \<Rightarrow> 0 | Some k \<Rightarrow> k)"

definition fires_list :: "simple_net \<Rightarrow> nat list \<Rightarrow> string \<Rightarrow> nat list option" where
  "fires_list net ks t =
     (if list_all (\<lambda>(p, k). sn_arcs_in net t p \<le> k) (zip (place_list net) ks)
      then Some (map (\<lambda>(p, k). k - sn_arcs_in net t p + sn_arcs_out net t p) (zip (place_list net) ks))
      else None)"

text \<open>Every arc has its place in the net.\<close>

definition arcs_closed :: "simple_net \<Rightarrow> bool" where
  "arcs_closed net = list_all (\<lambda>(t, consume, produce).
     list_all (\<lambda>(p, _). p \<in> set (place_list net)) (consume @ produce)) (sn_transitions net)"

definition transition_list :: "simple_net \<Rightarrow> string list" where
  "transition_list net = map fst (sn_transitions net)"

definition initial_list :: "simple_net \<Rightarrow> nat list" where
  "initial_list net = map (sn_tokens net) (place_list net)"

text \<open>The markings \<open>ms\<close> contain the initial one and all successors of their own.\<close>

definition closed_markings :: "simple_net \<Rightarrow> nat list list \<Rightarrow> bool" where
  "closed_markings net ms \<longleftrightarrow> arcs_closed net \<and> distinct (place_list net) \<and> initial_list net \<in> set ms \<and>
     list_all (\<lambda>ks. length ks = length (place_list net) \<and>
       list_all (\<lambda>t. case fires_list net ks t of None \<Rightarrow> True | Some ks' \<Rightarrow> ks' \<in> set ms) (transition_list net)) ms"

definition dead_list :: "simple_net \<Rightarrow> nat list \<Rightarrow> bool" where
  "dead_list net ks = list_all (\<lambda>t. fires_list net ks t = None) (transition_list net)"

text \<open>The markings reached from \<open>ms\<close> in at most \<open>fuel\<close> rounds; each round adds all successors.\<close>

definition successors :: "simple_net \<Rightarrow> nat list \<Rightarrow> nat list list" where
  "successors net ks = List.map_filter (fires_list net ks) (transition_list net)"

fun explore :: "nat \<Rightarrow> simple_net \<Rightarrow> nat list list \<Rightarrow> nat list list" where
  "explore 0 net ms = ms"
| "explore (Suc fuel) net ms = explore fuel net (remdups (ms @ concat (map (successors net) ms)))"

lemma hm_get_None_iff: "hm_get m k = None \<longleftrightarrow> k \<notin> set (map fst m)"
  by (simp add: hm_get_def map_of_eq_None_iff)

lemma multiplicity_outside: "p \<notin> set (map fst arcs) \<Longrightarrow> multiplicity arcs p = 0"
  by (simp add: multiplicity_def hm_get_None_iff [THEN iffD2])

lemma arcs_outside:
  assumes "arcs_closed net" "p \<notin> set (place_list net)"
  shows "sn_arcs_in net t p = 0" "sn_arcs_out net t p = 0"
proof -
  have "multiplicity c p = 0 \<and> multiplicity q p = 0" if "hm_get (sn_transitions net) t = Some (c, q)" for c q
  proof -
    have "(t, c, q) \<in> set (sn_transitions net)" using that by (simp add: hm_get_def map_of_SomeD)
    then have "p \<notin> set (map fst c)" "p \<notin> set (map fst q)"
      using assms by (fastforce simp: arcs_closed_def list_all_iff)+
    then show ?thesis using multiplicity_outside by blast
  qed
  then show "sn_arcs_in net t p = 0" "sn_arcs_out net t p = 0"
    by (auto simp: sn_arcs_in_def sn_arcs_out_def split: option.splits)
qed

lemma marking_of_inside:
  assumes "distinct (place_list net)" "length ks = length (place_list net)" "i < length ks"
  shows "marking_of net ks (place_list net ! i) = ks ! i"
proof -
  have "(place_list net ! i, ks ! i) \<in> set (zip (place_list net) ks)"
    using assms(2,3) by (auto simp: in_set_zip)
  moreover have "distinct (map fst (zip (place_list net) ks))" using assms(1,2) by simp
  ultimately have "map_of (zip (place_list net) ks) (place_list net ! i) = Some (ks ! i)"
    by (rule map_of_is_SomeI [rotated])
  then show ?thesis by (simp add: marking_of_def)
qed

lemma marking_of_outside: "p \<notin> set (place_list net) \<Longrightarrow> marking_of net ks p = 0"
  by (auto simp: marking_of_def map_of_eq_None_iff dest: set_zip_leftD split: option.splits dest!: map_of_SomeD)

lemma initial_list_marking:
  assumes "distinct (place_list net)"
  shows "marking_of net (initial_list net) = sn_tokens net"
proof
  fix p
  show "marking_of net (initial_list net) p = sn_tokens net p"
  proof (cases "p \<in> set (place_list net)")
    case True
    then obtain i where "i < length (place_list net)" "p = place_list net ! i" by (auto simp: in_set_conv_nth)
    with assms show ?thesis by (simp add: marking_of_inside initial_list_def)
  next
    case False
    then show ?thesis by (simp add: marking_of_outside sn_tokens_def multiplicity_outside place_list_def)
  qed
qed

text \<open>Firing on lists is firing.\<close>

lemma fires_list_enabled:
  assumes "arcs_closed net" "distinct (place_list net)" "length ks = length (place_list net)"
    "t \<in> set (transition_list net)"
  shows "enabled (sn_view net) (marking_of net ks) t \<longleftrightarrow> fires_list net ks t \<noteq> None"
proof -
  have "sn_arcs_in net t p \<le> marking_of net ks p" if "p \<notin> set (place_list net)" for p
    using arcs_outside [OF assms(1) that] by simp
  then have "(\<forall>p. sn_arcs_in net t p \<le> marking_of net ks p) \<longleftrightarrow>
      (\<forall>i < length ks. sn_arcs_in net t (place_list net ! i) \<le> ks ! i)"
    using assms(2,3) by (metis in_set_conv_nth marking_of_inside)
  also have "\<dots> \<longleftrightarrow> list_all (\<lambda>(p, k). sn_arcs_in net t p \<le> k) (zip (place_list net) ks)"
    using assms(3) by (auto simp: list_all_length)
  finally show ?thesis
    using assms(4) by (auto simp: enabled_def fires_list_def sn_transitions_of_def hm_get_None_iff
        transition_list_def)
qed

lemma fires_list_fire:
  assumes "arcs_closed net" "distinct (place_list net)" "length ks = length (place_list net)"
    "fires_list net ks t = Some ks'"
  shows "marking_of net ks' = fire (sn_view net) t (marking_of net ks)"
proof
  fix p
  have ks': "ks' = map (\<lambda>(p, k). k - sn_arcs_in net t p + sn_arcs_out net t p) (zip (place_list net) ks)"
    using assms(4) by (auto simp: fires_list_def split: if_splits)
  show "marking_of net ks' p = fire (sn_view net) t (marking_of net ks) p"
  proof (cases "p \<in> set (place_list net)")
    case True
    then obtain i where "i < length (place_list net)" "p = place_list net ! i" by (auto simp: in_set_conv_nth)
    with assms(2,3) show ?thesis by (simp add: marking_of_inside fire_def ks')
  next
    case False
    with arcs_outside [OF assms(1) False] show ?thesis by (simp add: marking_of_outside fire_def)
  qed
qed

text \<open>A closed list contains every reachable marking.\<close>

lemma closed_markings_complete:
  assumes "closed_markings net ms" "reachable (sn_view net) m"
  obtains ks where "ks \<in> set ms" "m = marking_of net ks"
proof -
  note c = assms(1) [unfolded closed_markings_def list_all_iff]
  have "\<exists>ks \<in> set ms. m = marking_of net ks"
    using assms(2)
  proof induction
    case initial
    with c show ?case using initial_list_marking [of net] by (metis sn_view_simps(5))
  next
    case (fires m t)
    then obtain ks where ks: "ks \<in> set ms" "m = marking_of net ks" by blast
    have t: "t \<in> set (transition_list net)"
      using fires(2) by (auto simp: enabled_def sn_transitions_of_def hm_get_None_iff transition_list_def)
    have len: "length ks = length (place_list net)" using c ks(1) by blast
    with fires(2) ks t c obtain ks' where ks': "fires_list net ks t = Some ks'"
      using fires_list_enabled [of net ks t] by auto
    with c ks(1) t have "ks' \<in> set ms" by fastforce
    with fires_list_fire [OF _ _ len ks'] c ks(2) show ?case by metis
  qed
  with that show ?thesis by blast
qed

lemma enabled_listed: "enabled (sn_view net) m t \<Longrightarrow> t \<in> set (transition_list net)"
  by (auto simp: enabled_def sn_transitions_of_def hm_get_None_iff transition_list_def)

lemma dead_list_dead:
  assumes "arcs_closed net" "distinct (place_list net)" "length ks = length (place_list net)"
  shows "dead (sn_view net) (marking_of net ks) \<longleftrightarrow> dead_list net ks"
  unfolding dead_def dead_list_def list_all_iff
  using fires_list_enabled [OF assms] enabled_listed by blast

text \<open>The markings of an exploration are reachable.\<close>

definition reachable_list :: "simple_net \<Rightarrow> nat list \<Rightarrow> bool" where
  "reachable_list net ks \<longleftrightarrow> length ks = length (place_list net) \<and> reachable (sn_view net) (marking_of net ks)"

lemma successors_reachable:
  assumes "arcs_closed net" "distinct (place_list net)" "reachable_list net ks" "ks' \<in> set (successors net ks)"
  shows "reachable_list net ks'"
proof -
  from assms(4) obtain t where t: "t \<in> set (transition_list net)" "fires_list net ks t = Some ks'"
    by (auto simp: successors_def List.map_filter_def)
  have len: "length ks = length (place_list net)" using assms(3) by (simp add: reachable_list_def)
  have "length ks' = length (place_list net)" using t(2) len by (auto simp: fires_list_def split: if_splits)
  with t len assms(3) show ?thesis
    using fires_list_enabled [OF assms(1,2) len t(1)] fires_list_fire [OF assms(1,2) len t(2)]
    by (auto simp: reachable_list_def intro: reachable.fires)
qed

lemma explore_reachable:
  assumes "arcs_closed net" "distinct (place_list net)" "\<forall>ks \<in> set ms. reachable_list net ks"
  shows "\<forall>ks \<in> set (explore fuel net ms). reachable_list net ks"
  using assms(3)
proof (induction fuel arbitrary: ms)
  case (Suc fuel)
  show ?case unfolding explore.simps
    by (rule Suc.IH) (use Suc.prems successors_reachable [OF assms(1,2)] in auto)
qed simp

text \<open>
  The decision procedure: explore for some rounds, and answer when the result is closed.
\<close>

definition decide_deadlock :: "nat \<Rightarrow> simple_net \<Rightarrow> string \<Rightarrow> string \<Rightarrow> bool option" where
  "decide_deadlock fuel net program_end program_panic =
     (let ms = explore fuel net [initial_list net]
      in if closed_markings net ms
         then Some (list_ex (\<lambda>ks. dead_list net ks \<and> marking_of net ks program_end = 0 \<and>
           marking_of net ks program_panic = 0) ms)
         else None)"

lemma decide_deadlock_correct:
  assumes "decide_deadlock fuel net e p = Some b"
  shows "can_deadlock (sn_view net) e p \<longleftrightarrow> b"
proof -
  define ms where "ms = explore fuel net [initial_list net]"
  have run: "decide_deadlock fuel net e p = (if closed_markings net ms then Some (list_ex (\<lambda>ks.
      dead_list net ks \<and> marking_of net ks e = 0 \<and> marking_of net ks p = 0) ms) else None)"
    unfolding decide_deadlock_def ms_def Let_def ..
  with assms have closed: "closed_markings net ms" by (simp split: if_splits)
  with assms run have b: "b \<longleftrightarrow> (\<exists>ks \<in> set ms. dead_list net ks \<and> marking_of net ks e = 0 \<and> marking_of net ks p = 0)"
    by (simp add: list_ex_iff)
  from closed have wf: "arcs_closed net" "distinct (place_list net)" by (auto simp: closed_markings_def)
  have "reachable_list net (initial_list net)"
    using initial_list_marking [OF wf(2)] reachable.initial [of "sn_view net"]
    by (simp add: reachable_list_def initial_list_def)
  then have "\<forall>ks \<in> set ms. reachable_list net ks"
    unfolding ms_def by (intro explore_reachable [OF wf]) simp
  then have reach: "reachable_list net ks" if "ks \<in> set ms" for ks using that by blast
  have dead: "dead (sn_view net) (marking_of net ks) \<longleftrightarrow> dead_list net ks" if "ks \<in> set ms" for ks
    using reach [OF that] by (intro dead_list_dead [OF wf]) (simp add: reachable_list_def)
  show ?thesis
  proof
    assume "can_deadlock (sn_view net) e p"
    then obtain m where m: "reachable (sn_view net) m" "dead (sn_view net) m" "m e = 0" "m p = 0"
      by (auto simp: can_deadlock_def)
    from closed_markings_complete [OF closed m(1)] obtain ks where ks: "ks \<in> set ms" "m = marking_of net ks" .
    with m dead [OF ks(1)] show b unfolding b by blast
  next
    assume b
    then obtain ks where ks: "ks \<in> set ms" "dead_list net ks" "marking_of net ks e = 0" "marking_of net ks p = 0"
      unfolding b by blast
    with dead [OF ks(1)] reach [OF ks(1)] show "can_deadlock (sn_view net) e p"
      unfolding can_deadlock_def reachable_list_def by blast
  qed
qed

text \<open>The marking after a sequence of transitions.\<close>

fun fires_seq :: "simple_net \<Rightarrow> nat list \<Rightarrow> string list \<Rightarrow> nat list option" where
  "fires_seq net ks [] = Some ks"
| "fires_seq net ks (t # ts) = (if t \<in> set (transition_list net) then
     (case fires_list net ks t of None \<Rightarrow> None | Some ks' \<Rightarrow> fires_seq net ks' ts) else None)"

lemma fires_seq_reachable:
  assumes "arcs_closed net" "distinct (place_list net)" "reachable_list net ks" "fires_seq net ks ts = Some ks'"
  shows "reachable_list net ks'"
  using assms(3,4)
proof (induction ts arbitrary: ks)
  case (Cons t ts)
  then obtain ks1 where ks1: "fires_list net ks t = Some ks1" "fires_seq net ks1 ts = Some ks'" "t \<in> set (transition_list net)"
    by (auto split: if_splits option.splits)
  then have "ks1 \<in> set (successors net ks)" by (auto simp: successors_def List.map_filter_def intro!: image_eqI)
  from Cons.IH [OF successors_reachable [OF assms(1,2) Cons.prems(1) this] ks1(2)] show ?case .
qed simp

lemma reachable_by:
  assumes "arcs_closed net \<and> distinct (place_list net)" "fires_seq net (initial_list net) ts = Some ks"
  shows "reachable (sn_view net) (marking_of net ks)"
proof -
  have "reachable_list net (initial_list net)"
    using assms(1) initial_list_marking [of net] reachable.initial [of "sn_view net"]
    by (simp add: reachable_list_def initial_list_def)
  from fires_seq_reachable [OF _ _ this assms(2)] assms(1) show ?thesis by (simp add: reachable_list_def)
qed

text \<open>A path into a deadlock.\<close>

definition deadlocks_after :: "simple_net \<Rightarrow> string list \<Rightarrow> string \<Rightarrow> string \<Rightarrow> bool" where
  "deadlocks_after net ts e p \<longleftrightarrow> arcs_closed net \<and> distinct (place_list net) \<and>
     (case fires_seq net (initial_list net) ts of
        None \<Rightarrow> False
      | Some ks \<Rightarrow> length ks = length (place_list net) \<and> dead_list net ks \<and> marking_of net ks e = 0 \<and> marking_of net ks p = 0)"

lemma deadlocks_after_sound: "deadlocks_after net ts e p \<Longrightarrow> can_deadlock (sn_view net) e p"
  using reachable_by [of net ts] dead_list_dead [of net]
  by (auto simp: deadlocks_after_def can_deadlock_def split: option.splits)

end
