(* ===== verification/Examples.thy ===== *)
theory Examples
  imports Mir
begin

text \<open>
  Programs of \<open>src/examples/programs\<close>, as the compiler hands them to the translator: the calls its
  visitor receives for each function, the paths of the functions and the types of the locals.
  The properties are instantiated on them.
\<close>

text \<open>The element at a position, or the default outside the list.\<close>

definition nth_or :: "'a \<Rightarrow> 'a list \<Rightarrow> nat \<Rightarrow> 'a" where
  "nth_or d xs i = (if i < length xs then xs ! i else d)"

definition plain_ty :: ty where
  "plain_ty = \<lparr>kind = OtherTyKind, ty_string = ''()''\<rparr>"

definition named_ty :: "string \<Rightarrow> ty" where
  "named_ty name = \<lparr>kind = OtherTyKind, ty_string = name\<rparr>"

text \<open>A function item or a closure without captures as a constant operand.\<close>

definition fn_const :: "def_id \<Rightarrow> operand" where
  "fn_const d = Constant \<lparr>const_type = \<lparr>kind = FnDef d, ty_string = ''''\<rparr>, user_ty_is_none = True,
     const_kind = Const_Val ZeroSized\<rparr>"

definition closure_const :: "def_id \<Rightarrow> operand" where
  "closure_const d = Constant \<lparr>const_type = \<lparr>kind = Closure d, ty_string = ''''\<rparr>, user_ty_is_none = True,
     const_kind = Const_Val ZeroSized\<rparr>"

text \<open>
  A program: the function 0 is \<open>main\<close>; every function has a path, the types of its locals and the
  visits of its body. The functions of the standard library have a path and no body.
\<close>

definition program :: "string list \<Rightarrow> ty list list \<Rightarrow> visitor_call list list \<Rightarrow> rustc" where
  "program paths types bodies =
     \<lparr>entry_fn = Some 0,
      def_path_str = nth_or ''missing'' paths,
      is_foreign_item = (\<lambda>_. False),
      is_mir_available = (\<lambda>d. d < length bodies),
      var_debug_info = (\<lambda>_. []),
      place_ty = (\<lambda>d p. nth_or plain_ty (nth_or [] types d) (local p)),
      is_indirect = (\<lambda>p. projection p \<noteq> [] \<and> hd (projection p) = Deref),
      visit_body = nth_or [] bodies\<rparr>"

text \<open>A call that returns to the given block and does not unwind.\<close>

definition call_to :: "def_id \<Rightarrow> operand list \<Rightarrow> nat \<Rightarrow> block_index \<Rightarrow> visitor_call" where
  "call_to d args destination target =
     VisitTerminator (Call (fn_const d) args (local_place destination) (Some target) Continue)"

text \<open>\<open>function_call/empty_function.rs\<close>\<close>

definition empty_function :: rustc where
  "empty_function = program [''main'', ''call''] []
     [[VisitBasicBlockData 0, call_to 1 [] 1 1,
       VisitBasicBlockData 1, VisitTerminator Return],
      [VisitBasicBlockData 0, VisitTerminator Return]]"

text \<open>
  \<open>function_call/two_calls_same_function.rs\<close>: a function called twice, and a panic between the calls.
\<close>

definition two_calls_same_function :: rustc where
  "two_calls_same_function = program [''main'', ''simple_function'', ''core::panicking::panic''] []
     [[VisitBasicBlockData 0, call_to 1 [] 1 1,
       VisitBasicBlockData 1, VisitTerminator (SwitchInt [3, 2]),
       VisitBasicBlockData 2, VisitTerminator (Call (fn_const 2) [] (local_place 2) None Continue),
       VisitBasicBlockData 3, call_to 1 [] 3 4,
       VisitBasicBlockData 4, VisitTerminator Return],
      [VisitBasicBlockData 0, VisitTerminator Return]]"

text \<open>\<open>statement/abort.rs\<close>\<close>

definition abort :: rustc where
  "abort = program [''main'', ''std::process::abort''] []
     [[VisitBasicBlockData 0, VisitTerminator (Call (fn_const 1) [] (local_place 0) None Continue)]]"

text \<open>\<open>mutex/double_lock_deadlock.rs\<close>\<close>

definition double_lock_deadlock :: rustc where
  "double_lock_deadlock = program
     [''main'', ''std::sync::Mutex::<T>::new'', ''std::sync::Mutex::<T>::lock'']
     [[plain_ty, named_ty ''std::sync::Mutex<i32>'',
       named_ty ''std::result::Result<std::sync::MutexGuard<'_, i32>, std::sync::PoisonError<std::sync::MutexGuard<'_, i32>>>'',
       named_ty ''&std::sync::Mutex<i32>'',
       named_ty ''std::result::Result<std::sync::MutexGuard<'_, i32>, std::sync::PoisonError<std::sync::MutexGuard<'_, i32>>>'',
       named_ty ''&std::sync::Mutex<i32>'']]
     [[VisitBasicBlockData 0, call_to 1 [] 1 1,
       VisitBasicBlockData 1, VisitAssign (local_place 3) (Ref (local_place 1)),
       call_to 2 [Move (local_place 3)] 2 2,
       VisitBasicBlockData 2, VisitAssign (local_place 5) (Ref (local_place 1)),
       VisitTerminator (Call (fn_const 2) [Move (local_place 5)] (local_place 4) (Some 3) (Cleanup 6)),
       VisitBasicBlockData 3, VisitTerminator (Drop (local_place 4) 4 (Cleanup 6)),
       VisitBasicBlockData 4, VisitTerminator (Drop (local_place 2) 5 Continue),
       VisitBasicBlockData 5, VisitTerminator Return,
       VisitBasicBlockData 6, VisitTerminator (Drop (local_place 2) 7 Terminate),
       VisitBasicBlockData 7, VisitTerminator UnwindResume]]"

text \<open>\<open>thread/spawn_with_empty_closure.rs\<close>; the closure is the function 1.\<close>

definition spawn_with_empty_closure :: rustc where
  "spawn_with_empty_closure = program
     [''main'', ''main::{closure#0}'', ''std::thread::spawn'', ''std::thread::JoinHandle::<T>::join'']
     [[plain_ty, named_ty ''std::thread::JoinHandle<()>'', plain_ty, named_ty ''std::thread::JoinHandle<()>'']]
     [[VisitBasicBlockData 0, call_to 2 [closure_const 1] 1 1,
       VisitBasicBlockData 1, VisitAssign (local_place 3) (Use (Move (local_place 1))),
       call_to 3 [Move (local_place 3)] 2 2,
       VisitBasicBlockData 2, VisitTerminator (Drop (local_place 2) 3 Continue),
       VisitBasicBlockData 3, VisitTerminator Return],
      [VisitBasicBlockData 0, VisitTerminator Return]]"

text \<open>
  \<open>condvar/self_notify_lost_signal.rs\<close>: a mutex (local 1) and a condition variable (local 2); the
  lock result is local 4, the guard local 3, the result of the wait local 8.
\<close>

definition guard_ty :: ty where
  "guard_ty = named_ty ''std::sync::MutexGuard<'_, bool>''"

definition lock_result_ty :: ty where
  "lock_result_ty = named_ty ''std::result::Result<std::sync::MutexGuard<'_, bool>, std::sync::PoisonError<std::sync::MutexGuard<'_, bool>>>''"

definition condvar_paths :: "string list" where
  "condvar_paths = [''main'', ''std::sync::Mutex::<T>::new'', ''std::sync::Condvar::new'', ''std::sync::Mutex::<T>::lock'',
     ''std::result::Result::<T, E>::unwrap'', ''std::sync::Condvar::notify_one'', ''std::sync::Condvar::wait'']"

definition condvar_types :: "ty list" where
  "condvar_types = [plain_ty, named_ty ''std::sync::Mutex<bool>'', named_ty ''std::sync::Condvar'', guard_ty, lock_result_ty,
     named_ty ''&std::sync::Mutex<bool>'', plain_ty, named_ty ''&std::sync::Condvar'', lock_result_ty,
     named_ty ''&std::sync::Condvar'', guard_ty]"

definition self_notify_lost_signal :: rustc where
  "self_notify_lost_signal = program condvar_paths [condvar_types]
     [[VisitBasicBlockData 0, call_to 1 [] 1 1,
       VisitBasicBlockData 1, call_to 2 [] 2 2,
       VisitBasicBlockData 2, VisitAssign (local_place 5) (Ref (local_place 1)), call_to 3 [Move (local_place 5)] 4 3,
       VisitBasicBlockData 3, call_to 4 [Move (local_place 4)] 3 4,
       VisitBasicBlockData 4, VisitAssign (local_place 7) (Ref (local_place 2)),
       VisitTerminator (Call (fn_const 5) [Move (local_place 7)] (local_place 6) (Some 5) (Cleanup 10)),
       VisitBasicBlockData 5, VisitAssign (local_place 9) (Ref (local_place 2)),
       VisitAssign (local_place 10) (Use (Move (local_place 3))),
       VisitTerminator (Call (fn_const 6) [Move (local_place 9), Move (local_place 10)] (local_place 8) (Some 6) (Cleanup 10)),
       VisitBasicBlockData 6, VisitTerminator (Drop (local_place 8) 7 (Cleanup 10)),
       VisitBasicBlockData 7, VisitTerminator Return,
       VisitBasicBlockData 8, VisitTerminator UnwindResume,
       VisitBasicBlockData 9, VisitTerminator (Drop (local_place 3) 8 Terminate),
       VisitBasicBlockData 10, VisitTerminator (SwitchInt [8, 9])]]"

text \<open>The same calls with the notification before the lock.\<close>

definition notify_before_lock :: rustc where
  "notify_before_lock = program condvar_paths [condvar_types]
     [[VisitBasicBlockData 0, call_to 1 [] 1 1,
       VisitBasicBlockData 1, call_to 2 [] 2 2,
       VisitBasicBlockData 2, VisitAssign (local_place 7) (Ref (local_place 2)), call_to 5 [Move (local_place 7)] 6 3,
       VisitBasicBlockData 3, VisitAssign (local_place 5) (Ref (local_place 1)), call_to 3 [Move (local_place 5)] 4 4,
       VisitBasicBlockData 4, call_to 4 [Move (local_place 4)] 3 5,
       VisitBasicBlockData 5, VisitAssign (local_place 9) (Ref (local_place 2)),
       VisitAssign (local_place 10) (Use (Move (local_place 3))),
       call_to 6 [Move (local_place 9), Move (local_place 10)] 8 6,
       VisitBasicBlockData 6, VisitTerminator (Drop (local_place 8) 7 Continue),
       VisitBasicBlockData 7, VisitTerminator Return]]"

text \<open>A function that calls itself.\<close>

definition recursive_main :: rustc where
  "recursive_main = program [''main''] []
     [[VisitBasicBlockData 0, call_to 0 [] 1 1,
       VisitBasicBlockData 1, VisitTerminator Return]]"

lemma all_nth_or: "(\<forall>i. P i (nth_or d xs i)) \<longleftrightarrow> (\<forall>i < length xs. P i (xs ! i)) \<and> (\<forall>i \<ge> length xs. P i d)"
  by (auto simp: nth_or_def)

text \<open>A thread that spawns a second thread.\<close>

definition nested_spawn :: rustc where
  "nested_spawn = program
     [''main'', ''main::{closure#0}'', ''main::{closure#0}::{closure#0}'', ''std::thread::spawn'', ''std::thread::JoinHandle::<T>::join'']
     [[plain_ty, named_ty ''std::thread::JoinHandle<()>''], [plain_ty, plain_ty, named_ty ''std::thread::JoinHandle<()>'']]
     [[VisitBasicBlockData 0, call_to 3 [closure_const 1] 1 1,
       VisitBasicBlockData 1, call_to 4 [Move (local_place 1)] 2 2,
       VisitBasicBlockData 2, VisitTerminator Return],
      [VisitBasicBlockData 0, call_to 3 [closure_const 2] 2 1,
       VisitBasicBlockData 1, call_to 4 [Move (local_place 2)] 3 2,
       VisitBasicBlockData 2, VisitTerminator Return],
      [VisitBasicBlockData 0, VisitTerminator Return]]"

end
