(* ===== verification/Control_Flow.thy ===== *)
theory Control_Flow
  imports Translator Net_Semantics Examples
begin

text \<open>
  The control flow graph as the specification of the translation of a function body. A terminator of
  a block stands for labelled edges from the block to its targets; the translation of a body without
  calls adds one transition for each edge, from the place of the block to the place of the target,
  and nothing else but the places of the blocks. The specification is abstract: it knows neither the
  active block nor the order in which the places are created.
\<close>

section \<open>Edges\<close>

datatype target = ToBlock block_index | ToFunctionEnd | ToProgramEnd | ToPanic

type_synonym edge = "string \<times> block_index \<times> target"

definition drop_edges :: "string \<Rightarrow> block_index \<Rightarrow> block_index \<Rightarrow> edge" where
  "drop_edges name i j = (drop_transition_label name i, i, ToBlock j)"

fun terminator_edges :: "string \<Rightarrow> block_index \<Rightarrow> terminator_kind \<Rightarrow> edge list" where
  "terminator_edges name i (Goto j) = [(goto_transition_label name i, i, ToBlock j)]"
| "terminator_edges name i (SwitchInt js) = map (\<lambda>j. (switch_int_transition_label name i j, i, ToBlock j)) js"
| "terminator_edges name i UnwindResume = [(unwind_transition_label name i, i, ToPanic)]"
| "terminator_edges name i UnwindTerminate = [(unwind_transition_label name i, i, ToPanic)]"
| "terminator_edges name i Return = [(return_transition_label name, i, ToFunctionEnd)]"
| "terminator_edges name i Unreachable = [(unreachable_transition_label name i, i, ToProgramEnd)]"
| "terminator_edges name i (Drop _ j on_unwind) = (case on_unwind of
      Cleanup c \<Rightarrow> [drop_edges name i j, (drop_cleanup_transition_label name i, i, ToBlock c)]
    | Unreachable_Unwind \<Rightarrow> [(unreachable_transition_label name i, i, ToProgramEnd), drop_edges name i j]
    | _ \<Rightarrow> [drop_edges name i j])"
| "terminator_edges name i (Assert j on_unwind) = (case on_unwind of
      Cleanup c \<Rightarrow> [(assert_transition_label name i, i, ToBlock j), (assert_cleanup_transition_label name i, i, ToBlock c)]
    | Unreachable_Unwind \<Rightarrow>
        [(assert_transition_label name i, i, ToBlock j), (unreachable_transition_label name i, i, ToProgramEnd)]
    | _ \<Rightarrow> [(assert_transition_label name i, i, ToBlock j)])"
| "terminator_edges name i _ = []"

text \<open>The terminators that the translator handles inside a function, without a call.\<close>

definition is_local :: "terminator_kind \<Rightarrow> bool" where
  "is_local terminator = (case terminator of
      Goto _ \<Rightarrow> True | SwitchInt _ \<Rightarrow> True | UnwindResume \<Rightarrow> True | UnwindTerminate \<Rightarrow> True | Return \<Rightarrow> True
    | Unreachable \<Rightarrow> True | Drop _ _ _ \<Rightarrow> True | Assert _ _ \<Rightarrow> True | _ \<Rightarrow> False)"

text \<open>A body as its blocks with their terminators, the edges of it and the visits it causes.\<close>

type_synonym cfg = "(block_index \<times> terminator_kind) list"

definition cfg_edges :: "string \<Rightarrow> cfg \<Rightarrow> edge list" where
  "cfg_edges name blocks = concat (map (\<lambda>(i, terminator). terminator_edges name i terminator) blocks)"

definition cfg_visits :: "cfg \<Rightarrow> visitor_call list" where
  "cfg_visits blocks = concat (map (\<lambda>(i, terminator). [VisitBasicBlockData i, VisitTerminator terminator]) blocks)"

section \<open>Transitions for edges\<close>

definition single :: "'p \<Rightarrow> 'p marking" where
  "single p = (\<lambda>q. if q = p then 1 else 0)"

definition place_of_block :: "'p mir_function \<Rightarrow> block_index \<Rightarrow> 'p option" where
  "place_of_block f i = map_option block_place (hm_get (fn_basic_blocks f) i)"

definition place_of_target :: "'p mir_function \<Rightarrow> 'p \<Rightarrow> 'p \<Rightarrow> target \<Rightarrow> 'p option" where
  "place_of_target f end_of_program panic target = (case target of
      ToBlock j \<Rightarrow> place_of_block f j
    | ToFunctionEnd \<Rightarrow> Some (fn_end_place f)
    | ToProgramEnd \<Rightarrow> Some end_of_program
    | ToPanic \<Rightarrow> Some panic)"

text \<open>The transition \<open>t\<close> moves one token along the edge.\<close>

definition represents :: "('t \<Rightarrow> string) \<Rightarrow> ('p, 't) pnet \<Rightarrow> 'p mir_function \<Rightarrow> 'p \<Rightarrow> 'p \<Rightarrow> 't \<Rightarrow> edge \<Rightarrow> bool" where
  "represents transition_label P f end_of_program panic t e = (case e of (label, i, target) \<Rightarrow>
     transition_label t = label \<and>
     (\<exists>p q. place_of_block f i = Some p \<and> place_of_target f end_of_program panic target = Some q \<and>
        pn_pre P t = single p \<and> pn_post P t = single q))"

text \<open>
  \<open>P\<close> is \<open>P0\<close> with the transitions \<open>ts\<close>, one for each edge, and with places for the blocks of \<open>f\<close>.
\<close>

definition realises ::
  "('t \<Rightarrow> string) \<Rightarrow> ('p, 't) pnet \<Rightarrow> ('p, 't) pnet \<Rightarrow> 'p mir_function \<Rightarrow> 'p \<Rightarrow> 'p \<Rightarrow> 't list \<Rightarrow> edge list \<Rightarrow> bool" where
  "realises transition_label P0 P f end_of_program panic ts es \<longleftrightarrow>
     list_all2 (represents transition_label P f end_of_program panic) ts es \<and>
     distinct ts \<and> set ts \<inter> pn_transitions P0 = {} \<and> pn_transitions P = pn_transitions P0 \<union> set ts \<and>
     (\<forall>t \<in> pn_transitions P0. pn_pre P t = pn_pre P0 t \<and> pn_post P t = pn_post P0 t) \<and>
     pn_tokens P = pn_tokens P0 \<and>
     pn_places P = pn_places P0 \<union> {p. \<exists>i. place_of_block f i = Some p}"

lemma place_of_block_mono:
  "hm_get (fn_basic_blocks f) j = None \<Longrightarrow> place_of_block f i = Some p \<Longrightarrow>
   place_of_block (f\<lparr>fn_basic_blocks := hm_insert j b (fn_basic_blocks f)\<rparr>) i = Some p"
  by (auto simp: place_of_block_def)

lemma represents_mono:
  assumes "represents labels P f pe pp t e" "hm_get (fn_basic_blocks f) j = None" "pn_pre P' t = pn_pre P t" "pn_post P' t = pn_post P t"
  shows "represents labels P' (f\<lparr>fn_basic_blocks := hm_insert j b (fn_basic_blocks f)\<rparr>) pe pp t e"
  using assms place_of_block_mono [OF assms(2)] unfolding represents_def place_of_target_def
  by (auto split: prod.splits target.splits)

lemma realises_active [simp]:
  "place_of_block (f\<lparr>fn_active_block := x\<rparr>) = place_of_block f"
  "represents labels P (f\<lparr>fn_active_block := x\<rparr>) = represents labels P f"
  "realises labels P0 P (f\<lparr>fn_active_block := x\<rparr>) = realises labels P0 P f"
proof -
  show 1: "place_of_block (f\<lparr>fn_active_block := x\<rparr>) = place_of_block f"
    by (simp add: place_of_block_def fun_eq_iff)
  show 2: "represents labels P (f\<lparr>fn_active_block := x\<rparr>) = represents labels P f"
    by (simp add: represents_def fun_eq_iff 1 place_of_target_def cong: target.case_cong)
  show "realises labels P0 P (f\<lparr>fn_active_block := x\<rparr>) = realises labels P0 P f"
    by (simp add: realises_def fun_eq_iff 1 2)
qed

section \<open>The translation of one block\<close>

context labelled_petri_net
begin

text \<open>
  What holds while the blocks of a function are visited: the frame is valid, its blocks carry its
  name and their index, one block is on the start place and the places of the others carry their
  labels, and the net realises the edges of the terminators seen so far.
\<close>

definition blocks_named :: "'p mir_function \<Rightarrow> bool" where
  "blocks_named f \<longleftrightarrow> (\<forall>i b. hm_get (fn_basic_blocks f) i = Some b \<longrightarrow>
       block_function_name b = fn_name f \<and> block_idx b = i \<and>
       (block_place b = fn_start_place f \<or> place_label (block_place b) = basic_block_place_label (fn_name f) i)) \<and>
     (\<forall>i j b c. hm_get (fn_basic_blocks f) i = Some b \<longrightarrow> hm_get (fn_basic_blocks f) j = Some c \<longrightarrow>
       block_place b = fn_start_place f \<longrightarrow> block_place c = fn_start_place f \<longrightarrow> i = j)"

definition translates_to :: "'n \<Rightarrow> 'p \<Rightarrow> 'p \<Rightarrow> 'p mir_function \<Rightarrow> 'n \<Rightarrow> edge list \<Rightarrow> bool" where
  "translates_to net0 pe pp f net es \<longleftrightarrow> frame_ok (places net) f \<and> blocks_named f \<and>
     pe \<in> places net \<and> pp \<in> places net \<and>
     (\<exists>ts. realises transition_label (view net0) (view net) f pe pp ts es)"

lemma inj_block_label: "basic_block_place_label name i = basic_block_place_label name j \<longleftrightarrow> i = j"
  by (simp add: basic_block_place_label_def)

lemma insert_place_absorb: "p \<in> pn_places P \<Longrightarrow> insert_place p P = P"
  by (simp add: insert_place_def insert_absorb)

lemma blocks_named_insert:
  assumes "blocks_named f" "block_function_name b = fn_name f" "block_idx b = j"
    "if hm_is_empty (fn_basic_blocks f) then block_place b = fn_start_place f
     else block_place b \<noteq> fn_start_place f \<and> place_label (block_place b) = basic_block_place_label (fn_name f) j"
  shows "blocks_named (f\<lparr>fn_basic_blocks := hm_insert j b (fn_basic_blocks f)\<rparr>)"
  using assms unfolding blocks_named_def by (auto simp: hm_is_empty_iff split: if_splits)

lemma translates_to_insert_block:
  assumes inv: "translates_to net0 pe pp f net es"
    and b: "hm_get (fn_basic_blocks f) j = None" "blocks_named (f\<lparr>fn_basic_blocks := hm_insert j b (fn_basic_blocks f)\<rparr>)"
    and net': "view net' = insert_place (block_place b) (view net)"
  shows "translates_to net0 pe pp (f\<lparr>fn_basic_blocks := hm_insert j b (fn_basic_blocks f)\<rparr>) net' es"
    (is "translates_to net0 pe pp ?f net' es")
proof -
  from inv obtain ts where ts: "realises transition_label (view net0) (view net) f pe pp ts es"
    by (auto simp: translates_to_def)
  have "{p. \<exists>i. place_of_block ?f i = Some p} = insert (block_place b) {p. \<exists>i. place_of_block f i = Some p}"
    using b(1) place_of_block_mono [OF b(1)] by (auto simp: place_of_block_def split: if_splits) (metis option.simps(3))
  moreover have "list_all2 (represents transition_label (view net') ?f pe pp) ts es"
  proof (rule list_all2_mono)
    show "list_all2 (represents transition_label (view net) f pe pp) ts es" using ts by (simp add: realises_def)
    show "represents transition_label (view net') ?f pe pp t e" if "represents transition_label (view net) f pe pp t e" for t e
      using represents_mono [OF that b(1)] net' by simp
  qed
  ultimately have "realises transition_label (view net0) (view net') ?f pe pp ts es"
    using ts net' by (simp add: realises_def)
  moreover have "frame_ok (places net') ?f" "pe \<in> places net'" "pp \<in> places net'"
    using inv net' unfolding translates_to_def frame_ok_def by auto
  ultimately show ?thesis using b(2) unfolding translates_to_def by auto
qed

text \<open>
  The places that are new with respect to the net where the visit of the frame began are those of
  blocks.
\<close>

lemma new_place_of_block:
  assumes "translates_to net0 pe pp f net es" "fn_start_place f \<in> places net0" "p \<in> places net" "p \<notin> places net0"
  obtains i where "place_of_block f i = Some p" "place_label p = basic_block_place_label (fn_name f) i"
proof -
  from assms obtain i where i: "place_of_block f i = Some p" by (auto simp: translates_to_def realises_def)
  with assms have "p \<noteq> fn_start_place f" "blocks_named f" by (auto simp: translates_to_def)
  with i that show ?thesis by (auto simp: blocks_named_def place_of_block_def)
qed

text \<open>The place of a block that is not yet there gets a fresh label.\<close>

definition fresh_frame :: "'n \<Rightarrow> 'p mir_function \<Rightarrow> bool" where
  "fresh_frame net0 f \<longleftrightarrow> fn_start_place f \<in> places net0 \<and>
     (\<forall>j. hm_get (fn_basic_blocks f) j = None \<longrightarrow> basic_block_place_label (fn_name f) j \<notin> place_label ` places net0)"

lemma fresh_frame_kept: "frame_kept f f' \<Longrightarrow> fresh_frame net0 f \<Longrightarrow> fresh_frame net0 f'"
  using frame_kept_simps(2,3) [of f f'] frame_kept_block [of f f'] unfolding fresh_frame_def by (metis not_None_eq)

lemma absent_block_label:
  assumes "translates_to net0 pe pp f net es" "fresh_frame net0 f" "hm_get (fn_basic_blocks f) j = None"
  shows "basic_block_place_label (fn_name f) j \<notin> place_label ` places net"
proof
  assume "basic_block_place_label (fn_name f) j \<in> place_label ` places net"
  then obtain p where p: "p \<in> places net" "place_label p = basic_block_place_label (fn_name f) j" by force
  moreover have "p \<notin> places net0" using assms(2,3) p(2) by (force simp: fresh_frame_def)
  ultimately obtain i where "place_of_block f i = Some p" "i = j"
    using new_place_of_block [OF assms(1)] assms(2) by (metis fresh_frame_def inj_block_label)
  with assms(3) show False by (simp add: place_of_block_def)
qed

lemma add_block:
  assumes inv: "translates_to net0 pe pp f net es" and fresh: "fresh_frame net0 f"
  obtains f' net' where "add_basic_block_if_absent N j f net = Inr (f', net')"
    "translates_to net0 pe pp f' net' es" "frame_kept f f'" "hm_get (fn_basic_blocks f') j \<noteq> None"
proof (cases "hm_get (fn_basic_blocks f) j")
  case (Some b)
  show ?thesis
    by (rule that [of f net]) (use Some inv in \<open>simp_all add: add_basic_block_if_absent_def\<close>)
next
  case None
  obtain b net' where b: "basic_block_new N (fn_name f) j (prepare_start_place_for_next_basic_block f) net = (b, net')"
    by fastforce
  let ?f = "f\<lparr>fn_basic_blocks := hm_insert j b (fn_basic_blocks f)\<rparr>"
  have start: "fn_start_place f \<in> places net" using inv by (simp add: translates_to_def frame_ok_def)
  have names: "block_function_name b = fn_name f" "block_idx b = j"
    using b by (auto simp: basic_block_new_def split: prod.splits option.splits)
  have "view net' = insert_place (block_place b) (view net) \<and> (if hm_is_empty (fn_basic_blocks f) then block_place b = fn_start_place f
     else block_place b \<noteq> fn_start_place f \<and> place_label (block_place b) = basic_block_place_label (fn_name f) j)"
  proof (cases "hm_is_empty (fn_basic_blocks f)")
    case True
    with b start show ?thesis
      by (auto simp: basic_block_new_def prepare_start_place_for_next_basic_block_def insert_place_absorb)
  next
    case False
    from add_place_fresh [OF absent_block_label [OF inv fresh None]] b False start show ?thesis
      by (auto simp: basic_block_new_def prepare_start_place_for_next_basic_block_def split: prod.splits)
  qed
  moreover have "blocks_named f" using inv by (simp add: translates_to_def)
  ultimately have "translates_to net0 pe pp ?f net' es"
    using translates_to_insert_block [OF inv None] blocks_named_insert names by blast
  moreover have "add_basic_block_if_absent N j f net = Inr (?f, net')"
    using None b by (simp add: add_basic_block_if_absent_def add_basic_block_def)
  ultimately show ?thesis
    by (intro that [of ?f net']) (auto intro: frame_kept_insert [OF None])
qed

text \<open>A fresh transition from the place of a block to the place of a target is one more edge.\<close>

lemma add_edge:
  assumes inv: "translates_to net0 pe pp f net es"
    and fresh: "label \<notin> transition_label ` transitions net0" "label \<notin> set (map fst es)"
    and ends: "place_of_block f i = Some p" "place_of_target f pe pp target = Some q"
  obtains t net' where "connect_places N net p q label = Inr (t, net')"
    "translates_to net0 pe pp f net' (es @ [(label, i, target)])"
proof -
  from inv obtain ts where ts: "realises transition_label (view net0) (view net) f pe pp ts es"
    by (auto simp: translates_to_def)
  have labels: "map transition_label ts = map fst es"
  proof -
    have "list_all2 (\<lambda>t e. transition_label t = fst e) ts es"
      using ts unfolding realises_def represents_def by (auto elim!: list_all2_mono)
    then show ?thesis by induction simp_all
  qed
  have "transition_label ` transitions net = transition_label ` transitions net0 \<union> set (map fst es)"
    using ts labels [symmetric] by (auto simp: realises_def)
  then have new: "label \<notin> transition_label ` transitions net" using fresh by simp
  have "p \<in> places net" "q \<in> places net"
    using inv ends unfolding translates_to_def frame_ok_def place_of_block_def place_of_target_def
    by (auto split: target.splits)
  from connect_places_fresh [OF this new] obtain t net' where t: "connect_places N net p q label = Inr (t, net')"
    "t \<notin> transitions net" "transition_label t = label" "view net' = insert_edge t p q (view net)" .
  have z: "pn_pre (view net) t = (\<lambda>_. 0)" "pn_post (view net) t = (\<lambda>_. 0)"
    using no_dangling_arcs [OF t(2)] by simp_all
  have "list_all2 (represents transition_label (view net') f pe pp) ts es"
    using ts t(2,4) unfolding realises_def list_all2_conv_all_nth
    by (auto simp: represents_def split: prod.splits)
  moreover have "represents transition_label (view net') f pe pp t (label, i, target)"
    using t z ends by (auto simp: represents_def single_def fun_eq_iff)
  ultimately have "realises transition_label (view net0) (view net') f pe pp (ts @ [t]) (es @ [(label, i, target)])"
    using ts t by (auto simp: realises_def list_all2_appendI)
  then have "translates_to net0 pe pp f net' (es @ [(label, i, target)])"
    using inv t(4) by (auto simp: translates_to_def)
  with t(1) that show ?thesis by blast
qed

text \<open>The hypothesis on the labels of the edges to come.\<close>

definition fresh_edges :: "'n \<Rightarrow> edge list \<Rightarrow> edge list \<Rightarrow> bool" where
  "fresh_edges net0 es new \<longleftrightarrow> distinct (map fst new) \<and> set (map fst new) \<inter> set (map fst es) = {} \<and>
     set (map fst new) \<inter> transition_label ` transitions net0 = {}"

lemma fresh_edges_Cons:
  "fresh_edges net0 es (e # new) \<Longrightarrow> fresh_edges net0 (es @ [e]) new \<and>
     fst e \<notin> transition_label ` transitions net0 \<and> fst e \<notin> set (map fst es)"
  by (auto simp: fresh_edges_def)

lemma active_block:
  assumes "translates_to net0 pe pp f net es" "fn_active_block f = Some i"
  obtains a where "get_active_block f = Inr a" "place_of_block f i = Some (block_place a)"
    "block_function_name a = fn_name f" "block_idx a = i"
  using assms by (auto simp: translates_to_def frame_ok_def blocks_named_def get_active_block_def place_of_block_def)

text \<open>One edge from the active block to another block.\<close>

lemma block_edge:
  assumes inv: "translates_to net0 pe pp f net es" and frame: "fresh_frame net0 f" "fn_active_block f = Some i"
    and fresh: "fresh_edges net0 es ((label, i, ToBlock j) # new)"
  shows "\<exists>a b f' net' t net''. get_pair_active_block_target_block N j f net = Inr ((a, b), f', net') \<and>
    block_function_name a = fn_name f \<and> block_idx a = i \<and>
    connect_places N net' (block_place a) (block_place b) label = Inr (t, net'') \<and>
    translates_to net0 pe pp f' net'' (es @ [(label, i, ToBlock j)]) \<and> frame_kept f f' \<and>
    fresh_edges net0 (es @ [(label, i, ToBlock j)]) new"
proof -
  obtain f' net' where f': "add_basic_block_if_absent N j f net = Inr (f', net')" "translates_to net0 pe pp f' net' es"
      "frame_kept f f'" "hm_get (fn_basic_blocks f') j \<noteq> None"
    using add_block [OF inv frame(1)] .
  from f'(4) obtain b where b: "hm_get (fn_basic_blocks f') j = Some b" by blast
  have act: "fn_active_block f' = Some i" using f'(3) frame(2) by (simp add: frame_kept_simps)
  from active_block [OF f'(2) act] obtain a where a: "get_active_block f' = Inr a"
    "place_of_block f' i = Some (block_place a)" "block_function_name a = fn_name f'" "block_idx a = i" .
  note new = fresh_edges_Cons [OF fresh, simplified]
  obtain t net'' where "connect_places N net' (block_place a) (block_place b) label = Inr (t, net'')"
      "translates_to net0 pe pp f' net'' (es @ [(label, i, ToBlock j)])"
    by (rule add_edge [OF f'(2) _ _ a(2), of label "ToBlock j" "block_place b"])
      (use new b in \<open>auto simp: place_of_target_def place_of_block_def\<close>)
  with a b f' new show ?thesis
    by (intro exI [of _ a] exI [of _ b] exI [of _ f'] exI [of _ net'] exI [of _ t] exI [of _ net''])
      (auto simp: get_pair_active_block_target_block_def frame_kept_simps)
qed

text \<open>One edge from the active block to a place outside of the function's blocks.\<close>

lemma exit_edge:
  assumes inv: "translates_to net0 pe pp f net es" and act: "fn_active_block f = Some i"
    and fresh: "fresh_edges net0 es ((label, i, target) # new)"
    and q: "place_of_target f pe pp target = Some q"
  shows "\<exists>a t net'. get_active_block f = Inr a \<and> block_function_name a = fn_name f \<and> block_idx a = i \<and>
    connect_places N net (block_place a) q label = Inr (t, net') \<and>
    translates_to net0 pe pp f net' (es @ [(label, i, target)]) \<and>
    fresh_edges net0 (es @ [(label, i, target)]) new"
proof -
  from active_block [OF inv act] obtain a where a: "get_active_block f = Inr a"
    "place_of_block f i = Some (block_place a)" "block_function_name a = fn_name f" "block_idx a = i" .
  note new = fresh_edges_Cons [OF fresh, simplified]
  obtain t net' where "connect_places N net (block_place a) q label = Inr (t, net')"
      "translates_to net0 pe pp f net' (es @ [(label, i, target)])"
    by (rule add_edge [OF inv _ _ a(2) q, of label]) (use new in auto)
  with a new show ?thesis by auto
qed

text \<open>The contract of a terminator: it returns, and its edges are added.\<close>

definition adds :: "'n \<Rightarrow> 'p \<Rightarrow> 'p \<Rightarrow> 'p mir_function \<Rightarrow> edge list \<Rightarrow> edge list \<Rightarrow> ('p mir_function \<times> 'n) res \<Rightarrow> bool" where
  "adds net0 pe pp f es new r \<longleftrightarrow> (\<exists>f' net'. r = Inr (f', net') \<and> translates_to net0 pe pp f' net' (es @ new) \<and> frame_kept f f')"

lemma adds_goto:
  assumes "translates_to net0 pe pp f net es" "fresh_frame net0 f" "fn_active_block f = Some i"
    "fresh_edges net0 es (terminator_edges (fn_name f) i (Goto j))"
  shows "adds net0 pe pp f es (terminator_edges (fn_name f) i (Goto j)) (goto N j f net)"
  using block_edge [OF assms(1-3) assms(4) [unfolded terminator_edges.simps]]
  by (auto simp: adds_def goto_def block_goto_def)

lemma adds_switch_int:
  assumes "translates_to net0 pe pp f net es" "fresh_frame net0 f" "fn_active_block f = Some i"
    "fresh_edges net0 es (terminator_edges (fn_name f) i (SwitchInt js))"
  shows "adds net0 pe pp f es (terminator_edges (fn_name f) i (SwitchInt js)) (switch_int N js f net)"
  using assms
proof (induction js arbitrary: f net es)
  case Nil
  then show ?case by (simp add: adds_def switch_int_def)
next
  case (Cons j js)
  let ?l = "switch_int_transition_label (fn_name f) i j"
  from block_edge [OF Cons.prems(1-3), of ?l j "terminator_edges (fn_name f) i (SwitchInt js)"] Cons.prems(4)
  obtain a b f' net' t net'' where e: "get_pair_active_block_target_block N j f net = Inr ((a, b), f', net')"
    "block_function_name a = fn_name f" "block_idx a = i"
    "connect_places N net' (block_place a) (block_place b) ?l = Inr (t, net'')"
    "translates_to net0 pe pp f' net'' (es @ [(?l, i, ToBlock j)])" "frame_kept f f'"
    "fresh_edges net0 (es @ [(?l, i, ToBlock j)]) (terminator_edges (fn_name f) i (SwitchInt js))"
    by auto
  have "adds net0 pe pp f' (es @ [(?l, i, ToBlock j)]) (terminator_edges (fn_name f') i (SwitchInt js)) (switch_int N js f' net'')"
    by (rule Cons.IH) (use e Cons.prems fresh_frame_kept [OF e(6)] in \<open>simp_all add: frame_kept_simps\<close>)
  then show ?case
    using e by (auto simp: adds_def switch_int_def switch_int_to_def block_switch_int_def frame_kept_simps
        intro: frame_kept_trans)
qed

lemma adds_unwind:
  assumes "translates_to net0 pe pp f net es" "fn_active_block f = Some i"
    "fresh_edges net0 es [(unwind_transition_label (fn_name f) i, i, ToPanic)]"
  shows "adds net0 pe pp f es [(unwind_transition_label (fn_name f) i, i, ToPanic)]
    (and_then (unwind N pp f net) (\<lambda>(_, net). Inr (f, net)))"
  using exit_edge [OF assms, of pp] by (auto simp: adds_def unwind_def block_unwind_def place_of_target_def)

lemma adds_unreachable:
  assumes "translates_to net0 pe pp f net es" "fn_active_block f = Some i"
    "fresh_edges net0 es ((unreachable_transition_label (fn_name f) i, i, ToProgramEnd) # new)"
  shows "adds net0 pe pp f es [(unreachable_transition_label (fn_name f) i, i, ToProgramEnd)]
    (and_then (unreachable N pe f net) (\<lambda>net. Inr (f, net)))"
  using exit_edge [OF assms, of pe] by (auto simp: adds_def unreachable_def block_unreachable_def place_of_target_def)

lemma adds_return:
  assumes "translates_to net0 pe pp f net es" "fn_active_block f = Some i"
    "fresh_edges net0 es [(return_transition_label (fn_name f), i, ToFunctionEnd)]"
  shows "adds net0 pe pp f es [(return_transition_label (fn_name f), i, ToFunctionEnd)]
    (and_then (return_statement N f net) (\<lambda>net. Inr (f, net)))"
proof -
  have "hm_get (fn_basic_blocks f) i \<noteq> None" using assms(1,2) by (auto simp: translates_to_def frame_ok_def)
  then have "\<not> hm_is_empty (fn_basic_blocks f)" by (auto simp: hm_is_empty_iff)
  then show ?thesis
    using exit_edge [OF assms, of "fn_end_place f"]
    by (auto simp: adds_def return_statement_def prepare_start_place_for_return_statement_def place_of_target_def)
qed

text \<open>The contract of a sequence of two parts of a terminator.\<close>

lemma adds_seq:
  assumes "adds net0 pe pp f es e1 m" "fresh_frame net0 f" "fn_active_block f = Some i" "fn_name f = name"
    "\<And>f' net'. translates_to net0 pe pp f' net' (es @ e1) \<Longrightarrow> fresh_frame net0 f' \<Longrightarrow> fn_active_block f' = Some i \<Longrightarrow>
      fn_name f' = name \<Longrightarrow> adds net0 pe pp f' (es @ e1) e2 (k f' net')"
  shows "adds net0 pe pp f es (e1 @ e2) (and_then m (\<lambda>(f, net). k f net))"
proof -
  from assms(1) obtain f' net' where f': "m = Inr (f', net')" "translates_to net0 pe pp f' net' (es @ e1)" "frame_kept f f'"
    by (auto simp: adds_def)
  have "adds net0 pe pp f' (es @ e1) e2 (k f' net')"
    by (rule assms(5) [OF f'(2)]) (use f'(3) assms(2-4) fresh_frame_kept [OF f'(3)] in \<open>simp_all add: frame_kept_simps\<close>)
  with f' show ?thesis by (auto simp: adds_def intro: frame_kept_trans)
qed

lemma fresh_edges_append: "fresh_edges net0 es (e1 @ e2) \<Longrightarrow> fresh_edges net0 es e1 \<and> fresh_edges net0 (es @ e1) e2"
  by (auto simp: fresh_edges_def)

definition drop_part :: "block_index \<Rightarrow> 'p mir_function \<Rightarrow> 'n \<Rightarrow> ('p mir_function \<times> 'n) res" where
  "drop_part j f net = and_then (drop_terminator N j None f net) (\<lambda>(_, f, net). Inr (f, net))"

definition drop_cleanup_part :: "block_index \<Rightarrow> 'p mir_function \<Rightarrow> 'n \<Rightarrow> ('p mir_function \<times> 'n) res" where
  "drop_cleanup_part c f net =
     and_then (get_pair_active_block_target_block N c f net) (\<lambda>((active_block, cleanup_block), f, net).
     and_then (block_drop_cleanup N active_block cleanup_block net) (\<lambda>(_, net). Inr (f, net)))"

definition assert_cleanup_part :: "block_index \<Rightarrow> 'p mir_function \<Rightarrow> 'n \<Rightarrow> ('p mir_function \<times> 'n) res" where
  "assert_cleanup_part c f net =
     and_then (get_pair_active_block_target_block N c f net) (\<lambda>((active_block, cleanup_block), f, net).
     and_then (block_assert_cleanup N active_block cleanup_block net) (\<lambda>net. Inr (f, net)))"

lemma adds_parts:
  assumes "translates_to net0 pe pp f net es" "fresh_frame net0 f" "fn_active_block f = Some i" "fn_name f = name"
  shows "fresh_edges net0 es [drop_edges name i j] \<Longrightarrow>
      adds net0 pe pp f es [drop_edges name i j] (drop_part j f net)"
    "fresh_edges net0 es [(drop_cleanup_transition_label name i, i, ToBlock j)] \<Longrightarrow>
      adds net0 pe pp f es [(drop_cleanup_transition_label name i, i, ToBlock j)] (drop_cleanup_part j f net)"
    "fresh_edges net0 es [(assert_transition_label name i, i, ToBlock j)] \<Longrightarrow>
      adds net0 pe pp f es [(assert_transition_label name i, i, ToBlock j)] (assert_terminator N j None f net)"
    "fresh_edges net0 es [(assert_cleanup_transition_label name i, i, ToBlock j)] \<Longrightarrow>
      adds net0 pe pp f es [(assert_cleanup_transition_label name i, i, ToBlock j)] (assert_cleanup_part j f net)"
  using block_edge [OF assms(1-3)] unfolding assms(4) [symmetric]
  by (fastforce simp: adds_def drop_edges_def drop_part_def drop_terminator_def block_drop_def drop_cleanup_part_def
      block_drop_cleanup_def assert_terminator_def block_assert_def assert_cleanup_part_def block_assert_cleanup_def)+

lemma drop_terminator_parts:
  "and_then (drop_terminator N j (Some c) f net) (\<lambda>(_, f, net). Inr (f, net)) =
   and_then (drop_part j f net) (\<lambda>(f, net). drop_cleanup_part c f net)"
  by (auto simp: drop_terminator_def drop_part_def drop_cleanup_part_def and_then_def split: sum.splits prod.splits)

lemma assert_terminator_parts:
  "assert_terminator N j (Some c) f net =
   and_then (assert_terminator N j None f net) (\<lambda>(f, net). assert_cleanup_part c f net)"
  by (auto simp: assert_terminator_def assert_cleanup_part_def and_then_def split: sum.splits prod.splits)

lemma and_then_assoc: "and_then (and_then m f) g = and_then m (\<lambda>x. and_then (f x) g)"
  by (cases m) simp_all

lemma drop_memory:
  assumes "drop_terminator N j c f net = Inr (ts, f', net')"
  shows "fn_memory f' = fn_memory f"
proof -
  have pair: "fn_memory f1 = fn_memory f0" if "get_pair_active_block_target_block N i f0 n0 = Inr (ab, f1, n1)" for i f0 n0 ab f1 n1
    using that by (auto simp: get_pair_active_block_target_block_def add_basic_block_if_absent_def add_basic_block_def
        Let_def split: if_splits option.splits prod.splits)
  from assms show ?thesis by (auto simp: drop_terminator_def dest!: pair split: option.splits)
qed

text \<open>Dropping a value that is not a guard has no effect beyond the edges.\<close>

lemma visit_drop_plain:
  assumes "\<not> is_mutex_guard place (fn_memory f)"
  shows "visit_drop N place j on_unwind f st = (case on_unwind of
      Cleanup c \<Rightarrow> and_then (drop_part j f (tr_net st)) (\<lambda>(f, net). drop_cleanup_part c f net)
    | Unreachable_Unwind \<Rightarrow>
        and_then (and_then (unreachable N (program_end st) f (tr_net st)) (\<lambda>net. Inr (f, net))) (\<lambda>(f, net). drop_part j f net)
    | _ \<Rightarrow> drop_part j f (tr_net st))"
proof -
  let ?guards = "\<lambda>(ts :: 't \<times> 't option) (function :: 'p mir_function) net.
     let memory = fn_memory function
     in and_then (handle_mutex_guard_drop N place (fst ts) net memory (cells st)) (\<lambda>net.
        case snd ts of
          None \<Rightarrow> Inr (function, net)
        | Some cleanup_transition \<Rightarrow>
            and_then (handle_mutex_guard_drop N place cleanup_transition net memory (cells st)) (\<lambda>net.
            Inr (function, net)))"
  have "and_then (drop_terminator N j c f net) (\<lambda>(ts, function, net). ?guards ts function net) =
      and_then (drop_terminator N j c f net) (\<lambda>(_, f, net). Inr (f, net))" for c net
    using assms drop_memory [of j c f net]
    by (cases "drop_terminator N j c f net")
      (auto simp: handle_mutex_guard_drop_def Let_def split: option.split)
  note plain = this [unfolded case_prod_unfold]
  show ?thesis
    using drop_terminator_parts [of j _ f "tr_net st", unfolded drop_part_def]
    by (cases on_unwind)
      (simp_all add: visit_drop_def drop_part_def plain case_prod_unfold and_then_assoc)
qed

text \<open>Every local terminator adds its edges.\<close>

definition guard_free :: "'p mir_function \<Rightarrow> bool" where
  "guard_free f \<longleftrightarrow> (\<forall>place. \<not> is_mutex_guard place (fn_memory f))"

lemma adds_drop:
  assumes "translates_to net0 (program_end st) pp f (tr_net st) es" "fresh_frame net0 f" "fn_active_block f = Some i"
    "fresh_edges net0 es (terminator_edges (fn_name f) i (Drop place j on_unwind))" "guard_free f"
  shows "adds net0 (program_end st) pp f es (terminator_edges (fn_name f) i (Drop place j on_unwind))
    (visit_drop N place j on_unwind f st)"
proof -
  have plain: "\<not> is_mutex_guard place (fn_memory f)" using assms(5) by (simp add: guard_free_def)
  note edges = assms(4) [unfolded terminator_edges.simps]
  let ?d = "[drop_edges (fn_name f) i j]"
  show ?thesis
  proof (cases on_unwind)
    case (Cleanup c)
    let ?c = "[(drop_cleanup_transition_label (fn_name f) i, i, ToBlock c)]"
    have fresh: "fresh_edges net0 es ?d" "fresh_edges net0 (es @ ?d) ?c"
      using edges Cleanup fresh_edges_append [of net0 es ?d ?c] by auto
    have "adds net0 (program_end st) pp f es (?d @ ?c)
        (and_then (drop_part j f (tr_net st)) (\<lambda>(f, net). drop_cleanup_part c f net))"
      by (rule adds_seq [OF adds_parts(1) [OF assms(1-3) refl fresh(1)] assms(2,3) refl])
        (rule adds_parts(2) [OF _ _ _ _ fresh(2)])
    then show ?thesis by (simp add: visit_drop_plain [OF plain] Cleanup)
  next
    case Unreachable_Unwind
    let ?u = "[(unreachable_transition_label (fn_name f) i, i, ToProgramEnd)]"
    have fresh: "fresh_edges net0 es ?u" "fresh_edges net0 (es @ ?u) ?d"
      using edges Unreachable_Unwind fresh_edges_append [of net0 es ?u ?d] by auto
    have "adds net0 (program_end st) pp f es (?u @ ?d)
        (and_then (and_then (unreachable N (program_end st) f (tr_net st)) (\<lambda>net. Inr (f, net))) (\<lambda>(f, net). drop_part j f net))"
      by (rule adds_seq [OF adds_unreachable [OF assms(1,3) fresh(1)] assms(2,3) refl])
        (rule adds_parts(1) [OF _ _ _ _ fresh(2)])
    then show ?thesis by (simp add: visit_drop_plain [OF plain] Unreachable_Unwind)
  qed (use adds_parts(1) [OF assms(1-3) refl] edges in \<open>simp_all add: visit_drop_plain [OF plain]\<close>)
qed

lemma adds_assert:
  assumes "translates_to net0 (program_end st) pp f (tr_net st) es" "fresh_frame net0 f" "fn_active_block f = Some i"
    "fresh_edges net0 es (terminator_edges (fn_name f) i (Assert j on_unwind))"
  shows "adds net0 (program_end st) pp f es (terminator_edges (fn_name f) i (Assert j on_unwind))
    (visit_assert N j on_unwind f st)"
proof -
  note edges = assms(4) [unfolded terminator_edges.simps]
  let ?a = "[(assert_transition_label (fn_name f) i, i, ToBlock j)]"
  show ?thesis
  proof (cases on_unwind)
    case (Cleanup c)
    let ?c = "[(assert_cleanup_transition_label (fn_name f) i, i, ToBlock c)]"
    have fresh: "fresh_edges net0 es ?a" "fresh_edges net0 (es @ ?a) ?c"
      using edges Cleanup fresh_edges_append [of net0 es ?a ?c] by auto
    have "adds net0 (program_end st) pp f es (?a @ ?c)
        (and_then (assert_terminator N j None f (tr_net st)) (\<lambda>(f, net). assert_cleanup_part c f net))"
      by (rule adds_seq [OF adds_parts(3) [OF assms(1-3) refl fresh(1)] assms(2,3) refl])
        (rule adds_parts(4) [OF _ _ _ _ fresh(2)])
    then show ?thesis by (simp add: visit_assert_def assert_terminator_parts [symmetric] Cleanup)
  next
    case Unreachable_Unwind
    let ?u = "[(unreachable_transition_label (fn_name f) i, i, ToProgramEnd)]"
    have fresh: "fresh_edges net0 es ?a" "fresh_edges net0 (es @ ?a) ?u"
      using edges Unreachable_Unwind fresh_edges_append [of net0 es ?a ?u] by auto
    have "adds net0 (program_end st) pp f es (?a @ ?u) (and_then (assert_terminator N j None f (tr_net st))
        (\<lambda>(f, net). and_then (unreachable N (program_end st) f net) (\<lambda>net. Inr (f, net))))"
    proof (rule adds_seq [OF adds_parts(3) [OF assms(1-3) refl fresh(1)] assms(2,3) refl])
      fix f' net'
      assume f': "translates_to net0 (program_end st) pp f' net' (es @ ?a)" "fn_active_block f' = Some i"
        and "fn_name f' = fn_name f"
      with fresh(2) adds_unreachable [OF f', of "[]"]
      show "adds net0 (program_end st) pp f' (es @ ?a) ?u
          (and_then (unreachable N (program_end st) f' net') (\<lambda>net. Inr (f', net)))" by simp
    qed
    then show ?thesis by (simp add: visit_assert_def Unreachable_Unwind)
  qed (use adds_parts(3) [OF assms(1-3) refl] edges in \<open>simp_all add: visit_assert_def\<close>)
qed

text \<open>The visit of a terminator updates the net and the top frame.\<close>

definition visit_adds :: "('n, 'p, 't) translator \<Rightarrow> 'p mir_function stack \<Rightarrow> 'n \<Rightarrow> 'p mir_function \<Rightarrow> edge list \<Rightarrow> edge list \<Rightarrow>
    ('n, 'p, 't) translator res \<Rightarrow> bool" where
  "visit_adds st t net0 f es new r \<longleftrightarrow> (\<exists>f' net'. r = Inr (st\<lparr>tr_net := net', call_stack := push f' t\<rparr>) \<and>
     translates_to net0 (program_end st) (program_panic st) f' net' (es @ new) \<and> frame_kept f f')"

lemma visit_adds_update:
  assumes "adds net0 (program_end st) (program_panic st) f es new m"
    "r = and_then m (\<lambda>(f, net). Inr (st\<lparr>tr_net := net, call_stack := push f t\<rparr>))"
  shows "visit_adds st t net0 f es new r"
  using assms by (auto simp: adds_def visit_adds_def)

lemma visit_terminator_simps:
  assumes "call_stack st = push f t"
  shows "st\<lparr>tr_net := net, call_stack := push f t\<rparr> = st\<lparr>tr_net := net\<rparr>"
  using assms by (cases st) simp

lemmas visit_simps = visit_def visit_terminator_def Let_def and_then_assoc case_prod_unfold

lemma visit_exit:
  assumes "call_stack st = push f t" "translates_to net0 (program_end st) (program_panic st) f (tr_net st) es"
    "fn_active_block f = Some i" "fresh_edges net0 es (terminator_edges (fn_name f) i k)"
    "k \<in> {UnwindResume, UnwindTerminate, Return, Unreachable}"
  shows "visit_adds st t net0 f es (terminator_edges (fn_name f) i k) (visit N tcx rec (VisitTerminator k) st)"
proof -
  let ?r = "visit N tcx rec (VisitTerminator k) st"
  note simps = visit_simps assms(1) visit_terminator_simps [OF assms(1)]
  consider "k \<in> {UnwindResume, UnwindTerminate}" | "k = Return" | "k = Unreachable" using assms(5) by auto
  then show ?thesis
  proof cases
    case 1
    show ?thesis
      by (rule visit_adds_update [of _ _ _ _ _ "and_then (unwind N (program_panic st) f (tr_net st)) (\<lambda>(_, net). Inr (f, net))"])
        (use adds_unwind [OF assms(2,3)] assms(4) 1 in \<open>auto simp: simps\<close>)
  next
    case 2
    show ?thesis
      by (rule visit_adds_update [of _ _ _ _ _ "and_then (return_statement N f (tr_net st)) (\<lambda>net. Inr (f, net))"])
        (use adds_return [OF assms(2,3)] assms(4) 2 in \<open>simp_all add: simps\<close>)
  next
    case 3
    show ?thesis
      by (rule visit_adds_update [of _ _ _ _ _ "and_then (unreachable N (program_end st) f (tr_net st)) (\<lambda>net. Inr (f, net))"])
        (use adds_unreachable [OF assms(2,3)] assms(4) 3 in \<open>simp_all add: simps\<close>)
  qed
qed

lemma visit_local:
  assumes "call_stack st = push f t" "translates_to net0 (program_end st) (program_panic st) f (tr_net st) es"
    "fresh_frame net0 f" "fn_active_block f = Some i" "fresh_edges net0 es (terminator_edges (fn_name f) i k)"
    "is_local k" "guard_free f"
  shows "\<exists>f' net'. visit N tcx rec (VisitTerminator k) st = Inr (st\<lparr>tr_net := net', call_stack := push f' t\<rparr>) \<and>
    translates_to net0 (program_end st) (program_panic st) f' net' (es @ terminator_edges (fn_name f) i k) \<and> frame_kept f f'"
proof -
  note simps = visit_simps assms(1)
  have "visit_adds st t net0 f es (terminator_edges (fn_name f) i k) (visit N tcx rec (VisitTerminator k) st)"
  proof (cases k)
    case (Goto j)
    show ?thesis
      by (rule visit_adds_update [OF adds_goto [OF assms(2-4), of j, folded Goto]]) (use assms(5) Goto in \<open>simp_all add: simps\<close>)
  next
    case (SwitchInt js)
    show ?thesis
      by (rule visit_adds_update [OF adds_switch_int [OF assms(2-4), of js, folded SwitchInt]])
        (use assms(5) SwitchInt in \<open>simp_all add: simps\<close>)
  next
    case (Drop place j on_unwind)
    show ?thesis
      by (rule visit_adds_update [OF adds_drop [OF assms(2-4) _ assms(7), of place j on_unwind, folded Drop]])
        (use assms(5) Drop in \<open>simp_all add: simps\<close>)
  next
    case (Assert j on_unwind)
    show ?thesis
      by (rule visit_adds_update [OF adds_assert [OF assms(2-4), of j on_unwind, folded Assert]])
        (use assms(5) Assert in \<open>simp_all add: simps\<close>)
  qed (use visit_exit [OF assms(1,2,4,5)] assms(6) in \<open>simp_all add: is_local_def\<close>)
  then show ?thesis unfolding visit_adds_def .
qed

section \<open>The translation of a body\<close>

definition same_function :: "'p mir_function \<Rightarrow> 'p mir_function \<Rightarrow> bool" where
  "same_function f f' \<longleftrightarrow> fn_def_id f' = fn_def_id f \<and> fn_name f' = fn_name f \<and> fn_start_place f' = fn_start_place f \<and>
     fn_end_place f' = fn_end_place f \<and> fn_memory f' = fn_memory f \<and>
     (\<forall>i p. place_of_block f i = Some p \<longrightarrow> place_of_block f' i = Some p)"

lemma same_function_kept: "frame_kept f f' \<Longrightarrow> same_function f f'"
  by (auto simp: same_function_def frame_kept_simps place_of_block_def dest: frame_kept_block)

lemma same_function_facts:
  assumes "same_function f f'"
  shows "fresh_frame net0 f \<Longrightarrow> fresh_frame net0 f'" "guard_free f' \<longleftrightarrow> guard_free f" "fn_name f' = fn_name f"
proof -
  have "hm_get (fn_basic_blocks f) j = None" if "hm_get (fn_basic_blocks f') j = None" for j
    using assms that by (cases "hm_get (fn_basic_blocks f) j") (auto simp: same_function_def place_of_block_def dest!: spec [of _ j])
  then show "fresh_frame net0 f \<Longrightarrow> fresh_frame net0 f'" "guard_free f' \<longleftrightarrow> guard_free f" "fn_name f' = fn_name f"
    using assms by (auto simp: same_function_def fresh_frame_def guard_free_def)
qed

lemma translates_to_activate:
  assumes "translates_to net0 pe pp f net es" "hm_get (fn_basic_blocks f) i \<noteq> None"
  shows "translates_to net0 pe pp (f\<lparr>fn_active_block := Some i\<rparr>) net es"
  using assms by (auto simp: translates_to_def frame_ok_def blocks_named_def)

lemma visit_block:
  assumes "call_stack st = push f t" "translates_to net0 (program_end st) (program_panic st) f (tr_net st) es" "fresh_frame net0 f"
  shows "\<exists>f' net'. visit N tcx rec (VisitBasicBlockData i) st = Inr (st\<lparr>tr_net := net', call_stack := push f' t\<rparr>) \<and>
    translates_to net0 (program_end st) (program_panic st) f' net' es \<and> same_function f f' \<and> fn_active_block f' = Some i \<and>
    (hm_is_empty (fn_basic_blocks f) \<longrightarrow> place_of_block f' i = Some (fn_start_place f))"
proof -
  obtain f' net' where f': "add_basic_block_if_absent N i f (tr_net st) = Inr (f', net')"
      "translates_to net0 (program_end st) (program_panic st) f' net' es" "frame_kept f f'" "hm_get (fn_basic_blocks f') i \<noteq> None"
    using add_block [OF assms(2,3)] .
  let ?f = "f'\<lparr>fn_active_block := Some i\<rparr>"
  have "visit N tcx rec (VisitBasicBlockData i) st = Inr (st\<lparr>tr_net := net', call_stack := push ?f t\<rparr>)"
    by (simp add: visit_def visit_basic_block_data_def assms(1) activate_block_def f'(1))
  moreover have "same_function f ?f" using same_function_kept [OF f'(3)] by (simp add: same_function_def)
  moreover have "place_of_block ?f i = Some (fn_start_place f)" if "hm_is_empty (fn_basic_blocks f)"
    using f'(1) that by (auto simp: add_basic_block_if_absent_def add_basic_block_def basic_block_new_def
        prepare_start_place_for_next_basic_block_def place_of_block_def hm_is_empty_iff split: if_splits)
  ultimately show ?thesis using translates_to_activate [OF f'(2,4)] by (intro exI [of _ ?f] exI [of _ net']) simp
qed

lemma visits_body:
  assumes "call_stack st = push f t" "translates_to net0 (program_end st) (program_panic st) f (tr_net st) es"
    "fresh_frame net0 f" "guard_free f" "list_all (\<lambda>(i, k). is_local k) blocks"
    "fresh_edges net0 es (cfg_edges (fn_name f) blocks)"
  shows "\<exists>f' net'. try_fold (visit N tcx rec) (cfg_visits blocks) st = Inr (st\<lparr>tr_net := net', call_stack := push f' t\<rparr>) \<and>
    translates_to net0 (program_end st) (program_panic st) f' net' (es @ cfg_edges (fn_name f) blocks) \<and> same_function f f' \<and>
    (hm_is_empty (fn_basic_blocks f) \<longrightarrow> blocks \<noteq> [] \<longrightarrow> place_of_block f' (fst (hd blocks)) = Some (fn_start_place f))"
  using assms
proof (induction blocks arbitrary: st f es)
  case Nil
  then show ?case
    by (intro exI [of _ f] exI [of _ "tr_net st"]) (simp add: cfg_edges_def cfg_visits_def same_function_def)
next
  case (Cons b blocks)
  obtain i k where b: "b = (i, k)" by fastforce
  let ?e = "terminator_edges (fn_name f) i k"
  have fresh: "fresh_edges net0 es ?e" "fresh_edges net0 (es @ ?e) (cfg_edges (fn_name f) blocks)"
    using Cons.prems(6) fresh_edges_append [of net0 es ?e "cfg_edges (fn_name f) blocks"] b by (auto simp: cfg_edges_def)
  from visit_block [OF Cons.prems(1-3), of tcx rec i] obtain f1 net1 where 1:
    "visit N tcx rec (VisitBasicBlockData i) st = Inr (st\<lparr>tr_net := net1, call_stack := push f1 t\<rparr>)"
    "translates_to net0 (program_end st) (program_panic st) f1 net1 es" "same_function f f1" "fn_active_block f1 = Some i"
    "hm_is_empty (fn_basic_blocks f) \<longrightarrow> place_of_block f1 i = Some (fn_start_place f)" by blast
  note same1 = same_function_facts [OF 1(3)]
  from visit_local [of "st\<lparr>tr_net := net1, call_stack := push f1 t\<rparr>" f1 t net0 es i k tcx rec] 1(2,4) fresh(1) same1
    Cons.prems(3-5) b
  obtain f2 net2 where 2: "visit N tcx rec (VisitTerminator k) (st\<lparr>tr_net := net1, call_stack := push f1 t\<rparr>) =
      Inr (st\<lparr>tr_net := net2, call_stack := push f2 t\<rparr>)"
    "translates_to net0 (program_end st) (program_panic st) f2 net2 (es @ ?e)" "same_function f1 f2"
    by (auto intro: same_function_kept)
  note same2 = same_function_facts [OF 2(3)]
  have same: "same_function f f2" using 1(3) 2(3) by (simp add: same_function_def)
  from Cons.IH [of "st\<lparr>tr_net := net2, call_stack := push f2 t\<rparr>" f2 "es @ ?e"] 2(2) fresh(2) same1 same2 Cons.prems(3-5)
  obtain f3 net3 where "try_fold (visit N tcx rec) (cfg_visits blocks) (st\<lparr>tr_net := net2, call_stack := push f2 t\<rparr>) =
      Inr (st\<lparr>tr_net := net3, call_stack := push f3 t\<rparr>)"
    "translates_to net0 (program_end st) (program_panic st) f3 net3 ((es @ ?e) @ cfg_edges (fn_name f) blocks)" "same_function f2 f3"
    by auto
  with 1(1,3,5) 2(1,3) b same show ?case
    by (intro exI [of _ f3] exI [of _ net3]) (auto simp: cfg_visits_def cfg_edges_def same_function_def)
qed

lemma realises_nothing: "realises labels P P (mir_function_new d name s e) pe pp [] []"
  by (simp add: realises_def place_of_block_def mir_function_new_def)

lemma translates_function:
  assumes "call_stack st = push (mir_function_new d name s e) t"
    "{s, e, program_end st, program_panic st} \<subseteq> places (tr_net st)"
    "\<And>j. basic_block_place_label name j \<notin> place_label ` places (tr_net st)"
    "list_all (\<lambda>(i, k). is_local k) blocks" "distinct (map fst (cfg_edges name blocks))"
    "set (map fst (cfg_edges name blocks)) \<inter> transition_label ` transitions (tr_net st) = {}"
    "visit_body tcx d = cfg_visits blocks"
  shows "\<exists>f net' ts. translate_top_call_stack N tcx (Suc depth) st = Inr (st\<lparr>tr_net := net', call_stack := t\<rparr>) \<and>
    fn_end_place f = e \<and> (blocks \<noteq> [] \<longrightarrow> place_of_block f (fst (hd blocks)) = Some s) \<and>
    realises transition_label (view (tr_net st)) (view net') f (program_end st) (program_panic st) ts (cfg_edges name blocks)"
proof -
  let ?f = "mir_function_new d name s e"
  have names: "fn_name ?f = name" "fn_start_place ?f = s" "fn_end_place ?f = e" "fn_basic_blocks ?f = hm_new"
    by (simp_all add: mir_function_new_def)
  have "translates_to (tr_net st) (program_end st) (program_panic st) ?f (tr_net st) []"
    using assms(2) realises_nothing [of transition_label "view (tr_net st)" d name s e]
    by (auto simp: translates_to_def blocks_named_def names)
  from visits_body [OF assms(1) this, of blocks tcx "translate_top_call_stack N tcx depth"] assms(2-6)
  obtain f net' where f: "try_fold (visit N tcx (translate_top_call_stack N tcx depth)) (cfg_visits blocks) st =
      Inr (st\<lparr>tr_net := net', call_stack := push f t\<rparr>)"
    "translates_to (tr_net st) (program_end st) (program_panic st) f net' (cfg_edges name blocks)" "same_function ?f f"
    "blocks \<noteq> [] \<longrightarrow> place_of_block f (fst (hd blocks)) = Some s"
    by (auto simp: names fresh_frame_def guard_free_def is_mutex_guard_def memory_default_def fresh_edges_def hm_is_empty_iff)
  then obtain ts where "realises transition_label (view (tr_net st)) (view net') f (program_end st) (program_panic st) ts
      (cfg_edges name blocks)" by (auto simp: translates_to_def)
  with f assms(1,7) show ?thesis
    by (intro exI [of _ f] exI [of _ net'] exI [of _ ts]) (auto simp: same_function_def names)
qed

end

section \<open>The net of a control flow graph\<close>

text \<open>
  A net that realises a graph from a net without transitions and with one token is a state machine:
  the token is always on the start place or on the place of a target, and it can move on along every
  edge of the block it is on.
\<close>

lemma single_le: "(\<forall>r. single p r \<le> single q r) \<longleftrightarrow> p = q"
  by (auto simp: single_def split: if_splits)

lemma realises_transition:
  assumes "realises labels P0 P f pe pp ts es" "pn_transitions P0 = {}" "t \<in> pn_transitions P"
  obtains label i target p q where "(label, i, target) \<in> set es" "place_of_block f i = Some p"
    "place_of_target f pe pp target = Some q" "pn_pre P t = single p" "pn_post P t = single q"
proof -
  from assms have "t \<in> set ts" "list_all2 (represents labels P f pe pp) ts es" by (auto simp: realises_def)
  then obtain e where "e \<in> set es" "represents labels P f pe pp t e"
    by (metis in_set_conv_nth list_all2_conv_all_nth)
  with that show ?thesis by (auto simp: represents_def split: prod.splits)
qed

lemma realises_edge:
  assumes "realises labels P0 P f pe pp ts es" "(label, i, target) \<in> set es"
  obtains t p q where "t \<in> pn_transitions P" "place_of_block f i = Some p"
    "place_of_target f pe pp target = Some q" "pn_pre P t = single p" "pn_post P t = single q"
proof -
  from assms(1) have "list_all2 (represents labels P f pe pp) ts es" "set ts \<subseteq> pn_transitions P"
    by (auto simp: realises_def)
  with assms(2) obtain t where "t \<in> pn_transitions P" "represents labels P f pe pp t (label, i, target)"
    by (metis in_set_conv_nth list_all2_conv_all_nth subsetD)
  with that show ?thesis by (auto simp: represents_def)
qed

lemma token_position:
  assumes "realises labels P0 P f pe pp ts es" "pn_transitions P0 = {}" "pn_tokens P0 = single s" "reachable P m"
  shows "\<exists>p. m = single p \<and> (p = s \<or> (\<exists>label i target. (label, i, target) \<in> set es \<and>
    place_of_target f pe pp target = Some p))"
  using assms(4)
proof induction
  case initial
  have "pn_tokens P = single s" using assms(1,3) by (simp add: realises_def)
  then show ?case by (intro exI [of _ s]) simp
next
  case (fires m t)
  then obtain p where p: "m = single p" by blast
  from fires(2) have t: "t \<in> pn_transitions P" "\<forall>r. pn_pre P t r \<le> m r" by (auto simp: enabled_def)
  obtain label i target p' q where e: "(label, i, target) \<in> set es" "place_of_target f pe pp target = Some q"
      "pn_pre P t = single p'" "pn_post P t = single q"
    by (rule realises_transition [OF assms(1,2) t(1)])
  then have "p' = p" using t(2) p by (simp add: single_le)
  then have "fire P t m = single q" using e p by (auto simp: fire_def single_def fun_eq_iff)
  with e show ?case by blast
qed

text \<open>The blocks of the graph lead on: each has an edge, and all its targets are blocks of the graph.\<close>

definition closed_cfg :: "string \<Rightarrow> cfg \<Rightarrow> bool" where
  "closed_cfg name blocks \<longleftrightarrow> blocks \<noteq> [] \<and>
     list_all (\<lambda>(i, terminator). terminator_edges name i terminator \<noteq> [] \<and>
       list_all (\<lambda>(_, _, target). case target of ToBlock j \<Rightarrow> j \<in> set (map fst blocks) | _ \<Rightarrow> True)
         (terminator_edges name i terminator)) blocks"

lemma terminator_edges_source: "e \<in> set (terminator_edges name i k) \<Longrightarrow> fst (snd e) = i"
  by (cases k) (auto simp: drop_edges_def split: unwind_action.splits)

lemma closed_cfg_edge:
  assumes "closed_cfg name blocks" "i \<in> set (map fst blocks)"
  obtains label target where "(label, i, target) \<in> set (cfg_edges name blocks)"
proof -
  from assms(2) obtain k where k: "(i, k) \<in> set blocks" by auto
  with assms(1) obtain e where "e \<in> set (terminator_edges name i k)"
    by (fastforce simp: closed_cfg_def list_all_iff neq_Nil_conv)
  with k terminator_edges_source [OF this] that show ?thesis
    by (cases e) (force simp: cfg_edges_def)
qed

lemma closed_cfg_target:
  "closed_cfg name blocks \<Longrightarrow> (label, i, ToBlock j) \<in> set (cfg_edges name blocks) \<Longrightarrow> j \<in> set (map fst blocks)"
  by (fastforce simp: closed_cfg_def cfg_edges_def list_all_iff)

lemma graph_never_deadlocks:
  assumes real: "realises labels P0 P f pe pp ts (cfg_edges name blocks)"
    and P0: "pn_transitions P0 = {}" "pn_tokens P0 = single s"
    and f: "place_of_block f (fst (hd blocks)) = Some s" "fn_end_place f = pe" and closed: "closed_cfg name blocks"
  shows "\<not> can_deadlock P pe pp"
proof
  assume "can_deadlock P pe pp"
  then obtain m where m: "reachable P m" "dead P m" "m pe = 0" "m pp = 0" by (auto simp: can_deadlock_def)
  from token_position [OF real P0 m(1)] obtain p where p: "m = single p"
    "p = s \<or> (\<exists>label i target. (label, i, target) \<in> set (cfg_edges name blocks) \<and> place_of_target f pe pp target = Some p)"
    by blast
  have "p \<noteq> pe" "p \<noteq> pp" using m p(1) by (auto simp: single_def)
  have "\<exists>i \<in> set (map fst blocks). place_of_block f i = Some p"
    using p(2)
  proof
    assume "p = s"
    moreover have "fst (hd blocks) \<in> set (map fst blocks)" using closed by (cases blocks) (auto simp: closed_cfg_def)
    ultimately show ?thesis using f(1) by blast
  next
    assume "\<exists>label i target. (label, i, target) \<in> set (cfg_edges name blocks) \<and> place_of_target f pe pp target = Some p"
    then show ?thesis
      using \<open>p \<noteq> pe\<close> \<open>p \<noteq> pp\<close> f(2) closed_cfg_target [OF closed]
      by (fastforce simp: place_of_target_def split: target.splits)
  qed
  then obtain i where i: "i \<in> set (map fst blocks)" "place_of_block f i = Some p" by blast
  from closed_cfg_edge [OF closed i(1)] obtain label target where "(label, i, target) \<in> set (cfg_edges name blocks)" .
  from realises_edge [OF real this] i(2) obtain t where "t \<in> pn_transitions P" "pn_pre P t = single p" by (metis option.inject)
  then have "enabled P m t" by (simp add: enabled_def p(1))
  with m(2) show False by (simp add: dead_def)
qed

section \<open>Labels of a function\<close>

definition block_labels :: "string \<Rightarrow> block_index \<Rightarrow> string set" where
  "block_labels name i = {goto_transition_label name i, unwind_transition_label name i, unreachable_transition_label name i,
     drop_transition_label name i, drop_cleanup_transition_label name i, assert_transition_label name i,
     assert_cleanup_transition_label name i} \<union> range (switch_int_transition_label name i)"

lemma block_labels_disjoint: "label \<in> block_labels name i \<Longrightarrow> label \<in> block_labels name j \<Longrightarrow> i = j"
  by (auto simp: block_labels_def basic_block_label_defs dest: show_nat_eq_Cons show_nat_eq_Cons [OF sym])

lemma return_label_not_block: "return_transition_label name \<notin> block_labels name i"
  by (auto simp: block_labels_def basic_block_label_defs)

lemma terminator_labels: "e \<in> set (terminator_edges name i k) \<Longrightarrow>
    fst e \<in> block_labels name i \<or> k = Return \<and> fst e = return_transition_label name"
  by (cases k) (auto simp: block_labels_def drop_edges_def split: unwind_action.splits)

text \<open>
  The graphs whose labels are distinct: a block occurs once, a switch has no repeated target, and
  there is one \<open>Return\<close> at most, since its label does not name the block.
\<close>

definition simple_cfg :: "cfg \<Rightarrow> bool" where
  "simple_cfg blocks \<longleftrightarrow> distinct (map fst blocks) \<and>
     list_all (\<lambda>(_, terminator). case terminator of SwitchInt js \<Rightarrow> distinct js | _ \<Rightarrow> True) blocks \<and>
     length (filter (\<lambda>(_, terminator). terminator = Return) blocks) \<le> 1"

lemma distinct_terminator_labels:
  assumes "\<And>js. k = SwitchInt js \<Longrightarrow> distinct js"
  shows "distinct (map fst (terminator_edges name i k))"
proof (cases k)
  case (SwitchInt js)
  have "inj_on (switch_int_transition_label name i) (set js)" by (rule inj_onI) (simp add: switch_int_transition_label_def)
  with SwitchInt assms show ?thesis by (simp add: distinct_map comp_def)
qed (auto simp: drop_edges_def basic_block_label_defs split: unwind_action.splits)

lemma simple_cfg_labels: "simple_cfg blocks \<Longrightarrow> distinct (map fst (cfg_edges name blocks))"
proof (induction blocks)
  case (Cons b blocks)
  obtain i k where b: "b = (i, k)" by fastforce
  have "simple_cfg blocks" using Cons.prems by (auto simp: simple_cfg_def split: if_splits)
  moreover have "distinct (map fst (terminator_edges name i k))"
    using Cons.prems b by (intro distinct_terminator_labels) (auto simp: simple_cfg_def)
  moreover have "fst e \<noteq> fst e'" if e: "e \<in> set (terminator_edges name i k)" and e': "e' \<in> set (terminator_edges name i' k')"
    "(i', k') \<in> set blocks" for e e' i' k'
  proof
    assume same: "fst e = fst e'"
    have "i \<noteq> i'" using Cons.prems b e'(2) by (force simp: simple_cfg_def)
    moreover have "\<not> (k = Return \<and> k' = Return)"
      using Cons.prems b e'(2) by (fastforce simp: simple_cfg_def filter_empty_conv)
    ultimately show False
      using terminator_labels [OF e] terminator_labels [OF e'(1)] same return_label_not_block
      by (metis block_labels_disjoint)
  qed
  ultimately show ?case using Cons.IH b by (auto simp: cfg_edges_def)
qed (simp add: cfg_edges_def)

section \<open>Programs without calls\<close>

lemma block_label_not_program:
  "basic_block_place_label name j \<notin> {PROGRAM_PANIC, PROGRAM_END, PROGRAM_START}"
proof -
  have "last (basic_block_place_label name j) \<in> set ''0123456789''"
    using subsetD [OF set_show_nat last_in_set [OF show_nat_not_Nil(1)], of j] by (simp add: basic_block_place_label_def)
  then show ?thesis by (auto simp: PROGRAM_PANIC_def PROGRAM_END_def PROGRAM_START_def)
qed

context labelled_petri_net
begin

lemma translator_new_net:
  obtains st where "translator_new N = Inr st" "transitions (tr_net st) = {}" "pn_tokens (view (tr_net st)) = single (program_start st)"
    "places (tr_net st) = {program_panic st, program_end st, program_start st}"
    "place_label ` places (tr_net st) = {PROGRAM_PANIC, PROGRAM_END, PROGRAM_START}"
    "call_stack st = stack_new" "threads st = []" "postprocessing st = heap_new"
    "place_label (program_panic st) = PROGRAM_PANIC" "place_label (program_end st) = PROGRAM_END"
    "place_label (program_start st) = PROGRAM_START"
proof -
  obtain p1 n1 where p1: "net_add_place N PROGRAM_PANIC (net_new N) = (p1, n1)" by fastforce
  obtain p2 n2 where p2: "net_add_place N PROGRAM_END n1 = (p2, n2)" by fastforce
  obtain p3 n3 where p3: "net_add_place N PROGRAM_START n2 = (p3, n3)" by fastforce
  have v1: "place_label p1 = PROGRAM_PANIC" "view n1 = insert_place p1 (view (net_new N))"
    using add_place_fresh [OF _ p1] new_net by simp_all
  have v2: "place_label p2 = PROGRAM_END" "view n2 = insert_place p2 (view n1)"
    using add_place_fresh [OF _ p2] new_net v1 by (simp_all add: PROGRAM_PANIC_def PROGRAM_END_def)
  have v3: "place_label p3 = PROGRAM_START" "view n3 = insert_place p3 (view n2)"
    using add_place_fresh [OF _ p3] new_net v1 v2 by (simp_all add: PROGRAM_PANIC_def PROGRAM_END_def PROGRAM_START_def)
  have tokens: "pn_tokens (view (net_new N)) = (\<lambda>_. 0)" using no_dangling_tokens new_net by auto
  then have "pn_tokens (view n3) p3 + 1 < 2 ^ 64" using v1(2) v2(2) v3(2) by simp
  moreover have "p3 \<in> places n3" using v3(2) by simp
  ultimately obtain n4 where n4: "add_token N n3 p3 1 = Inr n4" "view n4 = insert_tokens p3 1 (view n3)"
    by (metis add_token_new)
  show ?thesis
    by (rule that) (use p1 p2 p3 n4 v1 v2 v3 tokens new_net in
      \<open>auto simp: translator_new_def single_def fun_eq_iff\<close>)
qed

lemma run_call_free:
  assumes "entry_fn tcx = Some d" "visit_body tcx d = cfg_visits blocks" "list_all (\<lambda>(i, k). is_local k) blocks"
    "simple_cfg blocks" "blocks \<noteq> []"
  obtains st f ts P0 where "and_then (translator_new N) (run N tcx (Suc depth) rounds) = Inr st"
    "pn_places P0 = {program_panic st, program_end st, program_start st}"
    "place_label (program_panic st) = PROGRAM_PANIC" "place_label (program_end st) = PROGRAM_END"
    "place_label (program_start st) = PROGRAM_START"
    "pn_transitions P0 = {}" "pn_tokens P0 = single (program_start st)" "fn_end_place f = program_end st"
    "place_of_block f (fst (hd blocks)) = Some (program_start st)"
    "realises transition_label P0 (view (tr_net st)) f (program_end st) (program_panic st) ts
      (cfg_edges (def_path_str tcx d) blocks)"
proof -
  obtain st where st: "translator_new N = Inr st" "transitions (tr_net st) = {}"
    "pn_tokens (view (tr_net st)) = single (program_start st)"
    "places (tr_net st) = {program_panic st, program_end st, program_start st}"
    "place_label ` places (tr_net st) = {PROGRAM_PANIC, PROGRAM_END, PROGRAM_START}"
    "call_stack st = stack_new" "threads st = []" "postprocessing st = heap_new"
    "place_label (program_panic st) = PROGRAM_PANIC" "place_label (program_end st) = PROGRAM_END"
    "place_label (program_start st) = PROGRAM_START"
    by (rule translator_new_net)
  let ?st = "push_function_to_call_stack tcx d (program_start st) (program_end st) st"
  have "\<exists>f net' ts. translate_top_call_stack N tcx (Suc depth) ?st = Inr (?st\<lparr>tr_net := net', call_stack := stack_new\<rparr>) \<and>
      fn_end_place f = program_end st \<and> (blocks \<noteq> [] \<longrightarrow> place_of_block f (fst (hd blocks)) = Some (program_start st)) \<and>
      realises transition_label (view (tr_net ?st)) (view net') f (program_end ?st) (program_panic ?st) ts
        (cfg_edges (def_path_str tcx d) blocks)"
    by (rule translates_function)
      (use st assms block_label_not_program simple_cfg_labels in \<open>auto simp: push_function_to_call_stack_def\<close>)
  then obtain f net' ts where "translate_top_call_stack N tcx (Suc depth) ?st = Inr (?st\<lparr>tr_net := net', call_stack := stack_new\<rparr>)"
    "fn_end_place f = program_end st" "place_of_block f (fst (hd blocks)) = Some (program_start st)"
    "realises transition_label (view (tr_net st)) (view net') f (program_end st) (program_panic st) ts
      (cfg_edges (def_path_str tcx d) blocks)"
    using assms(5) by (auto simp: push_function_to_call_stack_def)
  moreover have "translate_threads N tcx k rounds st' = Inr st'" if "threads st' = []" for k st'
    using that by (cases rounds) simp_all
  moreover have "run_tasks N c [] heap_new net = Inr net" for c net
    by (subst run_tasks.simps) (simp add: heap_new_def heap_pop_def)
  ultimately show ?thesis
    by (intro that [of "st\<lparr>tr_net := net', call_stack := stack_new, postprocessing := heap_new\<rparr>" "view (tr_net st)" f ts])
      (use st assms(1) in \<open>auto simp: run_def push_function_to_call_stack_def translation_postprocessing_def\<close>)
qed

end


text \<open>
  A program without calls is never reported to deadlock: if moreover every block leads on to
  blocks of the body, then no reachable marking of the translated net is dead unless the token is on
  \<open>PROGRAM_END\<close> or \<open>PROGRAM_PANIC\<close>.
\<close>

theorem call_free_program_never_deadlocks:
  assumes "labelled_petri_net N view place_label transition_label"
    "entry_fn tcx = Some d" "visit_body tcx d = cfg_visits blocks"
    "list_all (\<lambda>(i, terminator). is_local terminator) blocks" "simple_cfg blocks"
    "closed_cfg (def_path_str tcx d) blocks"
  shows "\<exists>st. and_then (translator_new N) (run N tcx (Suc depth) rounds) = Inr st \<and>
    place_label (program_end st) = PROGRAM_END \<and> place_label (program_panic st) = PROGRAM_PANIC \<and>
    \<not> can_deadlock (view (tr_net st)) (program_end st) (program_panic st)"
proof -
  have "blocks \<noteq> []" using assms(6) by (simp add: closed_cfg_def)
  from labelled_petri_net.run_call_free [OF assms(1-5) this] obtain st f ts P0 where
    "and_then (translator_new N) (run N tcx (Suc depth) rounds) = Inr st"
    "place_label (program_panic st) = PROGRAM_PANIC" "place_label (program_end st) = PROGRAM_END"
    "pn_transitions P0 = {}" "pn_tokens P0 = single (program_start st)" "fn_end_place f = program_end st"
    "place_of_block f (fst (hd blocks)) = Some (program_start st)"
    "realises transition_label P0 (view (tr_net st)) f (program_end st) (program_panic st) ts
      (cfg_edges (def_path_str tcx d) blocks)" .
  with graph_never_deadlocks assms(6) show ?thesis by metis
qed

text \<open>A loop with an exit: \<open>statement/infinite_loop.rs\<close> with a switch.\<close>

definition loop_blocks :: cfg where
  "loop_blocks = [(0, Goto 1), (1, SwitchInt [2, 3]), (2, Goto 1), (3, Return)]"

definition loop_program :: rustc where
  "loop_program = program [''main''] [] [cfg_visits loop_blocks]"

lemma loop_program_facts:
  "entry_fn loop_program = Some 0" "visit_body loop_program 0 = cfg_visits loop_blocks"
  "list_all (\<lambda>(i, terminator). is_local terminator) loop_blocks" "simple_cfg loop_blocks" "loop_blocks \<noteq> []"
  by (simp_all add: loop_program_def program_def nth_or_def loop_blocks_def is_local_def simple_cfg_def)


theorem call_free_program_never_deadlocks_witness:
  "\<exists>st. and_then (translator_new simple_netcrab) (run simple_netcrab loop_program 1 0) = Inr st \<and>
    program_end st = PROGRAM_END \<and> program_panic st = PROGRAM_PANIC \<and> \<not> can_deadlock (sn_view (tr_net st)) (program_end st) (program_panic st)"
proof -
  have "closed_cfg (def_path_str loop_program 0) loop_blocks" by code_simp
  from call_free_program_never_deadlocks [OF simple.labelled_petri_net_axioms loop_program_facts(1-4) this, of 0 0]
  show ?thesis by simp
qed

text \<open>
  The net of a program without calls is bounded: in every reachable marking exactly one place holds
  a token, and only one, so the model checker visits at most one marking for each place.
\<close>

theorem call_free_net_is_bounded:
  assumes "labelled_petri_net N view place_label transition_label"
    "entry_fn tcx = Some d" "visit_body tcx d = cfg_visits blocks" "blocks \<noteq> []"
    "list_all (\<lambda>(i, terminator). is_local terminator) blocks" "simple_cfg blocks"
  shows "\<exists>st. and_then (translator_new N) (run N tcx (Suc depth) rounds) = Inr st \<and>
    (\<forall>m. reachable (view (tr_net st)) m \<longrightarrow> (\<exists>p. m = single p)) \<and>
    card (pn_transitions (view (tr_net st))) = length (cfg_edges (def_path_str tcx d) blocks)"
proof -
  from labelled_petri_net.run_call_free [OF assms(1-3,5,6,4)] obtain st f ts P0 where
    st: "and_then (translator_new N) (run N tcx (Suc depth) rounds) = Inr st"
    and P0: "pn_transitions P0 = {}" "pn_tokens P0 = single (program_start st)"
    and real: "realises transition_label P0 (view (tr_net st)) f (program_end st) (program_panic st) ts
      (cfg_edges (def_path_str tcx d) blocks)" by metis
  have "card (pn_transitions (view (tr_net st))) = length (cfg_edges (def_path_str tcx d) blocks)"
    using real P0(1) by (auto simp: realises_def distinct_card dest: list_all2_lengthD)
  with st token_position [OF real P0] show ?thesis by blast
qed

theorem call_free_net_is_bounded_witness:
  "\<exists>st. and_then (translator_new simple_netcrab) (run simple_netcrab loop_program 1 0) = Inr st \<and>
    (\<forall>m. reachable (sn_view (tr_net st)) m \<longrightarrow> (\<exists>p. m = single p)) \<and> card (pn_transitions (sn_view (tr_net st))) = 5"
proof -
  have "length (cfg_edges (def_path_str loop_program 0) loop_blocks) = 5" by code_simp
  then show ?thesis
    using call_free_net_is_bounded [OF simple.labelled_petri_net_axioms loop_program_facts(1,2,5,3,4), of 0 0]
    by (simp only: One_nat_def)
qed

end
