(* ===== verification/Inlined_Graph.thy ===== *)
theory Inlined_Graph
  imports Control_Flow
begin

text \<open>
  The specification of the translation of a sequential program: the control flow graph in which
  every call of a function with a MIR body is replaced by the graph of that body, between the node
  of the calling block and the node of the block the call returns to. The nodes are the labels of
  places; an edge is a transition, with its label and the nodes it leads from and to. A call to a
  function that does not return leads nowhere.

  The specification keeps the number of calls of each function seen so far, which is part of the
  labels, and the names under which bodies were inlined. It knows no call stack, no active block
  and no memory, and it does not create places on demand.
\<close>

section \<open>Nodes and edges\<close>

type_synonym place_edge = "string \<times> string \<times> string option"

text \<open>A body that is inlined: its function, its name, the nodes of its start and end, its first block.\<close>

record inlined =
  in_def_id :: def_id
  in_name :: string
  in_start :: string
  in_end :: string
  in_first :: block_index

definition block_node :: "inlined \<Rightarrow> block_index \<Rightarrow> string" where
  "block_node g i = (if i = in_first g then in_start g else basic_block_place_label (in_name g) i)"

definition target_node :: "inlined \<Rightarrow> target \<Rightarrow> string" where
  "target_node g target = (case target of
      ToBlock j \<Rightarrow> block_node g j
    | ToFunctionEnd \<Rightarrow> in_end g
    | ToProgramEnd \<Rightarrow> PROGRAM_END
    | ToPanic \<Rightarrow> PROGRAM_PANIC)"

definition place_edge :: "inlined \<Rightarrow> edge \<Rightarrow> place_edge" where
  "place_edge g e = (case e of (label, i, target) \<Rightarrow> (label, block_node g i, Some (target_node g target)))"

lemma place_edge_simps [simp]:
  "fst (place_edge g e) = fst e" "fst (snd (place_edge g e)) = block_node g (fst (snd e))"
  "snd (snd (place_edge g e)) = Some (target_node g (snd (snd e)))"
  by (simp_all add: place_edge_def split: prod.split)

text \<open>
  The nodes of a call in block \<open>i\<close>: where it starts, where it returns to and, possibly, where it
  unwinds to; none if it neither returns nor unwinds.
\<close>

definition call_nodes ::
  "inlined \<Rightarrow> block_index \<Rightarrow> block_index option \<Rightarrow> unwind_action \<Rightarrow> string call_places option" where
  "call_nodes g i target on_unwind = (case target of
      Some r \<Rightarrow> Some (case on_unwind of
          Continue \<Rightarrow> Basic_Places (block_node g i) (block_node g r)
        | Cleanup c \<Rightarrow> WithCleanup_Places (block_node g i) (block_node g r) (block_node g c)
        | Terminate \<Rightarrow> WithCleanup_Places (block_node g i) (block_node g r) PROGRAM_PANIC
        | Unreachable_Unwind \<Rightarrow> WithCleanup_Places (block_node g i) (block_node g r) PROGRAM_END)
    | None \<Rightarrow> (case on_unwind of
          Continue \<Rightarrow> None
        | Cleanup c \<Rightarrow> Some (Basic_Places (block_node g i) (block_node g c))
        | Terminate \<Rightarrow> Some (Basic_Places (block_node g i) PROGRAM_PANIC)
        | Unreachable_Unwind \<Rightarrow> Some (Basic_Places (block_node g i) PROGRAM_END)))"

text \<open>The edges of a call without a body, and the edge on which an inlined call unwinds.\<close>

definition foreign_edges :: "string \<Rightarrow> nat \<Rightarrow> string call_places \<Rightarrow> place_edge list" where
  "foreign_edges name index nodes = (case foreign_call_transition_labels name index of (default_label, cleanup_label) \<Rightarrow>
     (case nodes of
        Basic_Places s e \<Rightarrow> [(default_label, s, Some e)]
      | WithCleanup_Places s e c \<Rightarrow> [(default_label, s, Some e), (cleanup_label, s, Some c)]))"

definition unwind_edges :: "string \<Rightarrow> nat \<Rightarrow> string call_places \<Rightarrow> place_edge list" where
  "unwind_edges name index nodes = (case nodes of
      Basic_Places s e \<Rightarrow> []
    | WithCleanup_Places s e c \<Rightarrow> [(indexed_mir_function_cleanup_label name index, s, Some c)])"

section \<open>The graph of a program\<close>

text \<open>
  The calls of a sequential program: not to a synchronization function, and with a place as the
  first argument where the translator reads it.
\<close>

definition sequential_call :: "string \<Rightarrow> operand list \<Rightarrow> bool" where
  "sequential_call name args \<longleftrightarrow> \<not> is_supported_function name \<and>
     (name \<in> {''std::mem::drop'', ''std::ops::Deref::deref'', ''std::ops::DerefMut::deref_mut'',
              ''std::result::Result::<T, E>::unwrap''} \<longrightarrow> extract_nth_argument_as_place args 0 \<noteq> None)"

text \<open>The edges, the names of the inlined bodies and the numbers of calls afterwards.\<close>

type_synonym expansion = "(place_edge list \<times> string list \<times> (string \<Rightarrow> nat)) option"

type_synonym expander = "def_id \<Rightarrow> string \<Rightarrow> string \<Rightarrow> string \<Rightarrow> (string \<Rightarrow> nat) \<Rightarrow> expansion"

definition call_graph ::
  "rustc \<Rightarrow> expander \<Rightarrow> inlined \<Rightarrow> block_index \<Rightarrow> operand \<Rightarrow> operand list \<Rightarrow> block_index option \<Rightarrow>
   unwind_action \<Rightarrow> (string \<Rightarrow> nat) \<Rightarrow> expansion" where
  "call_graph tcx expand g i func args target on_unwind n =
     (case extract_def_id_of_called_function_from_operand func (in_def_id g) tcx of
        Inl _ \<Rightarrow> None
      | Inr d \<Rightarrow> let name = def_path_str tcx d in
          (case call_nodes g i target on_unwind of
             None \<Rightarrow> Some ([if is_panic_function name
                 then (panic_transition_label (in_name g), block_node g i, Some PROGRAM_PANIC)
                 else (diverging_call_transition_label name, block_node g i, None)], [], n)
           | Some nodes \<Rightarrow>
               if \<not> sequential_call name args then None
               else if is_foreign_function d name tcx
               then Some (foreign_edges name (n name) nodes, [], n(name := n name + 1))
               else (case expand d (indexed_mir_function_name name (n name))
                       (fst (get_start_end_place nodes)) (snd (get_start_end_place nodes)) n of
                   None \<Rightarrow> None
                 | Some (es, names, n') \<Rightarrow>
                     Some (unwind_edges name (n name) nodes @ es, names, n'(name := n' name + 1)))))"

definition terminator_graph ::
  "rustc \<Rightarrow> expander \<Rightarrow> inlined \<Rightarrow> block_index \<Rightarrow> terminator_kind \<Rightarrow> (string \<Rightarrow> nat) \<Rightarrow> expansion" where
  "terminator_graph tcx expand g i terminator n = (case terminator of
      Call func args destination target on_unwind \<Rightarrow> call_graph tcx expand g i func args target on_unwind n
    | _ \<Rightarrow> if is_local terminator
           then Some (map (place_edge g) (terminator_edges (in_name g) i terminator), [], n) else None)"

text \<open>The visits of a body; \<open>i\<close> is the block they belong to.\<close>

fun body_graph ::
  "rustc \<Rightarrow> expander \<Rightarrow> inlined \<Rightarrow> block_index \<Rightarrow> visitor_call list \<Rightarrow> (string \<Rightarrow> nat) \<Rightarrow> expansion" where
  "body_graph tcx expand g i [] n = Some ([], [], n)"
| "body_graph tcx expand g i (VisitBasicBlockData j # visits) n = body_graph tcx expand g j visits n"
| "body_graph tcx expand g i (VisitAssign _ _ # visits) n = body_graph tcx expand g i visits n"
| "body_graph tcx expand g i (VisitTerminator k # visits) n =
     (case terminator_graph tcx expand g i k n of
        None \<Rightarrow> None
      | Some (es, names, n1) \<Rightarrow>
          (case body_graph tcx expand g i visits n1 of
             None \<Rightarrow> None
           | Some (es', names', n') \<Rightarrow> Some (es @ es', names @ names', n')))"

fun inlined_graph :: "rustc \<Rightarrow> nat \<Rightarrow> expander" where
  "inlined_graph tcx 0 d name s e n = None"
| "inlined_graph tcx (Suc depth) d name s e n = (case visit_body tcx d of
      VisitBasicBlockData first # visits \<Rightarrow>
        map_option (\<lambda>(es, names, n'). (es, name # names, n'))
          (body_graph tcx (inlined_graph tcx depth)
             \<lparr>in_def_id = d, in_name = name, in_start = s, in_end = e, in_first = first\<rparr> first visits n)
    | _ \<Rightarrow> None)"

definition program_graph :: "rustc \<Rightarrow> nat \<Rightarrow> (place_edge list \<times> string list) option" where
  "program_graph tcx depth = (case entry_fn tcx of
      None \<Rightarrow> None
    | Some d \<Rightarrow> map_option (\<lambda>(es, names, _). (es, names))
        (inlined_graph tcx depth d (def_path_str tcx d) PROGRAM_START PROGRAM_END (\<lambda>_. 0)))"

text \<open>No two transitions have the same label, and no two bodies were inlined under the same name.\<close>

definition unambiguous :: "place_edge list \<times> string list \<Rightarrow> bool" where
  "unambiguous graph \<longleftrightarrow> distinct (map fst (fst graph)) \<and> distinct (map sanitize (snd graph))"

section \<open>Nets that are graphs\<close>

definition moves :: "('p \<Rightarrow> string) \<Rightarrow> ('t \<Rightarrow> string) \<Rightarrow> ('p, 't) pnet \<Rightarrow> 't \<Rightarrow> place_edge \<Rightarrow> bool" where
  "moves place_label transition_label P t e = (case e of (label, s, d) \<Rightarrow>
     transition_label t = label \<and> (\<exists>p \<in> pn_places P. place_label p = s \<and> pn_pre P t = single p) \<and>
     (case d of
        None \<Rightarrow> pn_post P t = (\<lambda>_. 0)
      | Some d \<Rightarrow> \<exists>q \<in> pn_places P. place_label q = d \<and> pn_post P t = single q))"

text \<open>One transition for each edge and no other, and no two places with the same label.\<close>

definition is_graph ::
  "('p \<Rightarrow> string) \<Rightarrow> ('t \<Rightarrow> string) \<Rightarrow> ('p, 't) pnet \<Rightarrow> place_edge list \<Rightarrow> bool" where
  "is_graph place_label transition_label P es \<longleftrightarrow> inj_on place_label (pn_places P) \<and>
     (\<exists>ts. distinct ts \<and> set ts = pn_transitions P \<and> list_all2 (moves place_label transition_label P) ts es)"

lemma moves_mono:
  assumes "moves lp lt P t e" "pn_places P \<subseteq> pn_places P'" "pn_pre P' t = pn_pre P t" "pn_post P' t = pn_post P t"
  shows "moves lp lt P' t e"
  using assms unfolding moves_def by (fastforce split: prod.splits option.splits)

lemma is_graph_extend:
  assumes "is_graph lp lt P es" "pn_places P \<subseteq> pn_places P'" "inj_on lp (pn_places P')"
    "\<And>t. t \<in> pn_transitions P \<Longrightarrow> pn_pre P' t = pn_pre P t \<and> pn_post P' t = pn_post P t"
    "distinct ts" "set ts \<inter> pn_transitions P = {}" "pn_transitions P' = pn_transitions P \<union> set ts"
    "list_all2 (moves lp lt P') ts es'"
  shows "is_graph lp lt P' (es @ es')"
proof -
  from assms(1) obtain ts0 where ts0: "distinct ts0" "set ts0 = pn_transitions P" "list_all2 (moves lp lt P) ts0 es"
    by (auto simp: is_graph_def)
  have "list_all2 (moves lp lt P') ts0 es"
    by (rule list.rel_mono_strong [OF ts0(3)]) (use assms(2,4) ts0(2) in \<open>blast intro: moves_mono\<close>)
  then have "list_all2 (moves lp lt P') (ts0 @ ts) (es @ es')" using assms(8) by (rule list_all2_appendI)
  with ts0 assms(3,5-7) show ?thesis unfolding is_graph_def by (intro conjI exI [of _ "ts0 @ ts"]) auto
qed

lemma is_graph_labels:
  assumes "is_graph lp lt P es"
  shows "lt ` pn_transitions P = set (map fst es)"
proof -
  from assms obtain ts where ts: "set ts = pn_transitions P" "list_all2 (moves lp lt P) ts es" by (auto simp: is_graph_def)
  have "map lt ts = map fst es" using ts(2) by induction (auto simp: moves_def split: prod.splits)
  with ts(1) show ?thesis by (metis set_map)
qed

lemma is_graph_transition:
  assumes "is_graph lp lt P es" "t \<in> pn_transitions P"
  obtains e where "e \<in> set es" "moves lp lt P t e"
  using assms unfolding is_graph_def by (metis in_set_conv_nth list_all2_conv_all_nth)

lemma is_graph_edge:
  assumes "is_graph lp lt P es" "e \<in> set es"
  obtains t where "t \<in> pn_transitions P" "moves lp lt P t e"
  using assms unfolding is_graph_def by (metis in_set_conv_nth list_all2_conv_all_nth)

section \<open>Graphs that lead on\<close>

definition sources :: "place_edge list \<Rightarrow> string set" where
  "sources es = (\<lambda>e. fst (snd e)) ` set es"

lemma sources_simps [simp]:
  "sources [] = {}" "sources (e # es) = insert (fst (snd e)) (sources es)" "sources (es @ es') = sources es \<union> sources es'"
  by (auto simp: sources_def)

text \<open>
  From the node \<open>s\<close> every path can be continued until it reaches one of the nodes \<open>ends\<close> or a dead
  end.
\<close>

definition leads_on :: "string \<Rightarrow> string set \<Rightarrow> place_edge list \<Rightarrow> bool" where
  "leads_on s ends es \<longleftrightarrow> s \<in> sources es \<and>
     (\<forall>e \<in> set es. case snd (snd e) of None \<Rightarrow> True | Some b \<Rightarrow> b \<in> ends \<or> b \<in> sources es)"

lemma leads_on_iff:
  "leads_on s ends es \<longleftrightarrow> s \<in> sources es \<and> (\<forall>e \<in> set es. set_option (snd (snd e)) \<subseteq> ends \<union> sources es)"
  unfolding leads_on_def by (intro conj_cong refl ball_cong) (auto split: option.splits)

text \<open>The nodes on the paths from \<open>s\<close>.\<close>

inductive reaches :: "place_edge list \<Rightarrow> string \<Rightarrow> string \<Rightarrow> bool" for es s where
  start: "reaches es s s"
| edge: "reaches es s a \<Longrightarrow> (label, a, Some b) \<in> set es \<Longrightarrow> reaches es s b"

text \<open>A path to a call that does not return.\<close>

definition diverges :: "place_edge list \<Rightarrow> string \<Rightarrow> bool" where
  "diverges es s \<longleftrightarrow> (\<exists>label a. (label, a, None) \<in> set es \<and> reaches es s a)"

lemma fire_single: "pn_pre P t = single p \<Longrightarrow> fire P t (single p) = pn_post P t"
  by (auto simp: fire_def fun_eq_iff)

text \<open>The token moves along the paths, and is lost where a path ends in a call that does not return.\<close>

lemma graph_token:
  assumes graph: "is_graph lp lt P es" and s: "s \<in> pn_places P" "pn_tokens P = single s" and m: "reachable P m"
  shows "(\<exists>p \<in> pn_places P. m = single p \<and> reaches es (lp s) (lp p)) \<or> (m = (\<lambda>_. 0) \<and> diverges es (lp s))"
  using m
proof induction
  case initial
  show ?case using s by (auto intro: reaches.start)
next
  case (fires m t)
  from fires(2) have t: "t \<in> pn_transitions P" "\<forall>r. pn_pre P t r \<le> m r" by (auto simp: enabled_def)
  obtain e where e: "e \<in> set es" "moves lp lt P t e" by (rule is_graph_transition [OF graph t(1)])
  obtain label a d where l: "e = (label, a, d)" by (cases e)
  from e(2) l obtain p' where p': "p' \<in> pn_places P" "pn_pre P t = single p'" "lp p' = a" by (auto simp: moves_def)
  have "m \<noteq> (\<lambda>_. 0)" using t(2) p'(2) by (auto simp: single_def dest: spec [of _ p'])
  with fires.IH obtain p where p: "m = single p" "reaches es (lp s) (lp p)" by blast
  with t(2) p' have "p' = p" by (simp add: single_le)
  with p p' have fire: "fire P t m = pn_post P t" "reaches es (lp s) a" by (simp_all add: fire_single)
  show ?case
  proof (cases d)
    case None
    with e l fire show ?thesis by (auto simp: moves_def diverges_def)
  next
    case (Some b)
    with e(2) l obtain q where "q \<in> pn_places P" "lp q = b" "pn_post P t = single q" by (auto simp: moves_def)
    moreover have "reaches es (lp s) b" using fire(2) e(1) l Some by (auto intro: reaches.edge)
    ultimately show ?thesis using fire(1) by auto
  qed
qed

lemma token_reaches:
  assumes graph: "is_graph lp lt P es" and s: "s \<in> pn_places P" "pn_tokens P = single s" and a: "reaches es (lp s) a"
  shows "\<exists>p \<in> pn_places P. lp p = a \<and> reachable P (single p)"
  using a
proof induction
  case start
  show ?case using s reachable.initial [of P] by auto
next
  case (edge a label b)
  then obtain p where p: "p \<in> pn_places P" "lp p = a" "reachable P (single p)" by blast
  obtain t where t: "t \<in> pn_transitions P" "moves lp lt P t (label, a, Some b)" by (rule is_graph_edge [OF graph edge(2)])
  then obtain p' q where q: "p' \<in> pn_places P" "lp p' = a" "pn_pre P t = single p'" "q \<in> pn_places P" "lp q = b"
    "pn_post P t = single q" by (auto simp: moves_def)
  have "p' = p" using graph p q(1,2) by (auto simp: is_graph_def dest: inj_onD)
  with t(1) q(3) have "enabled P (single p) t" by (simp add: enabled_def)
  from reachable.fires [OF p(3) this] q \<open>p' = p\<close> show ?case by (auto simp: fire_single)
qed

text \<open>The places of a graph are determined by their labels, and no transition fires without a token.\<close>

lemma is_graph_inject:
  "is_graph lp lt P es \<Longrightarrow> p \<in> pn_places P \<Longrightarrow> q \<in> pn_places P \<Longrightarrow> lp p = lp q \<Longrightarrow> p = q"
  by (auto simp: is_graph_def dest: inj_onD)

lemma is_graph_no_token:
  assumes "is_graph lp lt P es"
  shows "dead P (\<lambda>_. 0)"
  unfolding dead_def
proof (intro allI notI)
  fix t
  assume "enabled P (\<lambda>_. 0) t"
  then have t: "t \<in> pn_transitions P" "\<forall>r. pn_pre P t r = 0" by (auto simp: enabled_def)
  obtain e where "moves lp lt P t e" by (rule is_graph_transition [OF assms t(1)])
  then obtain q where "pn_pre P t = single q" by (cases e) (auto simp: moves_def)
  with t(2) show False by (auto simp: single_def dest: spec [of _ q])
qed

lemma token_moves_on:
  assumes "is_graph lp lt P es" "p \<in> pn_places P" "lp p \<in> sources es"
  shows "\<exists>t. enabled P (single p) t"
proof -
  from assms(3) obtain l d where e: "(l, lp p, d) \<in> set es" by (force simp: sources_def)
  obtain t where t: "t \<in> pn_transitions P" "moves lp lt P t (l, lp p, d)" by (rule is_graph_edge [OF assms(1) e])
  then obtain p' where "p' \<in> pn_places P" "lp p' = lp p" "pn_pre P t = single p'" by (auto simp: moves_def)
  moreover from this have "p' = p" using is_graph_inject [OF assms(1) _ assms(2)] by blast
  ultimately show ?thesis using t(1) by (auto simp: enabled_def)
qed

lemma diverges_deadlock:
  assumes graph: "is_graph lp lt P es" and s: "s \<in> pn_places P" "pn_tokens P = single s" and diverges: "diverges es (lp s)"
  shows "reachable P (\<lambda>_. 0)"
proof -
  from diverges obtain l a where a: "(l, a, None) \<in> set es" "reaches es (lp s) a" by (auto simp: diverges_def)
  obtain p where p: "p \<in> pn_places P" "lp p = a" "reachable P (single p)" using token_reaches [OF graph s a(2)] by blast
  obtain t where t: "t \<in> pn_transitions P" "moves lp lt P t (l, a, None)" by (rule is_graph_edge [OF graph a(1)])
  then obtain p' where p': "p' \<in> pn_places P" "lp p' = a" "pn_pre P t = single p'" "pn_post P t = (\<lambda>_. 0)" by (auto simp: moves_def)
  moreover from this p have "p' = p" using is_graph_inject [OF graph] by blast
  ultimately have "enabled P (single p) t" "fire P t (single p) = (\<lambda>_. 0)" using t(1) by (simp_all add: enabled_def fire_single)
  with reachable.fires [OF p(3)] show ?thesis by metis
qed

text \<open>
  A graph that leads on to the end of the program or to a panic has a deadlock if and only if a call
  that does not return is on one of its paths.
\<close>

lemma deadlock_iff_diverges:
  assumes graph: "is_graph lp lt P es" "leads_on (lp s) {lp pe, lp pp} es" and s: "s \<in> pn_places P" "pn_tokens P = single s"
    and ends: "pe \<in> pn_places P" "pp \<in> pn_places P"
  shows "can_deadlock P pe pp \<longleftrightarrow> diverges es (lp s)"
proof
  assume "can_deadlock P pe pp"
  then obtain m where m: "reachable P m" "dead P m" "m pe = 0" "m pp = 0" by (auto simp: can_deadlock_def)
  show "diverges es (lp s)"
  proof (rule ccontr)
    assume "\<not> diverges es (lp s)"
    with graph_token [OF graph(1) s m(1)] obtain p where p: "p \<in> pn_places P" "m = single p" "reaches es (lp s) (lp p)" by blast
    from p(3) graph(2) have "lp p \<in> {lp pe, lp pp} \<union> sources es"
      by cases (auto simp: leads_on_iff)
    moreover have "p \<noteq> pe" "p \<noteq> pp" using m p(2) by (auto simp: single_def)
    ultimately have "lp p \<in> sources es" using is_graph_inject [OF graph(1) p(1)] ends by blast
    from token_moves_on [OF graph(1) p(1) this] m(2) p(2) show False by (simp add: dead_def)
  qed
next
  assume "diverges es (lp s)"
  with diverges_deadlock [OF graph(1) s] is_graph_no_token [OF graph(1)] show "can_deadlock P pe pp"
    unfolding can_deadlock_def by auto
qed

section \<open>Bodies that lead on\<close>

text \<open>The blocks that have a terminator, and the blocks that are entered or that a terminator names.\<close>

fun terminated :: "block_index \<Rightarrow> visitor_call list \<Rightarrow> block_index list" where
  "terminated i [] = []"
| "terminated i (VisitBasicBlockData j # visits) = terminated j visits"
| "terminated i (VisitAssign _ _ # visits) = terminated i visits"
| "terminated i (VisitTerminator _ # visits) = i # terminated i visits"

definition terminator_blocks :: "terminator_kind \<Rightarrow> block_index list" where
  "terminator_blocks terminator = (case terminator of
      Call _ _ _ target on_unwind \<Rightarrow>
        (case target of None \<Rightarrow> [] | Some r \<Rightarrow> [r]) @ (case on_unwind of Cleanup c \<Rightarrow> [c] | _ \<Rightarrow> [])
    | _ \<Rightarrow> concat (map (\<lambda>(_, _, target). case target of ToBlock j \<Rightarrow> [j] | _ \<Rightarrow> []) (terminator_edges [] 0 terminator)))"

fun mentioned :: "visitor_call list \<Rightarrow> block_index list" where
  "mentioned [] = []"
| "mentioned (VisitBasicBlockData j # visits) = j # mentioned visits"
| "mentioned (VisitAssign _ _ # visits) = mentioned visits"
| "mentioned (VisitTerminator k # visits) = terminator_blocks k @ mentioned visits"

text \<open>
  A body in which every block that is entered or named has a terminator, and no switch is empty.
\<close>

definition closed_body :: "rustc \<Rightarrow> def_id \<Rightarrow> bool" where
  "closed_body tcx d = (case visit_body tcx d of
      VisitBasicBlockData first # visits \<Rightarrow>
        list_all (\<lambda>j. j \<in> set (terminated first visits)) (first # mentioned visits) \<and>
        VisitTerminator (SwitchInt []) \<notin> set visits
    | _ \<Rightarrow> True)"

text \<open>What an expansion leads to; the contract of the callee's.\<close>

definition expands_closed :: "expander \<Rightarrow> bool" where
  "expands_closed expand \<longleftrightarrow> (\<forall>d name s e n es names n'. expand d name s e n = Some (es, names, n') \<longrightarrow>
     leads_on s {e, PROGRAM_END, PROGRAM_PANIC} es)"

lemma leads_on_Cons:
  "leads_on s ends es \<Longrightarrow> ends \<subseteq> ends' \<Longrightarrow> fst (snd e) = s \<Longrightarrow> snd (snd e) = Some b \<Longrightarrow> b \<in> ends' \<Longrightarrow> leads_on s ends' (e # es)"
  unfolding leads_on_iff by auto

lemma leads_on_mono: "leads_on s ends es \<Longrightarrow> ends \<subseteq> ends' \<Longrightarrow> leads_on s ends' es"
  unfolding leads_on_iff by blast

text \<open>Where the paths inside a body may end: at its end, at the ends of the program and at other blocks.\<close>

definition exits :: "inlined \<Rightarrow> block_index list \<Rightarrow> string set" where
  "exits g blocks = {in_end g, PROGRAM_END, PROGRAM_PANIC} \<union> block_node g ` set blocks"

lemma exits_simps: "in_end g \<in> exits g blocks" "PROGRAM_END \<in> exits g blocks" "PROGRAM_PANIC \<in> exits g blocks"
    "j \<in> set blocks \<Longrightarrow> block_node g j \<in> exits g blocks"
  by (simp_all add: exits_def)

lemma exits_append: "exits g (blocks @ blocks') = exits g blocks \<union> exits g blocks'"
  by (auto simp: exits_def)

lemma terminator_targets:
  "map (\<lambda>e. snd (snd e)) (terminator_edges name i k) = map (\<lambda>e. snd (snd e)) (terminator_edges [] 0 k)"
  by (cases k) (auto simp: drop_edges_def comp_def split: unwind_action.splits)

lemma local_leads_on:
  assumes "is_local k" "k \<noteq> SwitchInt []"
  shows "leads_on (block_node g i) (exits g (terminator_blocks k)) (map (place_edge g) (terminator_edges (in_name g) i k))"
proof -
  have "terminator_edges (in_name g) i k \<noteq> []"
    using assms by (cases k) (auto simp: is_local_def split: unwind_action.splits)
  then obtain e where "e \<in> set (terminator_edges (in_name g) i k)" using list.set_sel(1) by blast
  then have "block_node g i \<in> sources (map (place_edge g) (terminator_edges (in_name g) i k))"
    using terminator_edges_source [of e] by (auto simp: sources_def image_image intro!: image_eqI [of _ _ e])
  moreover have "target_node g (snd (snd e)) \<in> exits g (terminator_blocks k)"
    if e: "e \<in> set (terminator_edges (in_name g) i k)" for e
  proof (cases "snd (snd e)")
    case (ToBlock j)
    have "snd (snd e) \<in> (\<lambda>e. snd (snd e)) ` set (terminator_edges [] 0 k)"
      using imageI [OF e, of "\<lambda>e. snd (snd e)"] arg_cong [OF terminator_targets, of set "in_name g" i k]
      unfolding set_map by (rule subst [rotated])
    then obtain e' where e': "e' \<in> set (terminator_edges [] 0 k)" "snd (snd e') = ToBlock j" using ToBlock by auto
    have blocks: "terminator_blocks k =
        concat (map (\<lambda>(_, _, target). case target of ToBlock j \<Rightarrow> [j] | _ \<Rightarrow> []) (terminator_edges [] 0 k))"
      using assms(1) by (cases k) (simp_all add: terminator_blocks_def is_local_def)
    have "j \<in> set (terminator_blocks k)"
      unfolding blocks set_concat set_map
      by (rule UN_I [OF imageI [OF e'(1)]]) (use e'(2) in \<open>simp add: case_prod_unfold\<close>)
    with ToBlock show ?thesis by (simp add: target_node_def exits_simps)
  qed (simp_all add: target_node_def exits_simps)
  ultimately show ?thesis
    unfolding leads_on_iff by (auto simp del: terminator_edges.simps)
qed

lemma call_nodes_exits:
  assumes "call_nodes g i target on_unwind = Some nodes"
  shows "case nodes of
      Basic_Places s e \<Rightarrow> s = block_node g i \<and> e \<in> exits g (terminator_blocks (Call func args dest target on_unwind))
    | WithCleanup_Places s e c \<Rightarrow> s = block_node g i \<and> e \<in> exits g (terminator_blocks (Call func args dest target on_unwind)) \<and>
        c \<in> exits g (terminator_blocks (Call func args dest target on_unwind))"
  using assms
  by (auto simp: call_nodes_def terminator_blocks_def exits_simps split: option.splits unwind_action.splits)

lemma inlined_call_leads_on:
  assumes "case nodes of Basic_Places s' e \<Rightarrow> s' = s \<and> e \<in> ends | WithCleanup_Places s' e c \<Rightarrow> s' = s \<and> e \<in> ends \<and> c \<in> ends"
    "{PROGRAM_END, PROGRAM_PANIC} \<subseteq> ends"
  shows "leads_on s ends (foreign_edges name k nodes)"
    "leads_on s {snd (get_start_end_place nodes), PROGRAM_END, PROGRAM_PANIC} es \<Longrightarrow> leads_on s ends (unwind_edges name k nodes @ es)"
proof -
  show "leads_on s ends (foreign_edges name k nodes)"
    using assms by (auto simp: foreign_edges_def leads_on_iff foreign_call_transition_labels_def split: call_places.splits)
  assume "leads_on s {snd (get_start_end_place nodes), PROGRAM_END, PROGRAM_PANIC} es"
  moreover have "{snd (get_start_end_place nodes), PROGRAM_END, PROGRAM_PANIC} \<subseteq> ends"
    using assms by (simp add: get_start_end_place_def split: call_places.splits)
  ultimately have es: "leads_on s ends es" by (rule leads_on_mono)
  show "leads_on s ends (unwind_edges name k nodes @ es)"
    by (cases nodes) (use assms es in \<open>simp_all add: unwind_edges_def leads_on_Cons [OF es subset_refl]\<close>)
qed

lemma call_leads_on:
  assumes expand: "expands_closed expand" and graph: "call_graph tcx expand g i func args target on_unwind n = Some (es, names, n')"
  shows "leads_on (block_node g i) (exits g (terminator_blocks (Call func args dest target on_unwind))) es"
proof -
  from graph obtain d where d: "extract_def_id_of_called_function_from_operand func (in_def_id g) tcx = Inr d"
    by (auto simp: call_graph_def split: sum.splits)
  show ?thesis
  proof (cases "call_nodes g i target on_unwind")
    case None
    with graph d show ?thesis by (auto simp: call_graph_def leads_on_iff exits_simps Let_def split: if_splits)
  next
    case (Some nodes)
    let ?ends = "exits g (terminator_blocks (Call func args dest target on_unwind))"
    let ?name = "def_path_str tcx d"
    note leads = inlined_call_leads_on [OF call_nodes_exits [OF Some, of func args dest]]
    have start: "fst (get_start_end_place nodes) = block_node g i"
      using call_nodes_exits [OF Some] by (auto simp: get_start_end_place_def split: call_places.splits)
    show ?thesis
    proof (cases "is_foreign_function d ?name tcx")
      case True
      with graph d Some have "es = foreign_edges ?name (n ?name) nodes"
        by (simp add: call_graph_def Let_def split: if_splits)
      then show ?thesis using leads(1) by (simp add: exits_simps)
    next
      case False
      with graph d Some obtain es' n1 where "expand d (indexed_mir_function_name ?name (n ?name)) (block_node g i)
          (snd (get_start_end_place nodes)) n = Some (es', names, n1)" "es = unwind_edges ?name (n ?name) nodes @ es'"
        by (auto simp: call_graph_def Let_def start split: if_splits option.splits)
      moreover from this(1) expand have "leads_on (block_node g i) {snd (get_start_end_place nodes), PROGRAM_END, PROGRAM_PANIC} es'"
        unfolding expands_closed_def by blast
      ultimately show ?thesis using leads(2) by (simp add: exits_simps)
    qed
  qed
qed

lemma terminator_leads_on:
  assumes "expands_closed expand" "terminator_graph tcx expand g i k n = Some (es, names, n')" "k \<noteq> SwitchInt []"
  shows "leads_on (block_node g i) (exits g (terminator_blocks k)) es"
proof (cases "\<exists>func args destination target on_unwind. k = Call func args destination target on_unwind")
  case True
  then obtain func args destination target on_unwind where k: "k = Call func args destination target on_unwind" by blast
  show ?thesis
    unfolding k by (rule call_leads_on [OF assms(1)]) (use assms(2) k in \<open>simp add: terminator_graph_def\<close>)
next
  case False
  then have "es = map (place_edge g) (terminator_edges (in_name g) i k)" "is_local k"
    using assms(2) by (auto simp: terminator_graph_def split: terminator_kind.splits if_splits)
  with local_leads_on [OF _ assms(3)] show ?thesis by blast
qed

lemma body_leads_on:
  assumes "expands_closed expand" "body_graph tcx expand g i visits n = Some (es, names, n')" "VisitTerminator (SwitchInt []) \<notin> set visits"
  shows "block_node g ` set (terminated i visits) \<subseteq> sources es \<and>
    (\<forall>e \<in> set es. set_option (snd (snd e)) \<subseteq> exits g (mentioned visits) \<union> sources es)"
  using assms(2,3)
proof (induction visits arbitrary: i n es names)
  case (Cons visit visits)
  show ?case
  proof (cases visit)
    case (VisitBasicBlockData j)
    with Cons.IH [of j n es names] Cons.prems exits_append [of g "[j]" "mentioned visits"] show ?thesis by auto
  next
    case (VisitAssign place rvalue)
    with Cons.IH [of i n es names] Cons.prems show ?thesis by simp
  next
    case (VisitTerminator k)
    with Cons.prems obtain es1 names1 n1 es2 names2 where g:
      "terminator_graph tcx expand g i k n = Some (es1, names1, n1)"
      "body_graph tcx expand g i visits n1 = Some (es2, names2, n')" "es = es1 @ es2"
      by (auto split: option.splits)
    have "k \<noteq> SwitchInt []" and all: "VisitTerminator (SwitchInt []) \<notin> set visits"
      using Cons.prems(2) VisitTerminator by auto
    note first = terminator_leads_on [OF assms(1) g(1) this(1), unfolded leads_on_iff]
    show ?thesis
      unfolding VisitTerminator g(3) terminated.simps mentioned.simps set_append sources_simps list.set exits_append
      using first Cons.IH [OF g(2) all] by blast
  qed
qed simp

text \<open>If the bodies of all functions lead on, so does the inlined graph of a function.\<close>

lemma inlined_graph_leads_on:
  assumes "\<And>d. closed_body tcx d"
  shows "expands_closed (inlined_graph tcx depth)"
proof (induction depth)
  case 0
  show ?case by (simp add: expands_closed_def)
next
  case (Suc depth)
  show ?case unfolding expands_closed_def
  proof (intro allI impI)
    fix d name s e n es names n'
    assume "inlined_graph tcx (Suc depth) d name s e n = Some (es, names, n')"
    then obtain first visits names' where v: "visit_body tcx d = VisitBasicBlockData first # visits"
      and g: "body_graph tcx (inlined_graph tcx depth)
         \<lparr>in_def_id = d, in_name = name, in_start = s, in_end = e, in_first = first\<rparr> first visits n = Some (es, names', n')"
      by (auto split: list.splits visitor_call.splits)
    let ?g = "\<lparr>in_def_id = d, in_name = name, in_start = s, in_end = e, in_first = first\<rparr>"
    have closed: "set (first # mentioned visits) \<subseteq> set (terminated first visits)" "VisitTerminator (SwitchInt []) \<notin> set visits"
      using assms [of d] v by (auto simp: closed_body_def list_all_iff)
    note body = body_leads_on [OF Suc.IH g closed(2)]
    have nodes: "block_node ?g ` set (first # mentioned visits) \<subseteq> sources es"
      using image_mono [OF closed(1), of "block_node ?g"] conjunct1 [OF body] by (rule subset_trans)
    have start: "s \<in> sources es" using nodes by (simp add: block_node_def)
    have ends: "b \<in> {e, PROGRAM_END, PROGRAM_PANIC} \<union> sources es" if "b \<in> exits ?g (mentioned visits) \<union> sources es" for b
      using that nodes by (auto simp: exits_def)
    show "leads_on s {e, PROGRAM_END, PROGRAM_PANIC} es"
      unfolding leads_on_iff using start ends body by blast
  qed
qed

lemma program_graph_leads_on:
  assumes "\<And>d. closed_body tcx d" "program_graph tcx depth = Some (es, names)"
  shows "leads_on PROGRAM_START {PROGRAM_END, PROGRAM_PANIC} es"
proof -
  from assms(2) obtain d n' where
    "inlined_graph tcx depth d (def_path_str tcx d) PROGRAM_START PROGRAM_END (\<lambda>_. 0) = Some (es, names, n')"
    by (auto simp: program_graph_def split: option.splits)
  with inlined_graph_leads_on [OF assms(1), of depth] have "leads_on PROGRAM_START {PROGRAM_END, PROGRAM_END, PROGRAM_PANIC} es"
    unfolding expands_closed_def by blast
  then show ?thesis by simp
qed

end
