(* ===== verification/Sequential.thy ===== *)
theory Sequential
  imports Inlined_Graph
begin

text \<open>
  The translation of a sequential program is its inlined control flow graph. The proof follows the
  translator: every visit extends the net by the edges that the specification gives for it, the
  frames below the top keep their blocks, and a call of a function with a body ends with the edges
  of the body added. It needs that no label is used for two nodes, which is a property of the graph.
\<close>

text \<open>
  No place of the program has a synchronization variable, so the memories of the frames stay empty.
\<close>

definition sync_free :: "rustc \<Rightarrow> bool" where
  "sync_free tcx \<longleftrightarrow> (\<forall>place d. \<not> check_if_sync_variable place d tcx)"

text \<open>The block that is active after the visits.\<close>

fun final_block :: "block_index \<Rightarrow> visitor_call list \<Rightarrow> block_index" where
  "final_block i [] = i"
| "final_block i (VisitBasicBlockData j # visits) = final_block j visits"
| "final_block i (_ # visits) = final_block i visits"

section \<open>Labels\<close>

lemma block_label_inject:
  "basic_block_place_label f i = basic_block_place_label g j \<longleftrightarrow> sanitize f = sanitize g \<and> i = j"
proof
  assume eq: "basic_block_place_label f i = basic_block_place_label g j"
  have digits: "takeWhile (\<lambda>c. c \<noteq> CHR ''B'') (rev (basic_block_place_label h k)) = rev (show_nat k)" for h k
    using set_show_nat [of k] by (auto simp: basic_block_place_label_def takeWhile_append)
  from eq have "show_nat i = show_nat j" by (metis digits rev_is_rev_conv)
  with eq show "sanitize f = sanitize g \<and> i = j" by (simp add: basic_block_place_label_def)
qed (simp add: basic_block_place_label_def)

context labelled_petri_net
begin

text \<open>No place carries a label of a block under one of the names.\<close>

definition unused :: "'n \<Rightarrow> string list \<Rightarrow> bool" where
  "unused net names \<longleftrightarrow> (\<forall>name \<in> set names. \<forall>j. basic_block_place_label name j \<notin> place_label ` places net)"

text \<open>The net keeps its places and its marking, and its new places are blocks under one of the names.\<close>

definition grown :: "'n \<Rightarrow> 'n \<Rightarrow> string list \<Rightarrow> bool" where
  "grown net net' names \<longleftrightarrow> places net \<subseteq> places net' \<and> pn_tokens (view net') = pn_tokens (view net) \<and>
     (\<forall>p \<in> places net' - places net. \<exists>name \<in> set names. \<exists>j. place_label p = basic_block_place_label name j)"

lemma grown_same: "places net' = places net \<Longrightarrow> pn_tokens (view net') = pn_tokens (view net) \<Longrightarrow> grown net net' names"
  by (simp add: grown_def)

lemma grown_trans: "grown a b names \<Longrightarrow> grown b c names' \<Longrightarrow> set names \<union> set names' \<subseteq> set names'' \<Longrightarrow> grown a c names''"
  unfolding grown_def by (auto; blast)

lemma unused_grown:
  assumes "unused net names" "grown net net' names'" "set (map sanitize names) \<inter> set (map sanitize names') = {}"
  shows "unused net' names"
  unfolding unused_def
proof (intro ballI allI notI)
  fix name j
  assume name: "name \<in> set names" and "basic_block_place_label name j \<in> place_label ` places net'"
  then obtain p where p: "p \<in> places net'" "place_label p = basic_block_place_label name j" by auto
  show False
  proof (cases "p \<in> places net")
    case True
    with assms(1) name p(2) show False unfolding unused_def by (metis image_eqI)
  next
    case False
    with assms(2) p obtain name' where "name' \<in> set names'" "sanitize name = sanitize name'"
      unfolding grown_def by (metis DiffI block_label_inject)
    with assms(3) name show False by (auto dest: equals0D [of _ "sanitize name"])
  qed
qed

section \<open>The frame on top\<close>

text \<open>
  The frame of an inlined body, and that its first block was entered: then its blocks are on the
  places that carry the labels of its nodes.
\<close>

definition open_frame :: "'n \<Rightarrow> inlined \<Rightarrow> 'p mir_function \<Rightarrow> bool" where
  "open_frame net g f \<longleftrightarrow> frame_ok (places net) f \<and> blocks_named f \<and> fresh_frame net f \<and>
     fn_memory f = memory_default \<and> fn_def_id f = in_def_id g \<and> fn_name f = in_name g \<and>
     place_label (fn_start_place f) = in_start g \<and> place_label (fn_end_place f) = in_end g"

definition in_frame :: "'n \<Rightarrow> inlined \<Rightarrow> 'p mir_function \<Rightarrow> bool" where
  "in_frame net g f \<longleftrightarrow> open_frame net g f \<and> place_of_block f (in_first g) = Some (fn_start_place f)"

lemmas frame_defs = in_frame_def open_frame_def

lemma open_frame_block: "open_frame net g f \<Longrightarrow> place_of_block f i = Some p \<Longrightarrow> p \<in> places net"
  by (auto simp: open_frame_def frame_ok_def place_of_block_def)

lemma in_frame_node:
  assumes "in_frame net g f" "place_of_block f i = Some p"
  shows "place_label p = block_node g i" "p \<in> places net"
proof -
  show "p \<in> places net" using assms by (auto simp: frame_defs frame_ok_def place_of_block_def)
  show "place_label p = block_node g i"
  proof (cases "i = in_first g")
    case True
    with assms show ?thesis by (simp add: frame_defs block_node_def)
  next
    case False
    from assms obtain b c where b: "hm_get (fn_basic_blocks f) i = Some b" "p = block_place b" "blocks_named f"
        "hm_get (fn_basic_blocks f) (in_first g) = Some c" "block_place c = fn_start_place f"
      by (auto simp: frame_defs place_of_block_def)
    with False have "block_place b \<noteq> fn_start_place f" unfolding blocks_named_def by blast
    with b False assms(1) show ?thesis by (auto simp: blocks_named_def frame_defs block_node_def)
  qed
qed

lemma in_frame_places: "places net' = places net \<Longrightarrow> in_frame net' g f \<longleftrightarrow> in_frame net g f"
  by (simp add: frame_defs fresh_frame_def)

text \<open>A frame is in the state of the contract of the terminators, seen from the net it is in.\<close>

lemma in_frame_translates:
  assumes "in_frame net g f" "pe \<in> places net" "pp \<in> places net"
  shows "translates_to net pe pp f net []"
proof -
  have "{p. \<exists>i. place_of_block f i = Some p} \<subseteq> places net" using in_frame_node(2) [OF assms(1)] by blast
  then have "realises transition_label (view net) (view net) f pe pp [] []" by (auto simp: realises_def)
  with assms show ?thesis by (auto simp: translates_to_def frame_defs)
qed

text \<open>Other bodies that are inlined meanwhile leave the frame in place.\<close>

lemma in_frame_grown:
  assumes "in_frame net g f" "grown net net' names" "sanitize (in_name g) \<notin> set (map sanitize names)"
  shows "in_frame net' g f"
proof -
  have "basic_block_place_label (fn_name f) j \<notin> place_label ` places net'" if "hm_get (fn_basic_blocks f) j = None" for j
  proof
    assume "basic_block_place_label (fn_name f) j \<in> place_label ` places net'"
    then obtain p where p: "p \<in> places net'" "place_label p = basic_block_place_label (fn_name f) j" by auto
    have "p \<notin> places net" using assms(1) that p(2) unfolding frame_defs fresh_frame_def by (metis image_eqI)
    with assms(2) p obtain name where "name \<in> set names" "sanitize (fn_name f) = sanitize name"
      unfolding grown_def by (metis DiffI block_label_inject)
    with assms(1,3) show False by (auto simp: frame_defs)
  qed
  with assms show ?thesis by (auto simp: frame_defs fresh_frame_def grown_def intro: frame_ok_mono)
qed

section \<open>Edges are added\<close>

abbreviation graph :: "'n \<Rightarrow> place_edge list \<Rightarrow> bool" where
  "graph net es \<equiv> is_graph place_label transition_label (view net) es"

lemma labels_stay_distinct:
  assumes "open_frame net g f" "translates_to net pe pp f' net' es" "same_function f f'" "inj_on place_label (places net)"
  shows "inj_on place_label (places net')"
proof (rule inj_onI)
  have start: "fn_start_place f' \<in> places net"
    using assms(1,3) by (auto simp: frame_defs fresh_frame_def same_function_def)
  have new: "\<exists>i. place_of_block f' i = Some p \<and> place_label p = basic_block_place_label (fn_name f') i \<and>
      place_label p \<notin> place_label ` places net" if p: "p \<in> places net'" "p \<notin> places net" for p
  proof -
    obtain i where i: "place_of_block f' i = Some p" "place_label p = basic_block_place_label (fn_name f') i"
      by (rule new_place_of_block [OF assms(2) start p])
    have "place_of_block f i = None"
      using open_frame_block [OF assms(1)] i(1) p(2) assms(3) by (cases "place_of_block f i") (auto simp: same_function_def)
    then have "hm_get (fn_basic_blocks f) i = None" by (simp add: place_of_block_def)
    moreover have "fresh_frame net f" "fn_name f' = fn_name f" using assms(1,3) by (simp_all add: frame_defs same_function_def)
    ultimately have "basic_block_place_label (fn_name f') i \<notin> place_label ` places net" by (simp add: fresh_frame_def)
    with i show ?thesis by auto
  qed
  fix p q
  assume pq: "p \<in> places net'" "q \<in> places net'" "place_label p = place_label q"
  show "p = q"
  proof (cases "p \<in> places net"; cases "q \<in> places net")
    assume "p \<notin> places net" "q \<notin> places net"
    with new [OF pq(1)] new [OF pq(2)] pq(3) show ?thesis by (auto simp: inj_block_label)
  qed (use pq new assms(4) in \<open>metis imageI inj_onD\<close>)+
qed

lemma frame_draws:
  assumes frame: "open_frame net g f" and step: "translates_to net pe pp f' net' es" "same_function f f'" and G: "graph net G"
    and ends: "place_label pe = PROGRAM_END" "place_label pp = PROGRAM_PANIC"
    and first: "place_of_block f' (in_first g) = Some (fn_start_place f)"
  shows "in_frame net' g f'" "graph net' (G @ map (place_edge g) es)" "grown net net' [in_name g]"
proof -
  have f': "fresh_frame net f'" using frame same_function_facts(1) [OF step(2)] by (simp add: frame_defs)
  have old: "places net \<subseteq> places net'" and names: "fn_name f' = in_name g"
    using step frame by (auto simp: translates_to_def realises_def same_function_def frame_defs)
  from step(1) obtain ts where ts: "realises transition_label (view net) (view net') f' pe pp ts es"
    by (auto simp: translates_to_def)
  have "fresh_frame net' f'"
    using f' old absent_block_label [OF step(1) f'] by (auto simp: fresh_frame_def)
  then show frame': "in_frame net' g f'"
    using frame step first by (simp add: frame_defs translates_to_def same_function_def)
  show "grown net net' [in_name g]"
    unfolding grown_def using ts old f' names
    by (auto simp: realises_def fresh_frame_def elim!: new_place_of_block [OF step(1)])
  have "moves place_label transition_label (view net') t (place_edge g e)"
    if "represents transition_label (view net') f' pe pp t e" for t e
  proof -
    obtain l i target where e: "e = (l, i, target)" by (cases e)
    from that e obtain p q where pq: "place_of_block f' i = Some p" "place_of_target f' pe pp target = Some q"
      "transition_label t = l" "pn_pre (view net') t = single p" "pn_post (view net') t = single q"
      by (auto simp: represents_def)
    have "q \<in> places net' \<and> place_label q = target_node g target"
      using pq(2) frame' step(1) ends in_frame_node [OF frame']
      by (auto simp: place_of_target_def target_node_def frame_defs frame_ok_def translates_to_def split: target.splits)
    with pq in_frame_node [OF frame' pq(1)] show ?thesis by (auto simp: moves_def place_edge_def e)
  qed
  then have moves: "list_all2 (moves place_label transition_label (view net')) ts (map (place_edge g) es)"
    using ts unfolding list_all2_map2 realises_def by (auto elim: list_all2_mono)
  have "inj_on place_label (places net')"
    using labels_stay_distinct [OF frame step] G by (simp add: is_graph_def)
  then show "graph net' (G @ map (place_edge g) es)"
    using is_graph_extend [OF G old _ _ _ _ _ moves] ts by (auto simp: realises_def)
qed

lemma in_frame_draws:
  assumes "in_frame net g f" "translates_to net pe pp f' net' es" "same_function f f'" "graph net G"
    "place_label pe = PROGRAM_END" "place_label pp = PROGRAM_PANIC"
  shows "in_frame net' g f'" "graph net' (G @ map (place_edge g) es)" "grown net net' [in_name g]"
proof -
  have frame: "open_frame net g f" "place_of_block f' (in_first g) = Some (fn_start_place f)"
    using assms(1,3) by (simp_all add: in_frame_def same_function_def)
  note frame_draws [OF frame(1) assms(2-6) frame(2)]
  then show "in_frame net' g f'" "graph net' (G @ map (place_edge g) es)" "grown net net' [in_name g]" .
qed

lemma graph_connect:
  assumes "graph net G" "s \<in> places net" "e \<in> places net" "l \<notin> set (map fst G)"
  obtains t net' where "connect_places N net s e l = Inr (t, net')" "graph net' (G @ [(l, place_label s, Some (place_label e))])"
    "places net' = places net" "pn_tokens (view net') = pn_tokens (view net)"
proof -
  have "l \<notin> transition_label ` transitions net" using assms(1,4) is_graph_labels by blast
  from connect_places_fresh [OF assms(2,3) this] obtain t net' where t: "connect_places N net s e l = Inr (t, net')"
    "t \<notin> transitions net" "transition_label t = l" "view net' = insert_edge t s e (view net)" .
  have "pn_pre (view net') t = single s" "pn_post (view net') t = single e"
    using no_dangling_arcs [OF t(2)] t(4) by (auto simp: single_def fun_eq_iff)
  with t assms(2,3) have "moves place_label transition_label (view net') t (l, place_label s, Some (place_label e))"
    by (auto simp: moves_def)
  then have "graph net' (G @ [(l, place_label s, Some (place_label e))])"
    by (intro is_graph_extend [OF assms(1), where ts = "[t]"]) (use t assms(1) in \<open>auto simp: is_graph_def\<close>)
  with t(1,4) show ?thesis by (intro that [of t net']) simp_all
qed

text \<open>The dead end of a call that does not return.\<close>

lemma graph_diverge:
  assumes "graph net G" "s \<in> places net" "diverging_call_transition_label name \<notin> set (map fst G)"
  obtains net' where "call_diverging_function N s name net = Inr net'"
    "graph net' (G @ [(diverging_call_transition_label name, place_label s, None)])"
    "places net' = places net" "pn_tokens (view net') = pn_tokens (view net)"
proof -
  let ?l = "diverging_call_transition_label name"
  obtain t n1 where t: "net_add_transition N ?l net = (t, n1)" by fastforce
  have "?l \<notin> transition_label ` transitions net" using assms(1,3) is_graph_labels by blast
  note f = add_transition_fresh [OF this t]
  note z = no_dangling_arcs [of t net]
  obtain n2 where n2: "add_arc_place_transition N n1 s t = Inr n2" "view n2 = insert_arc_pt s t (view n1)"
    by (rule add_arc_pt_new [of s n1 t]) (use f z assms(2) in simp_all)
  have "pn_pre (view n2) t = single s" "pn_post (view n2) t = (\<lambda>_. 0)"
    using f z n2(2) by (auto simp: single_def fun_eq_iff)
  with f n2(2) assms(2) have "moves place_label transition_label (view n2) t (?l, place_label s, None)"
    by (auto simp: moves_def)
  then have "graph n2 (G @ [(?l, place_label s, None)])"
    by (intro is_graph_extend [OF assms(1), where ts = "[t]"]) (use f n2(2) assms(1) in \<open>auto simp: is_graph_def\<close>)
  with t n2 f show ?thesis by (intro that [of n2]) (simp_all add: call_diverging_function_def)
qed

lemma graph_foreign:
  assumes "graph net G" "set_call_places pl \<subseteq> places net"
    "distinct (map fst (G @ foreign_edges name k (map_call_places place_label pl)))"
  obtains ts net' where "call_foreign_function N name k pl net = Inr (ts, net')"
    "graph net' (G @ foreign_edges name k (map_call_places place_label pl))"
    "places net' = places net" "pn_tokens (view net') = pn_tokens (view net)"
proof -
  obtain dl cl where l: "foreign_call_transition_labels name k = (dl, cl)" by fastforce
  show ?thesis
  proof (cases pl)
    case (Basic_Places s e)
    have "s \<in> places net" "e \<in> places net" "dl \<notin> set (map fst G)"
      using assms(2,3) Basic_Places l by (auto simp: foreign_edges_def)
    from graph_connect [OF assms(1) this] obtain t net' where "connect_places N net s e dl = Inr (t, net')"
      "graph net' (G @ [(dl, place_label s, Some (place_label e))])"
      "places net' = places net" "pn_tokens (view net') = pn_tokens (view net)" .
    with Basic_Places l show ?thesis
      by (intro that [of "Basic_Transitions t" net']) (simp_all add: call_foreign_function_def foreign_edges_def)
  next
    case (WithCleanup_Places s e c)
    let ?d = "(dl, place_label s, Some (place_label e))"
    have pl: "s \<in> places net" "e \<in> places net" "c \<in> places net" and "dl \<notin> set (map fst G)" "cl \<notin> set (map fst (G @ [?d]))"
      using assms(2,3) WithCleanup_Places l by (auto simp: foreign_edges_def)
    obtain t n1 where 1: "connect_places N net s e dl = Inr (t, n1)" "graph n1 (G @ [?d])"
      "places n1 = places net" "pn_tokens (view n1) = pn_tokens (view net)"
      by (rule graph_connect [OF assms(1) pl(1,2) \<open>dl \<notin> _\<close>])
    obtain t' n2 where "connect_places N n1 s c cl = Inr (t', n2)" "graph n2 ((G @ [?d]) @ [(cl, place_label s, Some (place_label c))])"
      "places n2 = places n1" "pn_tokens (view n2) = pn_tokens (view n1)"
      by (rule graph_connect [OF 1(2) _ _ \<open>cl \<notin> _\<close>, of s c]) (use 1(3) pl in simp_all)
    with 1 l WithCleanup_Places show ?thesis
      by (intro that [of "WithCleanup_Transitions t t'" n2]) (simp_all add: call_foreign_function_def foreign_edges_def)
  qed
qed

section \<open>The state of the translator\<close>

definition context_ok :: "('n, 'p, 't) translator \<Rightarrow> bool" where
  "context_ok st \<longleftrightarrow> program_end st \<in> places (tr_net st) \<and> place_label (program_end st) = PROGRAM_END \<and>
     program_panic st \<in> places (tr_net st) \<and> place_label (program_panic st) = PROGRAM_PANIC"

definition same_context :: "('n, 'p, 't) translator \<Rightarrow> ('n, 'p, 't) translator \<Rightarrow> bool" where
  "same_context st st' \<longleftrightarrow> program_start st' = program_start st \<and> program_end st' = program_end st \<and>
     program_panic st' = program_panic st \<and> threads st' = threads st \<and> postprocessing st' = postprocessing st"

lemma same_context_trans: "same_context a b \<Longrightarrow> same_context b c \<Longrightarrow> same_context a c"
  by (simp add: same_context_def)

text \<open>
  The edges \<open>G\<close> were drawn, with the body \<open>g\<close> on top of the call stack and its block \<open>i\<close> active,
  and each function was called \<open>n\<close> times.
\<close>

definition drawn ::
  "('n, 'p, 't) translator \<Rightarrow> 'p mir_function stack \<Rightarrow> inlined \<Rightarrow> block_index \<Rightarrow> place_edge list \<Rightarrow> (string \<Rightarrow> nat) \<Rightarrow> bool" where
  "drawn st t g i G n \<longleftrightarrow> context_ok st \<and> graph (tr_net st) G \<and> count_of (function_counter st) = n \<and>
     (\<exists>f. call_stack st = push f t \<and> in_frame (tr_net st) g f \<and> fn_active_block f = Some i)"

lemma drawnE:
  assumes "drawn st t g i G n"
  obtains f where "call_stack st = push f t" "in_frame (tr_net st) g f" "fn_active_block f = Some i" "context_ok st"
    "graph (tr_net st) G" "count_of (function_counter st) = n" "program_end st \<in> places (tr_net st)"
    "program_panic st \<in> places (tr_net st)" "place_label (program_end st) = PROGRAM_END"
    "place_label (program_panic st) = PROGRAM_PANIC"
  using assms by (auto simp: drawn_def context_ok_def)

text \<open>A visit returns, and draws.\<close>

definition draws ::
  "('n, 'p, 't) translator \<Rightarrow> ('n, 'p, 't) translator res \<Rightarrow> 'p mir_function stack \<Rightarrow> inlined \<Rightarrow> block_index \<Rightarrow>
   place_edge list \<Rightarrow> (string \<Rightarrow> nat) \<Rightarrow> string list \<Rightarrow> bool" where
  "draws st r t g i G n names \<longleftrightarrow> (\<exists>st'. r = Inr st' \<and> drawn st' t g i G n \<and> same_context st st' \<and>
     grown (tr_net st) (tr_net st') names)"

lemma draws_frame:
  assumes drawn: "drawn st t g i G n" and f: "call_stack st = push f t"
    and step: "translates_to (tr_net st) (program_end st) (program_panic st) f' net' es" "same_function f f'" "fn_active_block f' = Some j"
  shows "draws st (Inr (st\<lparr>tr_net := net', call_stack := push f' t\<rparr>)) t g j (G @ map (place_edge g) es) n [in_name g]"
proof -
  from drawn f have st: "in_frame (tr_net st) g f" "context_ok st" "graph (tr_net st) G" "count_of (function_counter st) = n"
    by (auto elim!: drawnE)
  have ends: "place_label (program_end st) = PROGRAM_END" "place_label (program_panic st) = PROGRAM_PANIC"
    using st(2) by (simp_all add: context_ok_def)
  note d = in_frame_draws [OF st(1) step(1,2) st(3) ends]
  with st step(3) show ?thesis
    by (auto simp: draws_def drawn_def same_context_def context_ok_def grown_def)
qed

lemma draws_local:
  assumes drawn: "drawn st t g i G n" and k: "is_local k"
    and labels: "distinct (map fst (G @ map (place_edge g) (terminator_edges (in_name g) i k)))"
  shows "draws st (visit N tcx rec (VisitTerminator k) st) t g i (G @ map (place_edge g) (terminator_edges (in_name g) i k)) n [in_name g]"
proof -
  from drawn obtain f where f: "call_stack st = push f t" "in_frame (tr_net st) g f" "fn_active_block f = Some i"
    "graph (tr_net st) G" "program_end st \<in> places (tr_net st)" "program_panic st \<in> places (tr_net st)"
    by (rule drawnE)
  have name: "fn_name f = in_name g" and frame: "fresh_frame (tr_net st) f" "guard_free f"
    using f(2) by (simp_all add: frame_defs guard_free_def is_mutex_guard_def memory_default_def)
  have "fresh_edges (tr_net st) [] (terminator_edges (fn_name f) i k)"
    using labels is_graph_labels [OF f(4)] by (auto simp: fresh_edges_def name comp_def)
  from visit_local [OF f(1) in_frame_translates [OF f(2,5,6)] frame(1) f(3) this k frame(2), of tcx rec]
  obtain f' net' where "visit N tcx rec (VisitTerminator k) st = Inr (st\<lparr>tr_net := net', call_stack := push f' t\<rparr>)"
    "translates_to (tr_net st) (program_end st) (program_panic st) f' net' (terminator_edges (in_name g) i k)" "frame_kept f f'"
    by (auto simp: name)
  with draws_frame [OF drawn f(1)] f(3) show ?thesis by (simp add: same_function_kept frame_kept_simps)
qed

lemma draws_block:
  assumes "drawn st t g i G n"
  shows "draws st (visit N tcx rec (VisitBasicBlockData j) st) t g j G n [in_name g]"
proof -
  from assms obtain f where f: "call_stack st = push f t" "in_frame (tr_net st) g f"
    "program_end st \<in> places (tr_net st)" "program_panic st \<in> places (tr_net st)"
    by (rule drawnE)
  have "fresh_frame (tr_net st) f" using f(2) by (simp add: frame_defs)
  from visit_block [OF f(1) in_frame_translates [OF f(2-4)] this, of tcx rec j] draws_frame [OF assms f(1), where es = "[]"]
  show ?thesis by auto
qed

lemma draws_assign:
  assumes "drawn st t g i G n" "sync_free tcx"
  shows "visit N tcx rec (VisitAssign place rvalue) st = Inr st"
proof -
  from assms(1) obtain f where f: "call_stack st = push f t" by (rule drawnE)
  have "places_with_sync_variables operands d tcx = []" for operands d
    using assms(2) by (induction operands) (simp_all add: sync_free_def split: operand.splits option.splits)
  moreover have "st\<lparr>call_stack := push f t\<rparr> = st" using f by (cases st) simp
  ultimately show ?thesis
    using assms(2) f
    by (auto simp: visit_def visit_assign_def link_if_sync_variable_def handle_aggregate_assignment_def sync_free_def Let_def
        split: rvalue.splits operand.splits)
qed

section \<open>Calls\<close>

text \<open>The places of a call: those of blocks are created when they are missing.\<close>

definition finds_places ::
  "'n \<Rightarrow> inlined \<Rightarrow> 'p mir_function \<Rightarrow> place_edge list \<Rightarrow> 'p mir_function \<Rightarrow> 'n \<Rightarrow> bool" where
  "finds_places net g f G f' net' \<longleftrightarrow> in_frame net' g f' \<and> frame_kept f f' \<and> graph net' G \<and> grown net net' [in_name g]"

lemma finds_places_refl: "in_frame net g f \<Longrightarrow> graph net G \<Longrightarrow> finds_places net g f G f net"
  by (simp add: finds_places_def grown_same)

lemma finds_places_trans:
  "finds_places net g f G f' net' \<Longrightarrow> finds_places net' g f' G f'' net'' \<Longrightarrow> finds_places net g f G f'' net''"
  unfolding finds_places_def by (auto intro: frame_kept_trans grown_trans)

lemma end_place_found:
  assumes "in_frame net g f" "graph net G" "pe \<in> places net" "pp \<in> places net"
    "place_label pe = PROGRAM_END" "place_label pp = PROGRAM_PANIC"
  obtains p f' net' where "get_end_place_for_function_call N j f net = Inr (p, f', net')" "finds_places net g f G f' net'"
    "p \<in> places net'" "place_label p = block_node g j"
proof -
  have fresh: "fresh_frame net f" using assms(1) by (simp add: frame_defs)
  obtain f' net' where f': "add_basic_block_if_absent N j f net = Inr (f', net')" "translates_to net pe pp f' net' []"
    "frame_kept f f'" "hm_get (fn_basic_blocks f') j \<noteq> None"
    by (rule add_block [OF in_frame_translates [OF assms(1,3,4)] fresh])
  note d = in_frame_draws [OF assms(1) f'(2) same_function_kept [OF f'(3)] assms(2,5,6)]
  from f'(4) obtain b where b: "hm_get (fn_basic_blocks f') j = Some b" by blast
  then have "place_of_block f' j = Some (block_place b)" by (simp add: place_of_block_def)
  from in_frame_node [OF d(1) this] d f' b show ?thesis
    by (intro that [of "block_place b" f' net'])
      (simp_all add: get_end_place_for_function_call_def get_or_add_basic_block_def finds_places_def)
qed

lemma end_place_found':
  assumes "in_frame net g f" "graph net G" "{sp, pe, pp} \<subseteq> places net"
    "place_label pe = PROGRAM_END" "place_label pp = PROGRAM_PANIC"
  obtains p f' net' where "get_end_place_for_function_call N j f net = Inr (p, f', net')" "finds_places net g f G f' net'"
    "{sp, pe, pp, p} \<subseteq> places net'" "place_label p = block_node g j"
proof (rule end_place_found [OF assms(1,2) _ _ assms(4,5), of j])
  fix p f' net'
  assume found: "get_end_place_for_function_call N j f net = Inr (p, f', net')" "finds_places net g f G f' net'" "p \<in> places net'"
    "place_label p = block_node g j"
  moreover have "places net \<subseteq> places net'" using found(2) by (simp add: finds_places_def grown_def)
  ultimately show ?thesis using that assms(3) by blast
qed (use assms(3) in auto)

definition call_places_found ::
  "'n \<Rightarrow> inlined \<Rightarrow> 'p mir_function \<Rightarrow> place_edge list \<Rightarrow> string call_places \<Rightarrow> ('p call_places option \<times> 'p mir_function \<times> 'n) res \<Rightarrow> bool" where
  "call_places_found net g f G nodes r \<longleftrightarrow> (\<exists>pl f' net'. r = Inr (Some pl, f', net') \<and> finds_places net g f G f' net' \<and>
     set_call_places pl \<subseteq> places net' \<and> map_call_places place_label pl = nodes)"

lemma call_places_foundI:
  "r = Inr (Some pl, f', net') \<Longrightarrow> finds_places net g f G f' net' \<Longrightarrow> set_call_places pl \<subseteq> places net' \<Longrightarrow>
   map_call_places place_label pl = nodes \<Longrightarrow> call_places_found net g f G nodes r"
  unfolding call_places_found_def by blast

lemma places_without_return_found:
  assumes frame: "in_frame net g f" "graph net G" and ends: "{sp, pe, pp} \<subseteq> places net"
    "place_label pe = PROGRAM_END" "place_label pp = PROGRAM_PANIC" "place_label sp = block_node g i"
    and nodes: "call_nodes g i None on_unwind = Some nodes"
  shows "call_places_found net g f G nodes (places_for_call N name sp None on_unwind pp pe f net)"
proof (cases on_unwind)
  case (Cleanup c)
  obtain p f' net' where "get_end_place_for_function_call N c f net = Inr (p, f', net')"
    "finds_places net g f G f' net'" "{sp, pe, pp, p} \<subseteq> places net'" "place_label p = block_node g c"
    by (rule end_place_found' [OF frame ends(1-3)])
  with Cleanup nodes ends(4) show ?thesis
    by (intro call_places_foundI [of _ "Basic_Places sp p" f' net']) (auto simp: places_for_call_def call_nodes_def)
next
  case Terminate
  with nodes ends show ?thesis
    by (intro call_places_foundI [OF _ finds_places_refl [OF frame], of _ "Basic_Places sp pp"])
      (auto simp: places_for_call_def call_nodes_def)
next
  case Unreachable_Unwind
  with nodes ends show ?thesis
    by (intro call_places_foundI [OF _ finds_places_refl [OF frame], of _ "Basic_Places sp pe"])
      (auto simp: places_for_call_def call_nodes_def)
qed (use nodes in \<open>simp add: call_nodes_def\<close>)

lemma places_with_return_found:
  assumes frame: "in_frame net g f" "graph net G" and ends: "{sp, pe, pp} \<subseteq> places net"
    "place_label pe = PROGRAM_END" "place_label pp = PROGRAM_PANIC" "place_label sp = block_node g i"
    and nodes: "call_nodes g i (Some r) on_unwind = Some nodes"
  shows "call_places_found net g f G nodes (places_for_call N name sp (Some r) on_unwind pp pe f net)"
proof -
  obtain p f' net' where 1: "get_end_place_for_function_call N r f net = Inr (p, f', net')"
    "finds_places net g f G f' net'" "{sp, pe, pp, p} \<subseteq> places net'" "place_label p = block_node g r"
    by (rule end_place_found' [OF frame ends(1-3)])
  show ?thesis
  proof (cases on_unwind)
    case (Cleanup c)
    have frame': "in_frame net' g f'" "graph net' G" using 1(2) by (simp_all add: finds_places_def)
    obtain q f'' net'' where 2: "get_end_place_for_function_call N c f' net' = Inr (q, f'', net'')"
      "finds_places net' g f' G f'' net''" "q \<in> places net''" "place_label q = block_node g c"
      by (rule end_place_found [OF frame' _ _ ends(2,3), of c]) (use 1(3) in auto)
    have "places net' \<subseteq> places net''" using 2(2) by (simp add: finds_places_def grown_def)
    with 1 2 Cleanup nodes ends show ?thesis
      by (intro call_places_foundI [OF _ finds_places_trans [OF 1(2) 2(2)], of _ "WithCleanup_Places sp p q"])
        (auto simp: places_for_call_def call_nodes_def)
  next
    case Continue
    with 1 nodes ends show ?thesis
      by (intro call_places_foundI [OF _ 1(2), of _ "Basic_Places sp p"]) (auto simp: places_for_call_def call_nodes_def)
  next
    case Terminate
    with 1 nodes ends show ?thesis
      by (intro call_places_foundI [OF _ 1(2), of _ "WithCleanup_Places sp p pp"]) (auto simp: places_for_call_def call_nodes_def)
  next
    case Unreachable_Unwind
    with 1 nodes ends show ?thesis
      by (intro call_places_foundI [OF _ 1(2), of _ "WithCleanup_Places sp p pe"]) (auto simp: places_for_call_def call_nodes_def)
  qed
qed

lemma places_for_call_found:
  assumes frame: "in_frame net g f" "graph net G" and sp: "place_of_block f i = Some sp"
    and ends: "pe \<in> places net" "pp \<in> places net" "place_label pe = PROGRAM_END" "place_label pp = PROGRAM_PANIC"
    and nodes: "call_nodes g i target on_unwind = Some nodes"
  shows "call_places_found net g f G nodes (places_for_call N name sp target on_unwind pp pe f net)"
proof -
  have "{sp, pe, pp} \<subseteq> places net" using in_frame_node(2) [OF frame(1) sp] ends by simp
  note facts = frame this ends(3,4) in_frame_node(1) [OF frame(1) sp]
  show ?thesis
  proof (cases target)
    case None
    with places_without_return_found [OF facts] nodes show ?thesis by simp
  next
    case (Some r)
    with places_with_return_found [OF facts] nodes show ?thesis by simp
  qed
qed

lemma draws_foreign:
  assumes drawn: "drawn st t g i G n" and sync: "sync_free tcx"
    and pl: "set_call_places pl \<subseteq> places (tr_net st)" "map_call_places place_label pl = nodes"
    and labels: "distinct (map fst (G @ foreign_edges name (n name) nodes))"
  obtains ts st' where "translator_call_foreign_function N tcx name args destination pl st = Inr (ts, st')"
    "drawn st' t g i (G @ foreign_edges name (n name) nodes) n" "same_context st st'" "grown (tr_net st) (tr_net st') []"
proof -
  from drawn obtain f where f: "call_stack st = push f t" "in_frame (tr_net st) g f" "fn_active_block f = Some i" "context_ok st"
    "graph (tr_net st) G" "count_of (function_counter st) = n" by (rule drawnE)
  obtain c where c: "get_count name (function_counter st) = (n name, c)" "count_of c = n"
    using f(6) function_counter.read_value [of name "function_counter st"] function_counter.abs_read [of name "function_counter st"]
    by (metis prod.collapse)
  have labels': "distinct (map fst (G @ foreign_edges name (n name) (map_call_places place_label pl)))"
    using labels pl(2) by simp
  obtain ts net' where net': "call_foreign_function N name (n name) pl (tr_net st) = Inr (ts, net')"
    "graph net' (G @ foreign_edges name (n name) (map_call_places place_label pl))"
    "places net' = places (tr_net st)" "pn_tokens (view net') = pn_tokens (view (tr_net st))"
    by (rule graph_foreign [OF f(5) pl(1) labels'])
  have link: "link_return_value_if_sync_variable args destination m d tcx = Inr m" for m d
    using sync by (simp add: link_return_value_if_sync_variable_def link_if_sync_variable_def sync_free_def split: option.splits)
  have "in_frame net' g f" using f(2) in_frame_places [OF net'(3)] by simp
  then show ?thesis
    by (intro that [of ts "st\<lparr>function_counter := c, tr_net := net', call_stack := push f t\<rparr>"])
      (use f c net' link pl(2) in \<open>auto simp: translator_call_foreign_function_def drawn_def context_ok_def same_context_def grown_same\<close>)
qed

text \<open>The dispatch: a sequential call of a foreign function only draws the edges of the call.\<close>

lemma no_self_ref_mutex:
  assumes "drawn st t g i G n" "sync_free tcx" "extract_nth_argument_as_place args 0 \<noteq> None"
  shows "is_self_ref_mutex tcx name args st = Inr False"
  using assms by (auto simp: is_self_ref_mutex_def sync_free_def check_if_sync_variable_def elim!: drawnE)

lemma mem_drop_plain:
  assumes "translator_call_foreign_function N tcx name args destination pl st = Inr (ts, st')" "drawn st' t g i G n"
    "extract_nth_argument_as_place args 0 \<noteq> None"
  shows "call_mem_drop N tcx name args destination pl st = Inr st'"
proof -
  from assms(2) obtain f where f: "call_stack st' = push f t" "fn_memory f = memory_default"
    by (auto elim!: drawnE simp: frame_defs)
  have "handle_mutex_guard_drop N place tr net memory_default c = Inr net" for place tr net c
    by (simp add: handle_mutex_guard_drop_def is_mutex_guard_def memory_default_def)
  with assms(1,3) f show ?thesis
    by (auto simp: call_mem_drop_def Let_def split: call_transitions.split)
qed

lemma start_foreign_call:
  assumes drawn: "drawn st t g i G n" and sync: "sync_free tcx" and call: "sequential_call name args" "is_foreign_function d name tcx"
    and foreign: "translator_call_foreign_function N tcx name args destination pl st = Inr (ts, st')"
    and drawn': "drawn st' t g i G' n"
  shows "start_function_call N tcx rec d name args destination pl st = Inr st'"
proof -
  have names: "\<not> is_supported_function name" "name \<noteq> ''std::thread::spawn''"
    using call(1) by (auto simp: sequential_call_def is_supported_function_def)
  have deref: "(if name = ''std::ops::Deref::deref'' \<or> name = ''std::ops::DerefMut::deref_mut''
      then is_self_ref_mutex tcx name args st else Inr False) = Inr False"
    and unwrap: "(if name = ''std::result::Result::<T, E>::unwrap'' then is_self_ref_mutex tcx name args st else Inr False) = Inr False"
    using call(1) no_self_ref_mutex [OF drawn sync, of args name] unfolding sequential_call_def by (metis insertCI)+
  show ?thesis
  proof (cases "name = ''std::mem::drop''")
    case True
    have "extract_nth_argument_as_place args 0 \<noteq> None" using call(1) True by (simp add: sequential_call_def)
    from mem_drop_plain [OF foreign drawn' this] show ?thesis
      unfolding start_function_call_def if_P [OF True] .
  next
    case False
    show ?thesis
      unfolding start_function_call_def if_not_P [OF False] deref unwrap and_then_Inr if_False if_not_P [OF names(2)]
        if_not_P [OF names(1)] if_P [OF call(2)] foreign prod.case ..
  qed
qed

lemma start_mir_call:
  assumes "\<not> is_foreign_function d name tcx"
  shows "start_function_call N tcx rec d name args destination pl st = call_mir_function N rec d name pl st"
proof -
  have std: "\<not> starts_with name ''std::''" using assms by (simp add: is_foreign_function_def)
  have "name \<noteq> ''std::mem::drop''" "\<not> (name = ''std::ops::Deref::deref'' \<or> name = ''std::ops::DerefMut::deref_mut'')"
    "name \<noteq> ''std::result::Result::<T, E>::unwrap''" "name \<noteq> ''std::thread::spawn''" "\<not> is_supported_function name"
    using std by (auto simp: starts_with_def is_supported_function_def)
  note names = this [THEN if_not_P]
  show ?thesis
    unfolding start_function_call_def names and_then_Inr if_False if_not_P [OF assms] ..
qed

text \<open>The contract of the recursive call: started on a new frame, it draws the edges of the body.\<close>

definition inlines :: "('n, 'p, 't) step \<Rightarrow> expander \<Rightarrow> bool" where
  "inlines rec expand \<longleftrightarrow> (\<forall>st t d name sp ep es names n' G.
     context_ok st \<longrightarrow> call_stack st = push (mir_function_new d name sp ep) t \<longrightarrow> {sp, ep} \<subseteq> places (tr_net st) \<longrightarrow>
     graph (tr_net st) G \<longrightarrow>
     expand d name (place_label sp) (place_label ep) (count_of (function_counter st)) = Some (es, names, n') \<longrightarrow>
     distinct (map fst (G @ es)) \<longrightarrow> distinct (map sanitize names) \<longrightarrow> unused (tr_net st) names \<longrightarrow>
     (\<exists>st'. rec st = Inr st' \<and> call_stack st' = t \<and> context_ok st' \<and> graph (tr_net st') (G @ es) \<and>
        count_of (function_counter st') = n' \<and> same_context st st' \<and> grown (tr_net st) (tr_net st') names))"

lemma unwind_edge_drawn:
  assumes "graph net G" "set_call_places pl \<subseteq> places net"
    "distinct (map fst (G @ unwind_edges name k (map_call_places place_label pl)))"
  obtains net' where "graph net' (G @ unwind_edges name k (map_call_places place_label pl))" "places net' = places net"
    "pn_tokens (view net') = pn_tokens (view net)"
    "\<And>st rec d. tr_net st = net \<Longrightarrow> fst (get_count name (function_counter st)) = k \<Longrightarrow>
      call_mir_function N rec d name pl st = rec (st\<lparr>function_counter := snd (get_count name (function_counter st)), tr_net := net',
        call_stack := push (mir_function_new d (indexed_mir_function_name name k) (fst (get_start_end_place pl))
          (snd (get_start_end_place pl))) (call_stack st)\<rparr>)"
proof (cases pl)
  case (Basic_Places s e)
  have "st\<lparr>function_counter := c, tr_net := tr_net st, call_stack := x\<rparr> = st\<lparr>function_counter := c, call_stack := x\<rparr>"
    for st :: "('n, 'p, 't) translator" and c x by simp
  with Basic_Places assms show ?thesis
    by (intro that [of net]) (auto simp: unwind_edges_def call_mir_function_def get_start_end_place_def Let_def case_prod_unfold)
next
  case (WithCleanup_Places s e c)
  let ?l = "indexed_mir_function_cleanup_label name k"
  have "s \<in> places net" "c \<in> places net" "?l \<notin> set (map fst G)"
    using assms(2,3) WithCleanup_Places by (auto simp: unwind_edges_def)
  then obtain tr net' where "connect_places N net s c ?l = Inr (tr, net')" "graph net' (G @ [(?l, place_label s, Some (place_label c))])"
    "places net' = places net" "pn_tokens (view net') = pn_tokens (view net)"
    by (rule graph_connect [OF assms(1)])
  with WithCleanup_Places show ?thesis
    by (intro that [of net']) (auto simp: unwind_edges_def call_mir_function_def get_start_end_place_def Let_def case_prod_unfold)
qed

lemma draws_mir:
  assumes drawn: "drawn st t g i G n" and rec: "inlines rec expand"
    and pl: "set_call_places pl \<subseteq> places (tr_net st)" "map_call_places place_label pl = nodes"
    and expand: "expand d (indexed_mir_function_name name (n name)) (fst (get_start_end_place nodes))
      (snd (get_start_end_place nodes)) n = Some (es, names, n')"
    and labels: "distinct (map fst (G @ unwind_edges name (n name) nodes @ es))"
    and names: "distinct (map sanitize (in_name g # names))" "unused (tr_net st) names"
  shows "draws st (call_mir_function N rec d name pl st) t g i (G @ unwind_edges name (n name) nodes @ es) n' names"
proof -
  from drawn obtain f where f: "call_stack st = push f t" "in_frame (tr_net st) g f" "fn_active_block f = Some i" "context_ok st"
    "graph (tr_net st) G" "count_of (function_counter st) = n" by (rule drawnE)
  have k: "fst (get_count name (function_counter st)) = n name" "count_of (snd (get_count name (function_counter st))) = n"
    using f(6) by simp_all
  have "distinct (map fst (G @ unwind_edges name (n name) (map_call_places place_label pl)))"
    using labels pl(2) by auto
  from unwind_edge_drawn [OF f(5) pl(1) this] obtain net' where net':
    "graph net' (G @ unwind_edges name (n name) (map_call_places place_label pl))" "places net' = places (tr_net st)"
    "pn_tokens (view net') = pn_tokens (view (tr_net st))"
    "call_mir_function N rec d name pl st = rec (st\<lparr>function_counter := snd (get_count name (function_counter st)), tr_net := net',
        call_stack := push (mir_function_new d (indexed_mir_function_name name (n name)) (fst (get_start_end_place pl))
          (snd (get_start_end_place pl))) (call_stack st)\<rparr>)" (is "_ = rec ?st")
    using k(1) by metis
  have ends: "place_label (fst (get_start_end_place pl)) = fst (get_start_end_place nodes)"
      "place_label (snd (get_start_end_place pl)) = snd (get_start_end_place nodes)"
      "{fst (get_start_end_place pl), snd (get_start_end_place pl)} \<subseteq> places net'"
    using pl net'(2) by (cases pl; auto simp: get_start_end_place_def)+
  have "context_ok ?st" "unused net' names" "distinct (map sanitize names)"
    using f(4) names net'(2) by (simp_all add: context_ok_def unused_def)
  then obtain st' where st': "rec ?st = Inr st'" "call_stack st' = push f t" "context_ok st'"
    "graph (tr_net st') (G @ unwind_edges name (n name) nodes @ es)" "count_of (function_counter st') = n'"
    "same_context ?st st'" "grown net' (tr_net st') names"
    using rec [unfolded inlines_def, rule_format, of ?st d "indexed_mir_function_name name (n name)"
        "fst (get_start_end_place pl)" "snd (get_start_end_place pl)" "push f t" "G @ unwind_edges name (n name) nodes" es names n']
      f(1) net'(1) expand labels ends k(2) pl(2) by auto
  have grown: "grown (tr_net st) (tr_net st') names" using st'(7) net'(2,3) by (simp add: grown_def)
  then have "in_frame (tr_net st') g f" using names(1) by (intro in_frame_grown [OF f(2)]) auto
  with st' grown f(3) net'(4) show ?thesis
    by (auto simp: draws_def drawn_def same_context_def)
qed

text \<open>A call that neither returns nor unwinds ends in a panic or in a dead end.\<close>

lemma draws_no_return:
  assumes drawn: "drawn st t g i G n" and d: "extract_def_id_of_called_function_from_operand func (in_def_id g) tcx = Inr d"
    and e: "e = (if is_panic_function (def_path_str tcx d)
      then (panic_transition_label (in_name g), block_node g i, Some PROGRAM_PANIC)
      else (diverging_call_transition_label (def_path_str tcx d), block_node g i, None))"
    and labels: "distinct (map fst (G @ [e]))"
  shows "draws st (call_function N tcx rec func args destination None Continue st) t g i (G @ [e]) n names"
proof -
  from drawn obtain f where f: "call_stack st = push f t" "in_frame (tr_net st) g f" "fn_active_block f = Some i" "context_ok st"
    "graph (tr_net st) G" "program_end st \<in> places (tr_net st)" "program_panic st \<in> places (tr_net st)"
    "place_label (program_panic st) = PROGRAM_PANIC" by (rule drawnE)
  obtain a where a: "get_active_block f = Inr a" "place_of_block f i = Some (block_place a)"
    by (rule active_block [OF in_frame_translates [OF f(2,6,7)] f(3)])
  note sp = in_frame_node [OF f(2) a(2)]
  have frame: "fn_name f = in_name g" "fn_def_id f = in_def_id g" using f(2) by (simp_all add: frame_defs)
  let ?name = "def_path_str tcx d"
  have l: "fst e \<notin> set (map fst G)" using labels by simp
  have "\<exists>net'. (if is_panic_function ?name then call_panic_function N (block_place a) (program_panic st) (in_name g) (tr_net st)
        else call_diverging_function N (block_place a) ?name (tr_net st)) = Inr net' \<and>
      graph net' (G @ [e]) \<and> places net' = places (tr_net st) \<and> pn_tokens (view net') = pn_tokens (view (tr_net st))"
  proof (cases "is_panic_function ?name")
    case True
    from graph_connect [OF f(5) sp(2) f(7), of "panic_transition_label (in_name g)"] l e True obtain tr net' where
      "connect_places N (tr_net st) (block_place a) (program_panic st) (panic_transition_label (in_name g)) = Inr (tr, net')"
      "graph net' (G @ [e])" "places net' = places (tr_net st)" "pn_tokens (view net') = pn_tokens (view (tr_net st))"
      by (auto simp: sp(1) f(8))
    with True show ?thesis by (simp add: call_panic_function_def)
  next
    case False
    from graph_diverge [OF f(5) sp(2), of ?name] l e False obtain net' where
      "call_diverging_function N (block_place a) ?name (tr_net st) = Inr net'" "graph net' (G @ [e])"
      "places net' = places (tr_net st)" "pn_tokens (view net') = pn_tokens (view (tr_net st))"
      by (auto simp: sp(1))
    with False show ?thesis by auto
  qed
  then obtain net' where net': "(if is_panic_function ?name
        then call_panic_function N (block_place a) (program_panic st) (in_name g) (tr_net st)
        else call_diverging_function N (block_place a) ?name (tr_net st)) = Inr net'"
    "graph net' (G @ [e])" "places net' = places (tr_net st)" "pn_tokens (view net') = pn_tokens (view (tr_net st))" by blast
  have "call_function N tcx rec func args destination None Continue st = Inr (st\<lparr>tr_net := net', call_stack := push f t\<rparr>)"
    using f(1) d a(1) net'(1)
    by (simp add: call_function_def frame get_start_place_for_function_call_def places_for_call_def Let_def split: if_splits)
  with f net' in_frame_places [OF net'(3)] drawn show ?thesis
    by (auto simp: draws_def drawn_def context_ok_def same_context_def grown_same)
qed

lemma draws_counter:
  assumes "draws st r t g i G n names"
  shows "draws st (and_then r (\<lambda>st. Inr (st\<lparr>function_counter := increment name (function_counter st)\<rparr>))) t g i G
    (n(name := n name + 1)) names"
  using assms by (fastforce simp: draws_def drawn_def context_ok_def same_context_def)

lemma draws_start:
  assumes drawn: "drawn st t g i G n" and sync: "sync_free tcx" and rec: "inlines rec expand"
    and d: "extract_def_id_of_called_function_from_operand func (in_def_id g) tcx = Inr d"
    and nodes: "call_nodes g i target on_unwind = Some nodes"
    and graph: "call_graph tcx expand g i func args target on_unwind n = Some (es, names, n')"
    and labels: "distinct (map fst (G @ es))"
    and names: "distinct (map sanitize (in_name g # names))" "unused (tr_net st) names"
    and pl: "set_call_places pl \<subseteq> places (tr_net st)" "map_call_places place_label pl = nodes"
  shows "\<exists>n1. n' = n1(def_path_str tcx d := n1 (def_path_str tcx d) + 1) \<and>
    draws st (start_function_call N tcx rec d (def_path_str tcx d) args destination pl st) t g i (G @ es) n1 names"
proof -
  let ?name = "def_path_str tcx d"
  have call: "sequential_call ?name args" using graph d nodes by (simp add: call_graph_def Let_def split: if_splits)
  show ?thesis
  proof (cases "is_foreign_function d ?name tcx")
    case True
    then have es: "es = foreign_edges ?name (n ?name) nodes" "names = []" "n' = n(?name := n ?name + 1)"
      using graph d nodes call by (simp_all add: call_graph_def Let_def)
    obtain ts st' where st': "translator_call_foreign_function N tcx ?name args destination pl st = Inr (ts, st')"
      "drawn st' t g i (G @ es) n" "same_context st st'" "grown (tr_net st) (tr_net st') []"
      using draws_foreign [OF drawn sync pl labels [unfolded es(1)]] es(1) by metis
    from start_foreign_call [OF drawn sync call True st'(1,2)] st' es show ?thesis
      by (intro exI [of _ n]) (simp add: draws_def)
  next
    case False
    with graph d nodes call obtain es' n1 where 1: "expand d (indexed_mir_function_name ?name (n ?name))
        (fst (get_start_end_place nodes)) (snd (get_start_end_place nodes)) n = Some (es', names, n1)"
      "es = unwind_edges ?name (n ?name) nodes @ es'" "n' = n1(?name := n1 ?name + 1)"
      by (auto simp: call_graph_def Let_def split: option.splits)
    from draws_mir [OF drawn rec pl 1(1) labels [unfolded 1(2)] names] 1(2,3) show ?thesis
      unfolding start_mir_call [OF False] by blast
  qed
qed

lemma draws_call:
  assumes drawn: "drawn st t g i G n" and sync: "sync_free tcx" and rec: "inlines rec expand"
    and graph: "call_graph tcx expand g i func args target on_unwind n = Some (es, names, n')"
    and labels: "distinct (map fst (G @ es))"
    and names: "distinct (map sanitize (in_name g # names))" "unused (tr_net st) names"
  shows "draws st (call_function N tcx rec func args destination target on_unwind st) t g i (G @ es) n' (in_name g # names)"
proof -
  from graph obtain d where d: "extract_def_id_of_called_function_from_operand func (in_def_id g) tcx = Inr d"
    by (auto simp: call_graph_def split: sum.splits)
  let ?name = "def_path_str tcx d"
  show ?thesis
  proof (cases "call_nodes g i target on_unwind")
    case None
    then have "target = None" "on_unwind = Continue"
      by (auto simp: call_nodes_def split: option.splits unwind_action.splits)
    moreover from graph d None have "es = [if is_panic_function ?name
        then (panic_transition_label (in_name g), block_node g i, Some PROGRAM_PANIC)
        else (diverging_call_transition_label ?name, block_node g i, None)]" "n' = n"
      by (auto simp: call_graph_def Let_def)
    ultimately show ?thesis using draws_no_return [OF drawn d refl] labels by simp
  next
    case (Some nodes)
    from drawn obtain f where f: "call_stack st = push f t" "in_frame (tr_net st) g f" "fn_active_block f = Some i"
      "graph (tr_net st) G" "count_of (function_counter st) = n" "program_end st \<in> places (tr_net st)"
      "program_panic st \<in> places (tr_net st)" "place_label (program_end st) = PROGRAM_END"
      "place_label (program_panic st) = PROGRAM_PANIC" by (rule drawnE)
    obtain a where a: "get_active_block f = Inr a" "place_of_block f i = Some (block_place a)"
      by (rule active_block [OF in_frame_translates [OF f(2,6,7)] f(3)])
    obtain pl f' net' where pl: "places_for_call N ?name (block_place a) target on_unwind (program_panic st) (program_end st) f (tr_net st) =
        Inr (Some pl, f', net')" "finds_places (tr_net st) g f G f' net'" "set_call_places pl \<subseteq> places net'"
        "map_call_places place_label pl = nodes"
      using places_for_call_found [OF f(2,4) a(2) f(6-9) Some, of ?name] unfolding call_places_found_def by blast
    let ?st = "st\<lparr>tr_net := net', call_stack := push f' t\<rparr>"
    have drawn': "drawn ?st t g i G n" and grown: "grown (tr_net st) net' [in_name g]"
      using pl(2) f by (auto simp: finds_places_def drawn_def context_ok_def frame_kept_simps grown_def)
    have unused: "unused net' names" using names by (intro unused_grown [OF names(2) grown]) auto
    from draws_start [OF drawn' sync rec d Some graph labels names(1)] unused pl(3,4) obtain n1 where
      n1: "n' = n1(?name := n1 ?name + 1)"
      "draws ?st (start_function_call N tcx rec d ?name args destination pl ?st) t g i (G @ es) n1 names" by auto
    have "call_function N tcx rec func args destination target on_unwind st =
        and_then (start_function_call N tcx rec d ?name args destination pl ?st)
          (\<lambda>st. Inr (st\<lparr>function_counter := increment ?name (function_counter st)\<rparr>))"
      using f(1,2) d a(1) pl(1)
      by (simp add: call_function_def frame_defs get_start_place_for_function_call_def Let_def)
    with draws_counter [OF n1(2), of ?name] n1(1) grown_trans [OF grown, of _ names "in_name g # names"] show ?thesis
      by (auto simp: draws_def same_context_def)
  qed
qed

section \<open>Bodies\<close>

lemma draws_then:
  assumes "draws st r t g i G n names"
    "\<And>st'. drawn st' t g i G n \<Longrightarrow> grown (tr_net st) (tr_net st') names \<Longrightarrow> draws st' (k st') t g j G' n' names'"
    "set names \<union> set names' \<subseteq> set names''"
  shows "draws st (and_then r k) t g j G' n' names''"
proof -
  from assms(1) obtain st' where st': "r = Inr st'" "drawn st' t g i G n" "same_context st st'" "grown (tr_net st) (tr_net st') names"
    by (auto simp: draws_def)
  with assms(2) [OF st'(2,4)] show ?thesis
    using grown_trans [OF _ _ assms(3)] by (auto simp: draws_def intro: same_context_trans)
qed

lemma draws_terminator:
  assumes "drawn st t g i G n" "sync_free tcx" "inlines rec expand"
    "terminator_graph tcx expand g i k n = Some (es, names, n')" "distinct (map fst (G @ es))"
    "distinct (map sanitize (in_name g # names))" "unused (tr_net st) names"
  shows "draws st (visit N tcx rec (VisitTerminator k) st) t g i (G @ es) n' (in_name g # names)"
proof (cases "\<exists>func args destination target on_unwind. k = Call func args destination target on_unwind")
  case True
  then obtain func args destination target on_unwind where k: "k = Call func args destination target on_unwind" by blast
  from assms(1) obtain f where "call_stack st = push f t" by (rule drawnE)
  then have "visit N tcx rec (VisitTerminator k) st = call_function N tcx rec func args destination target on_unwind st"
    by (simp add: k visit_def visit_terminator_def Let_def)
  with draws_call [OF assms(1-3) _ assms(5-7)] assms(4) k show ?thesis by (simp add: terminator_graph_def)
next
  case False
  then have "es = map (place_edge g) (terminator_edges (in_name g) i k)" "is_local k" "names = []" "n' = n"
    using assms(4) by (auto simp: terminator_graph_def split: terminator_kind.splits if_splits)
  with draws_local [OF assms(1)] assms(5) show ?thesis by blast
qed

lemma draws_body:
  assumes "drawn st t g i G n" "sync_free tcx" "inlines rec expand"
    "body_graph tcx expand g i visits n = Some (es, names, n')" "distinct (map fst (G @ es))"
    "distinct (map sanitize (in_name g # names))" "unused (tr_net st) names"
  shows "draws st (try_fold (visit N tcx rec) visits st) t g (final_block i visits) (G @ es) n' (in_name g # names)"
  using assms(1,4-7)
proof (induction visits arbitrary: st i G n es names)
  case Nil
  then show ?case by (auto simp: draws_def same_context_def grown_same)
next
  case (Cons v visits)
  show ?case
  proof (cases v)
    case (VisitBasicBlockData j)
    show ?thesis
      unfolding VisitBasicBlockData try_fold.simps final_block.simps
    proof (rule draws_then [OF draws_block [OF Cons.prems(1)]])
      fix st'
      assume st': "drawn st' t g j G n" "grown (tr_net st) (tr_net st') [in_name g]"
      have "unused (tr_net st') names" using Cons.prems(4) by (intro unused_grown [OF Cons.prems(5) st'(2)]) auto
      from Cons.IH [OF st'(1) _ Cons.prems(3,4) this] Cons.prems(2) VisitBasicBlockData
      show "draws st' (try_fold (visit N tcx rec) visits st') t g (final_block j visits) (G @ es) n' (in_name g # names)" by simp
    qed simp
  next
    case (VisitAssign place rvalue)
    with Cons draws_assign [OF Cons.prems(1) assms(2)] show ?thesis by simp
  next
    case (VisitTerminator k)
    with Cons.prems(2) obtain es1 names1 n1 es2 names2 where e:
      "terminator_graph tcx expand g i k n = Some (es1, names1, n1)"
      "body_graph tcx expand g i visits n1 = Some (es2, names2, n')" "es = es1 @ es2" "names = names1 @ names2"
      by (auto split: option.splits)
    have unused: "unused (tr_net st) names1" "unused (tr_net st) names2" using Cons.prems(5) e(4) by (auto simp: unused_def)
    have "draws st (visit N tcx rec v st) t g i (G @ es1) n1 (in_name g # names1)"
      unfolding VisitTerminator
      by (rule draws_terminator [OF Cons.prems(1) assms(2,3) e(1)]) (use Cons.prems(3,4) e unused in auto)
    moreover have "draws st' (try_fold (visit N tcx rec) visits st') t g (final_block i visits) (G @ es) n' (in_name g # names2)"
      if st': "drawn st' t g i (G @ es1) n1" "grown (tr_net st) (tr_net st') (in_name g # names1)" for st'
    proof -
      have "unused (tr_net st') names2"
        by (rule unused_grown [OF unused(2) st'(2)]) (use Cons.prems(4) e(4) in auto)
      with Cons.IH [OF st'(1) e(2)] Cons.prems(3,4) e show ?thesis by simp
    qed
    ultimately show ?thesis
      unfolding VisitTerminator try_fold.simps final_block.simps by (rule draws_then) (use e(4) in auto)
  qed
qed

text \<open>The first block of a body is entered on the new frame.\<close>

lemma draws_first_block:
  assumes ctx: "context_ok st" and f: "call_stack st = push (mir_function_new d name sp ep) t" "{sp, ep} \<subseteq> places (tr_net st)"
    and G: "graph (tr_net st) G" and unused: "unused (tr_net st) [name]"
  shows "draws st (visit N tcx rec (VisitBasicBlockData first) st) t
    \<lparr>in_def_id = d, in_name = name, in_start = place_label sp, in_end = place_label ep, in_first = first\<rparr> first G
    (count_of (function_counter st)) [name]" (is "draws st _ t ?g _ _ _ _")
proof -
  let ?f = "mir_function_new d name sp ep"
  have new: "fn_name ?f = name" "fn_start_place ?f = sp" "fn_end_place ?f = ep" "hm_is_empty (fn_basic_blocks ?f)"
    by (simp_all add: mir_function_new_def hm_is_empty_iff)
  have frame: "open_frame (tr_net st) ?g ?f" "fresh_frame (tr_net st) ?f"
    using f(2) unused by (auto simp: open_frame_def fresh_frame_def blocks_named_def unused_def mir_function_new_def frame_ok_def)
  have ends: "program_end st \<in> places (tr_net st)" "program_panic st \<in> places (tr_net st)"
    "place_label (program_end st) = PROGRAM_END" "place_label (program_panic st) = PROGRAM_PANIC"
    using ctx by (simp_all add: context_ok_def)
  have "translates_to (tr_net st) (program_end st) (program_panic st) ?f (tr_net st) []"
    using frame(1) ends realises_nothing [of transition_label "view (tr_net st)" d name sp ep]
    by (auto simp: translates_to_def open_frame_def)
  from visit_block [OF f(1) this frame(2), of tcx rec first] obtain f' net' where f':
    "visit N tcx rec (VisitBasicBlockData first) st = Inr (st\<lparr>tr_net := net', call_stack := push f' t\<rparr>)"
    "translates_to (tr_net st) (program_end st) (program_panic st) f' net' []" "same_function ?f f'" "fn_active_block f' = Some first"
    "place_of_block f' first = Some (fn_start_place ?f)" using new(4) by blast
  from frame_draws [OF frame(1) f'(2,3) G ends(3,4)] f' ends show ?thesis
    by (auto simp: draws_def drawn_def context_ok_def same_context_def grown_def)
qed

text \<open>The translation of a body draws its inlined graph, whatever the depth of the calls.\<close>

lemma inlines_top_call_stack:
  assumes "sync_free tcx"
  shows "inlines (translate_top_call_stack N tcx depth) (inlined_graph tcx depth)"
proof (induction depth)
  case 0
  show ?case by (simp add: inlines_def)
next
  case (Suc depth)
  show ?case unfolding inlines_def
  proof (intro allI impI)
    fix st t d name sp ep es names n' G
    let ?rec = "translate_top_call_stack N tcx depth"
    assume ctx: "context_ok st" and f: "call_stack st = push (mir_function_new d name sp ep) t" "{sp, ep} \<subseteq> places (tr_net st)"
      and G: "graph (tr_net st) G" and labels: "distinct (map fst (G @ es))" "distinct (map sanitize names)" "unused (tr_net st) names"
      and "inlined_graph tcx (Suc depth) d name (place_label sp) (place_label ep) (count_of (function_counter st)) = Some (es, names, n')"
    then obtain first visits names' where v: "visit_body tcx d = VisitBasicBlockData first # visits" "names = name # names'"
      and g: "body_graph tcx (inlined_graph tcx depth)
        \<lparr>in_def_id = d, in_name = name, in_start = place_label sp, in_end = place_label ep, in_first = first\<rparr>
        first visits (count_of (function_counter st)) = Some (es, names', n')" (is "body_graph _ _ ?g _ _ _ = _")
      by (auto split: list.splits visitor_call.splits)
    have unused: "unused (tr_net st) [name]" "unused (tr_net st) names'" using labels(3) v(2) by (auto simp: unused_def)
    have "draws st (try_fold (visit N tcx ?rec) (visit_body tcx d) st) t ?g (final_block first visits) (G @ es) n' names"
      unfolding v(1) try_fold.simps
    proof (rule draws_then [OF draws_first_block [OF ctx f G unused(1)]])
      fix st'
      assume st': "drawn st' t ?g first G (count_of (function_counter st))" "grown (tr_net st) (tr_net st') [name]"
      have "unused (tr_net st') names'" by (rule unused_grown [OF unused(2) st'(2)]) (use labels(2) v(2) in auto)
      with draws_body [OF st'(1) assms Suc.IH g labels(1)] labels(2) v(2)
      show "draws st' (try_fold (visit N tcx ?rec) visits st') t ?g (final_block first visits) (G @ es) n' names" by simp
    qed (simp add: v(2))
    then obtain st' where st': "try_fold (visit N tcx ?rec) (visit_body tcx d) st = Inr st'" "same_context st st'"
      "grown (tr_net st) (tr_net st') names" "drawn st' t ?g (final_block first visits) (G @ es) n'" by (auto simp: draws_def)
    from st'(4) obtain f' where f': "call_stack st' = push f' t" "context_ok st'" "graph (tr_net st') (G @ es)"
      "count_of (function_counter st') = n'" by (rule drawnE)
    have "translate_top_call_stack N tcx (Suc depth) st = Inr (st'\<lparr>call_stack := t\<rparr>)"
      using f(1) st'(1) f'(1) by simp
    then show "\<exists>st'. translate_top_call_stack N tcx (Suc depth) st = Inr st' \<and> call_stack st' = t \<and> context_ok st' \<and>
        graph (tr_net st') (G @ es) \<and> count_of (function_counter st') = n' \<and> same_context st st' \<and> grown (tr_net st) (tr_net st') names"
      using st' f' by (intro exI [of _ "st'\<lparr>call_stack := t\<rparr>"]) (simp add: context_ok_def same_context_def)
  qed
qed

section \<open>Sequential programs\<close>

lemma run_sequential:
  assumes sync: "sync_free tcx" and graph: "program_graph tcx depth = Some (es, names)" "unambiguous (es, names)"
  obtains st where "and_then (translator_new N) (run N tcx depth rounds) = Inr st"
    "is_graph place_label transition_label (view (tr_net st)) es" "pn_tokens (view (tr_net st)) = single (program_start st)"
    "{program_start st, program_end st, program_panic st} \<subseteq> places (tr_net st)"
    "place_label (program_panic st) = PROGRAM_PANIC" "place_label (program_end st) = PROGRAM_END"
    "place_label (program_start st) = PROGRAM_START"
proof -
  obtain st where st: "translator_new N = Inr st" "transitions (tr_net st) = {}"
    "pn_tokens (view (tr_net st)) = single (program_start st)"
    "places (tr_net st) = {program_panic st, program_end st, program_start st}"
    "place_label ` places (tr_net st) = {PROGRAM_PANIC, PROGRAM_END, PROGRAM_START}"
    "call_stack st = stack_new" "threads st = []" "postprocessing st = heap_new"
    "place_label (program_panic st) = PROGRAM_PANIC" "place_label (program_end st) = PROGRAM_END"
    "place_label (program_start st) = PROGRAM_START"
    by (rule translator_new_net)
  from graph(1) obtain d n' where d: "entry_fn tcx = Some d"
    "inlined_graph tcx depth d (def_path_str tcx d) PROGRAM_START PROGRAM_END (\<lambda>_. 0) = Some (es, names, n')"
    by (auto simp: program_graph_def split: option.splits)
  have counter: "function_counter st = counter_new"
    using st(1) by (auto simp: translator_new_def Let_def split: prod.splits)
  let ?st = "push_function_to_call_stack tcx d (program_start st) (program_end st) st"
  have st0: "tr_net ?st = tr_net st" "call_stack ?st = push (mir_function_new d (def_path_str tcx d) (program_start st) (program_end st)) stack_new"
    "context_ok ?st"
    using st by (simp_all add: push_function_to_call_stack_def context_ok_def)
  have "is_graph place_label transition_label (view (tr_net ?st)) []"
    using st by (auto simp: is_graph_def st0 inj_on_def PROGRAM_PANIC_def PROGRAM_END_def PROGRAM_START_def)
  moreover have "unused (tr_net ?st) names" using st(5) block_label_not_program by (simp add: unused_def st0)
  ultimately obtain st' where st': "translate_top_call_stack N tcx depth ?st = Inr st'"
    "is_graph place_label transition_label (view (tr_net st')) es" "context_ok st'" "same_context ?st st'"
    "grown (tr_net ?st) (tr_net st') names"
    using inlines_top_call_stack [OF sync, of depth, unfolded inlines_def, rule_format, OF st0(3,2), of "[]" es names n']
      d st graph(2) counter
    by (auto simp: st0 push_function_to_call_stack_def unambiguous_def)
  have same: "program_start st' = program_start st" "program_end st' = program_end st" "program_panic st' = program_panic st"
    "threads st' = []" "postprocessing st' = heap_new"
    using st st'(4) by (simp_all add: same_context_def push_function_to_call_stack_def)
  have "translate_threads N tcx k rounds st' = Inr st'" for k
    using same(4) by (cases rounds) simp_all
  moreover have "run_tasks N c [] heap_new net = Inr net" for c net
    by (subst run_tasks.simps) (simp add: heap_new_def heap_pop_def)
  ultimately have "run N tcx depth rounds st = Inr (st'\<lparr>tr_net := tr_net st', postprocessing := heap_new\<rparr>)"
    using d(1) st'(1) same(5) by (simp add: run_def translation_postprocessing_def)
  with st st' same show ?thesis
    by (intro that [of "st'\<lparr>postprocessing := heap_new\<rparr>"]) (auto simp: st0 grown_def)
qed

end

text \<open>
  C2. The net of a sequential program is its inlined control flow graph. If no place of the program
  has a synchronization variable, all its calls can be inlined within the depth, and no label would
  be used twice, then the translation returns a net that has exactly one transition for each edge of
  the graph, from the place of its source to the place of its target, and no two places with the same
  label; the place \<open>PROGRAM_START\<close> holds the only token. Calls of functions with a body, of foreign
  functions with and without a cleanup, of panicking and of diverging functions are all covered.
\<close>

theorem sequential_program_is_its_graph:
  assumes "labelled_petri_net N view place_label transition_label"
    "sync_free tcx" "program_graph tcx depth = Some (es, names)" "unambiguous (es, names)"
  shows "\<exists>st. and_then (translator_new N) (run N tcx depth rounds) = Inr st \<and>
    is_graph place_label transition_label (view (tr_net st)) es \<and>
    pn_tokens (view (tr_net st)) = single (program_start st) \<and>
    map place_label [program_panic st, program_end st, program_start st] = [PROGRAM_PANIC, PROGRAM_END, PROGRAM_START]"
  by (rule labelled_petri_net.run_sequential [OF assms, of rounds]) auto

text \<open>What follows for the deadlocks of the net.\<close>

lemma sequential_net:
  assumes "labelled_petri_net N view place_label transition_label"
    "sync_free tcx" "program_graph tcx depth = Some (es, names)" "unambiguous (es, names)" "\<And>d. closed_body tcx d"
  obtains st where "and_then (translator_new N) (run N tcx depth rounds) = Inr st"
    "is_graph place_label transition_label (view (tr_net st)) es"
    "{program_end st, program_panic st} \<subseteq> pn_places (view (tr_net st))"
    "place_label (program_end st) = PROGRAM_END" "place_label (program_panic st) = PROGRAM_PANIC"
    "can_deadlock (view (tr_net st)) (program_end st) (program_panic st) \<longleftrightarrow> diverges es PROGRAM_START"
    "\<And>m. reachable (view (tr_net st)) m \<Longrightarrow> (\<exists>p. m = single p) \<or> m = (\<lambda>_. 0)"
proof -
  obtain st where st: "and_then (translator_new N) (run N tcx depth rounds) = Inr st"
    "is_graph place_label transition_label (view (tr_net st)) es" "pn_tokens (view (tr_net st)) = single (program_start st)"
    "{program_start st, program_end st, program_panic st} \<subseteq> pn_places (view (tr_net st))"
    "place_label (program_panic st) = PROGRAM_PANIC" "place_label (program_end st) = PROGRAM_END"
    "place_label (program_start st) = PROGRAM_START"
    by (rule labelled_petri_net.run_sequential [OF assms(1-4), of rounds])
  have start: "program_start st \<in> pn_places (view (tr_net st))" using st(4) by simp
  have "can_deadlock (view (tr_net st)) (program_end st) (program_panic st) \<longleftrightarrow> diverges es (place_label (program_start st))"
    by (rule deadlock_iff_diverges [OF st(2) _ start st(3)])
      (use st program_graph_leads_on [OF assms(5,3)] in simp_all)
  with st that graph_token [OF st(2) start st(3)] show ?thesis by auto
qed

text \<open>
  C3. A sequential program is reported to deadlock exactly when a call that does not return is on one
  of its paths: if moreover every block of its bodies has a terminator, then a dead marking without a
  token on \<open>PROGRAM_END\<close> and \<open>PROGRAM_PANIC\<close> can be reached if and only if the graph has a path from
  the start of the program to such a call. In no reachable marking is there more than one token.
\<close>

theorem sequential_program_deadlocks_iff_diverging:
  assumes "labelled_petri_net N view place_label transition_label"
    "sync_free tcx" "program_graph tcx depth = Some (es, names)" "unambiguous (es, names)" "\<And>d. closed_body tcx d"
  shows "\<exists>st. and_then (translator_new N) (run N tcx depth rounds) = Inr st \<and>
    place_label (program_end st) = PROGRAM_END \<and> place_label (program_panic st) = PROGRAM_PANIC \<and>
    (can_deadlock (view (tr_net st)) (program_end st) (program_panic st) \<longleftrightarrow> diverges es PROGRAM_START) \<and>
    (\<forall>m. reachable (view (tr_net st)) m \<longrightarrow> (\<exists>p. m = single p) \<or> m = (\<lambda>_. 0))"
  by (rule sequential_net [OF assms, of rounds]) auto

section \<open>Applied to examples\<close>

lemma plain_program_sync_free: "sync_free (program paths [] bodies)"
proof -
  have "\<not> contains ''()'' ''std::sync::MutexGuard<''" "\<not> contains ''()'' ''std::sync::Mutex<''"
    "\<not> contains ''()'' ''std::thread::JoinHandle<''" "\<not> contains ''()'' ''std::sync::Condvar''" by code_simp+
  then show ?thesis
    by (simp add: sync_free_def check_if_sync_variable_def check_substring_in_place_type_def program_def nth_or_def plain_ty_def)
qed

lemma closed_program:
  assumes "list_all (closed_body (program paths types bodies)) [0..<length bodies]"
  shows "closed_body (program paths types bodies) d"
proof (cases "d < length bodies")
  case False
  then show ?thesis by (simp add: closed_body_def program_def nth_or_def)
qed (use assms in \<open>simp add: list_all_iff\<close>)

definition two_calls_edges :: "place_edge list" where
  "two_calls_edges = [(''simple_function_0_RETURN'', ''PROGRAM_START'', Some ''main_BB1''),
     (''main_SWITCH_INT_FROM_BB1_TO_BB3'', ''main_BB1'', Some ''main_BB3''),
     (''main_SWITCH_INT_FROM_BB1_TO_BB2'', ''main_BB1'', Some ''main_BB2''),
     (''main_PANIC'', ''main_BB2'', Some ''PROGRAM_PANIC''),
     (''simple_function_1_RETURN'', ''main_BB3'', Some ''main_BB4''),
     (''main_RETURN'', ''main_BB4'', Some ''PROGRAM_END'')]"

lemma two_calls_facts:
  "sync_free two_calls_same_function" "closed_body two_calls_same_function d"
  "program_graph two_calls_same_function 2 = Some (two_calls_edges, [''main'', ''simple_function_0'', ''simple_function_1''])"
  "unambiguous (two_calls_edges, [''main'', ''simple_function_0'', ''simple_function_1''])"
proof -
  show "sync_free two_calls_same_function" unfolding two_calls_same_function_def by (rule plain_program_sync_free)
  show "closed_body two_calls_same_function d"
    unfolding two_calls_same_function_def by (rule closed_program) code_simp
  show "program_graph two_calls_same_function 2 = Some (two_calls_edges, [''main'', ''simple_function_0'', ''simple_function_1''])"
    by code_simp
  show "unambiguous (two_calls_edges, [''main'', ''simple_function_0'', ''simple_function_1''])" by code_simp
qed

theorem sequential_program_is_its_graph_witness:
  "\<exists>st. and_then (translator_new simple_netcrab) (run simple_netcrab two_calls_same_function 2 0) = Inr st \<and>
    is_graph (\<lambda>p. p) (\<lambda>t. t) (sn_view (tr_net st)) two_calls_edges \<and>
    pn_tokens (sn_view (tr_net st)) = single (program_start st) \<and>
    map (\<lambda>p. p) [program_panic st, program_end st, program_start st] = [PROGRAM_PANIC, PROGRAM_END, PROGRAM_START]"
  by (rule sequential_program_is_its_graph [OF simple.labelled_petri_net_axioms two_calls_facts(1,3,4)])

text \<open>\<open>statement/abort.rs\<close> is expected to be reported.\<close>

theorem sequential_program_deadlocks_iff_diverging_witness:
  "\<exists>st. and_then (translator_new simple_netcrab) (run simple_netcrab abort 1 0) = Inr st \<and>
    can_deadlock (sn_view (tr_net st)) PROGRAM_END PROGRAM_PANIC"
proof -
  let ?es = "[(''std_process_abort_DIVERGING_CALL'', PROGRAM_START, None)]"
  have "sync_free abort" unfolding abort_def by (rule plain_program_sync_free)
  moreover have "program_graph abort 1 = Some (?es, [''main''])" "unambiguous (?es, [''main''])" by code_simp+
  moreover have "closed_body abort d" for d unfolding abort_def by (rule closed_program) code_simp
  ultimately obtain st where "and_then (translator_new simple_netcrab) (run simple_netcrab abort 1 0) = Inr st"
    "program_end st = PROGRAM_END" "program_panic st = PROGRAM_PANIC"
    "can_deadlock (sn_view (tr_net st)) (program_end st) (program_panic st) \<longleftrightarrow> diverges ?es PROGRAM_START"
    using sequential_program_deadlocks_iff_diverging [OF simple.labelled_petri_net_axioms, of abort 1 ?es "[''main'']" 0] by blast
  moreover have "diverges ?es PROGRAM_START" by (auto simp: diverges_def intro: reaches.start)
  ultimately show ?thesis by auto
qed

end
