(* ===== verification/Driver_Properties.thy ===== *)
theory Driver_Properties
  imports Driver Sequential
begin

text \<open>
  The properties of the command line program: the paths of its output files, the files it touches,
  its exit codes, how the answer of the model checker is read, and the verdict it prints.
\<close>

section \<open>Output paths\<close>

definition output_path :: "output_format \<Rightarrow> args \<Rightarrow> path" where
  "output_path format self =
     set_extension (output_format_to_string format) (path_push (arg_output_folder self) (arg_filename self))"

definition folder_prefix :: "path \<Rightarrow> path" where
  "folder_prefix folder = (if folder = [] \<or> last folder = CHR ''/'' then folder else folder @ ''/'')"

lemma path_push_file: "CHR ''/'' \<notin> set name \<Longrightarrow> path_push folder name = folder_prefix folder @ name"
  by (cases name) (auto simp: path_push_def folder_prefix_def starts_with_def)

lemma folder_prefix_end: "folder_prefix folder = [] \<or> last (folder_prefix folder) = CHR ''/''"
  by (simp add: folder_prefix_def)

lemma skip_trailing_name: "c \<noteq> CHR ''/'' \<Longrightarrow> c \<noteq> CHR ''.'' \<Longrightarrow> skip_trailing (c # cs) = c # cs"
  by simp

text \<open>The last component without its extension.\<close>

definition stem :: "string \<Rightarrow> string" where
  "stem name = (let front = rev (drop 1 (dropWhile (\<lambda>c. c \<noteq> CHR ''.'') (rev name)))
     in if front = [] then name else front)"

lemma stem_plain: "CHR ''.'' \<notin> set name \<Longrightarrow> stem name = name"
proof -
  assume "CHR ''.'' \<notin> set name"
  then have "dropWhile (\<lambda>c. c \<noteq> CHR ''.'') (rev name) = []" by (auto simp: dropWhile_eq_Nil_conv)
  then show ?thesis unfolding stem_def by (simp only: Let_def drop_Nil rev.simps) simp
qed

lemma stem_dot: "a \<noteq> [] \<Longrightarrow> CHR ''.'' \<notin> set b \<Longrightarrow> stem (a @ ''.'' @ b) = a"
  by (auto simp: stem_def dropWhile_append)

lemma set_extension_name:
  assumes "name \<noteq> []" "CHR ''/'' \<notin> set name" "last name \<noteq> CHR ''.''" "prefix = [] \<or> last prefix = CHR ''/''" "ext \<noteq> []"
  shows "set_extension ext (prefix @ name) = prefix @ stem name @ ''.'' @ ext"
proof -
  obtain c cs where rev_name: "rev name = c # cs" using assms(1) by (cases "rev name") auto
  then have name: "name = rev cs @ [c]" by (metis rev.simps(2) rev_rev_ident)
  have skip: "skip_trailing (rev (prefix @ name)) = rev name @ rev prefix"
    using assms(2,3) name by (auto simp: skip_trailing_name)
  have end_of_name: "rev prefix = [] \<or> hd (rev prefix) = CHR ''/''" using assms(4) by (simp add: hd_rev)
  have all: "\<forall>c \<in> set (rev name). c \<noteq> CHR ''/''" using assms(2) by auto
  have "takeWhile (\<lambda>c. c \<noteq> CHR ''/'') (rev name @ rev prefix) = rev name"
    "dropWhile (\<lambda>c. c \<noteq> CHR ''/'') (rev name @ rev prefix) = rev prefix"
    using end_of_name all by (cases "rev prefix"; force simp: takeWhile_append dropWhile_append)+
  moreover have "name \<noteq> ''..''" using assms(3) by auto
  ultimately show ?thesis using assms(1,5) unfolding set_extension_def skip stem_def by (simp add: Let_def)
qed

lemma output_format_to_string_inject:
  "output_format_to_string f = output_format_to_string g \<longleftrightarrow> f = g" "output_format_to_string f \<noteq> []"
  by (cases f; cases g; simp)+


definition example_args :: args where
  "example_args = \<lparr>arg_path = ''main.rs'', arg_filename = ''net'', arg_output_folder = ''.'',
     arg_dot = True, arg_pnml = False, arg_skip_analysis = False\<rparr>"




section \<open>The model checker\<close>

text \<open>
  What the model checker promises for the formula of the program: on the file of a net, it answers
  whether the net can reach a deadlock outside of the places of the formula.
\<close>

definition lola_decides :: "'n environment \<Rightarrow> 'n \<Rightarrow> bool \<Rightarrow> bool" where
  "lola_decides env net deadlock \<longleftrightarrow> (\<forall>fs file. hm_get fs file = Some (fst (write_net env Lola net)) \<longrightarrow>
     (\<exists>out. run_command env ''lola'' [file, deadlock_formula] fs = CommandStderr (Some out) \<and>
       (contains out ''result: yes'' \<longleftrightarrow> deadlock) \<and> (contains out ''result: no'' \<longleftrightarrow> \<not> deadlock)))"

lemma check_deadlock_decides:
  assumes "lola_decides env net deadlock" "hm_get fs file = Some (fst (write_net env Lola net))"
  shows "check_deadlock env fs file = Inr deadlock"
proof -
  obtain out where "run_command env ''lola'' [file, deadlock_formula] fs = CommandStderr (Some out)"
    "contains out ''result: yes'' = deadlock" "contains out ''result: no'' = (\<not> deadlock)"
    using assms unfolding lola_decides_def by blast
  then show ?thesis by (cases deadlock) (simp_all add: check_deadlock_def ok_or_def)
qed

section \<open>Files\<close>

lemma create_if_files:
  "create_if requested env format net a fs = (err, fs') \<Longrightarrow>
   fs' = fs \<or> requested \<and> fs' = hm_insert (output_path format a) (fst (write_net env format net)) fs"
  by (auto simp: create_if_def create_output_file_def output_path_def Let_def
      split: if_splits option.splits prod.splits)

lemma create_if_ok:
  "create_error env (output_path format a) = None \<Longrightarrow> snd (write_net env format net) = None \<Longrightarrow>
   create_if True env format net a fs = (None, hm_insert (output_path format a) (fst (write_net env format net)) fs)"
  by (cases "write_net env format net") (simp add: create_if_def create_output_file_def output_path_def Let_def)

lemma exec_cases:
  obtains
    (no_source) "\<not> path_exists env (arg_path a)" "exec env N depth rounds a fs =
      (Inr (SourceFileNotFound (''Source code file at '' @ arg_path a @ '' does not exist'')), fs)"
  | (no_folder) "path_exists env (arg_path a)" "\<not> path_exists env (arg_output_folder a)" "exec env N depth rounds a fs =
      (Inr (OutputFolderNotFound (''Output folder at '' @ arg_output_folder a @ '' does not exist'')), fs)"
  | (no_sysroot) e where "path_exists env (arg_path a)" "path_exists env (arg_output_folder a)" "get_from_rustc env = Inl e"
      "exec env N depth rounds a fs = (Inr (TranslationError e), fs)"
  | (panic) x sysroot where "path_exists env (arg_path a)" "path_exists env (arg_output_folder a)" "get_from_rustc env = Inr sysroot"
      "lib_run env N depth rounds (arg_path a) = Inl x" "exec env N depth rounds a fs = (Inl x, fs)"
  | (no_output) e net fs' sysroot where "path_exists env (arg_path a)" "path_exists env (arg_output_folder a)"
      "get_from_rustc env = Inr sysroot" "lib_run env N depth rounds (arg_path a) = Inr (Inr net)"
      "exec env N depth rounds a fs = (Inr (OutputGenerationError e), fs')"
  | (written) net fs1 fs2 fs3 sysroot where "path_exists env (arg_path a)" "path_exists env (arg_output_folder a)"
      "get_from_rustc env = Inr sysroot" "lib_run env N depth rounds (arg_path a) = Inr (Inr net)"
      "create_if (arg_dot a) env Dot net a fs = (None, fs1)" "create_if (arg_pnml a) env Pnml net a fs1 = (None, fs2)"
      "create_if True env Lola net a fs2 = (None, fs3)" "exec env N depth rounds a fs = (analyse env a fs3, fs3)"
proof (cases "path_exists env (arg_path a) \<and> path_exists env (arg_output_folder a)")
  case False
  then show ?thesis
    by (cases "path_exists env (arg_path a)"; intro no_source no_folder) (simp_all add: exec_def)
next
  case True
  show ?thesis
  proof (cases "get_from_rustc env")
    case (Inl e)
    with True show ?thesis using no_sysroot by (simp add: exec_def lib_run_def)
  next
    case (Inr sysroot)
    have not_err: "lib_run env N depth rounds (arg_path a) \<noteq> Inr (Inl e)" for e
      using Inr by (auto simp: lib_run_def Let_def)
    show ?thesis
    proof (cases "lib_run env N depth rounds (arg_path a)")
      case (Inl x)
      with True Inr show ?thesis using panic by (simp add: exec_def)
    next
      case run: (Inr y)
      then obtain net where net: "lib_run env N depth rounds (arg_path a) = Inr (Inr net)"
        using not_err by (cases y) auto
      obtain e1 fs1 where c1: "create_if (arg_dot a) env Dot net a fs = (e1, fs1)" by fastforce
      obtain e2 fs2 where c2: "create_if (arg_pnml a) env Pnml net a fs1 = (e2, fs2)" by fastforce
      obtain e3 fs3 where c3: "create_if True env Lola net a fs2 = (e3, fs3)" by fastforce
      show ?thesis
        using True Inr net c1 c2 c3 no_output [OF _ _ Inr net] written [OF _ _ Inr net]
        by (cases e1; cases e2; cases e3) (auto simp: exec_def)
    qed
  qed
qed

text \<open>The formats that the arguments ask for; the file for the model checker is always written.\<close>

fun requested :: "args \<Rightarrow> output_format \<Rightarrow> bool" where
  "requested a Dot = arg_dot a"
| "requested a Pnml = arg_pnml a"
| "requested a Lola = True"

text \<open>
  C30. The program writes nothing but its output files: whatever the outcome, a file that differs
  afterwards is the output file of a format, the one of the model checker or one that was asked for.
\<close>

theorem exec_writes_only_output_files:
  assumes "hm_get (snd (exec env N depth rounds a fs)) file \<noteq> hm_get fs file"
  shows "\<exists>format. file = output_path format a \<and> requested a format"
proof (rule ccontr)
  assume "\<not> ?thesis"
  then have kept: "hm_get fs2 file = hm_get fs1 file"
    if "create_if (requested a format) env format net a fs1 = (err, fs2)" for format net fs1 fs2 err
    using create_if_files [OF that] by auto
  note kept_all = kept [where format = Dot] kept [where format = Pnml] kept [where format = Lola]
  have "hm_get (snd (exec env N depth rounds a fs)) file = hm_get fs file"
    unfolding exec_def using kept_all
    by (auto split: sum.splits prod.splits option.splits)
  with assms show False by contradiction
qed

text \<open>
  C29. The exit codes. If the process ends, it ends with 1 exactly for a missing source file, with 2
  exactly for a missing output folder, and with 3 exactly if the sysroot is not found; then no file
  has changed and the reason is on the standard error. A panic of the translation ends with 101: no
  failure of the translation itself is returned as an error. Success means that the file for the
  model checker holds the translated net.
\<close>

theorem exit_codes:
  assumes "main env N depth rounds (CheckDeadlock a) fs = Some r"
  shows "exit_code r \<in> {0, 1, 2, 3, 4, 101} \<and> (exit_code r = 1 \<longleftrightarrow> \<not> path_exists env (arg_path a)) \<and>
    (exit_code r = 2 \<longleftrightarrow> path_exists env (arg_path a) \<and> \<not> path_exists env (arg_output_folder a)) \<and>
    (exit_code r = 3 \<longleftrightarrow> path_exists env (arg_path a) \<and> path_exists env (arg_output_folder a) \<and> (\<exists>e. get_from_rustc env = Inl e)) \<and>
    (exit_code r \<in> {1, 2, 3} \<longrightarrow> files_left r = fs \<and> length (stderr r) = 1) \<and>
    (exit_code r = 0 \<longrightarrow> (\<exists>net. lib_run env N depth rounds (arg_path a) = Inr (Inr net) \<and>
       hm_get (files_left r) (output_path Lola a) = Some (fst (write_net env Lola net))))"
proof (cases rule: exec_cases [of env a N depth rounds fs])
  case (panic x sysroot)
  then show ?thesis using assms by (auto simp: main_def command_exec_def split: if_splits)
next
  case (written net fs1 fs2 fs3 sysroot)
  have "hm_get fs3 (output_path Lola a) = Some (fst (write_net env Lola net))"
    using written(7) by (auto simp: create_if_def create_output_file_def output_path_def Let_def split: option.splits prod.splits)
  with written assms show ?thesis
    by (cases "analyse env a fs3")
      (auto simp: main_def command_exec_def report_def analyse_def and_then_def split: if_splits sum.splits)
qed (use assms in \<open>auto simp: main_def command_exec_def report_def\<close>)

section \<open>The verdict\<close>

text \<open>
  Everything around the translation goes well: the paths exist, the compiler is found and accepts
  the program \<open>tcx\<close>, and the files of the net can be written.
\<close>

definition environment_works :: "'n environment \<Rightarrow> args \<Rightarrow> rustc \<Rightarrow> 'n \<Rightarrow> bool" where
  "environment_works env a tcx net \<longleftrightarrow> path_exists env (arg_path a) \<and> path_exists env (arg_output_folder a) \<and>
     (\<exists>sysroot. rustc_print_sysroot env = Some (Some sysroot) \<and>
       run_compiler env (prepare_rustc_config (trim sysroot) (arg_path a)) = Some tcx) \<and>
     (\<forall>format. create_error env (output_path format a) = None \<and> snd (write_net env format net) = None)"

lemma lib_run_translates:
  assumes "environment_works env a tcx net" "and_then (translator_new N) (run N tcx depth rounds) = Inr st"
  shows "lib_run env N depth rounds (arg_path a) = Inr (Inr (tr_net st))"
proof -
  from assms(2) obtain st0 where "translator_new N = Inr st0" "run N tcx depth rounds st0 = Inr st" by auto
  with assms(1) show ?thesis
    by (auto simp: environment_works_def lib_run_def get_from_rustc_def get_result_def Let_def)
qed

lemma main_verdict:
  assumes "environment_works env a tcx (tr_net st)" "and_then (translator_new N) (run N tcx depth rounds) = Inr st"
    "\<not> arg_skip_analysis a" "lola_decides env (tr_net st) deadlock"
  shows "\<exists>r. main env N depth rounds (CheckDeadlock a) fs = Some r \<and> exit_code r = 0 \<and> stdout r = [''Result: '' @
    (if deadlock then ''Deadlock can be reached according to the model checker `LoLA`''
     else ''The program is deadlock-free according to the model checker `LoLA`'')]"
proof -
  have ok: "create_error env (output_path format a) = None" "snd (write_net env format (tr_net st)) = None" for format
    using assms(1) by (simp_all add: environment_works_def)
  note create = create_if_ok [OF ok]
  have no_error: "\<exists>fs'. create_if req env format (tr_net st) a fs0 = (None, fs')" for req format fs0
    by (cases req) (simp_all add: create, simp add: create_if_def)
  obtain fs1 where fs1: "create_if (arg_dot a) env Dot (tr_net st) a fs = (None, fs1)" using no_error by blast
  obtain fs2 where fs2: "create_if (arg_pnml a) env Pnml (tr_net st) a fs1 = (None, fs2)" using no_error by blast
  let ?fs = "hm_insert (output_path Lola a) (fst (write_net env Lola (tr_net st))) fs2"
  have "check_deadlock env ?fs (output_path Lola a) = Inr deadlock"
    by (rule check_deadlock_decides [OF assms(4)]) simp
  then have "analyse env a ?fs = Inr (DeadlockAnalysis
      (if deadlock then ''Deadlock can be reached according to the model checker `LoLA`''
       else ''The program is deadlock-free according to the model checker `LoLA`''))"
    using assms(3) unfolding analyse_def Let_def output_path_def [symmetric] by (simp only: if_False and_then_Inr)
  then show ?thesis
    using assms(1) lib_run_translates [OF assms(1,2)] fs1 fs2 create [of Lola fs2]
    by (simp add: main_def command_exec_def exec_def environment_works_def report_def)
qed

text \<open>
  The formula that the model checker is asked, \<open>EF (DEADLOCK AND (PROGRAM_END = 0 AND PROGRAM_PANIC = 0))\<close>,
  on a net with labelled places.
\<close>

definition satisfies_formula :: "('p \<Rightarrow> string) \<Rightarrow> ('p, 't) pnet \<Rightarrow> bool" where
  "satisfies_formula place_label P \<longleftrightarrow> (\<exists>m. reachable P m \<and> dead P m \<and>
     (\<forall>p \<in> pn_places P. place_label p \<in> {PROGRAM_END, PROGRAM_PANIC} \<longrightarrow> m p = 0))"

lemma satisfies_formula_deadlock:
  "satisfies_formula place_label P \<Longrightarrow> e \<in> pn_places P \<Longrightarrow> p \<in> pn_places P \<Longrightarrow>
   place_label e = PROGRAM_END \<Longrightarrow> place_label p = PROGRAM_PANIC \<Longrightarrow> can_deadlock P e p"
  unfolding satisfies_formula_def can_deadlock_def by blast

lemma satisfies_formula_simple [simp]:
  "PROGRAM_END \<in> pn_places (sn_view net) \<Longrightarrow> PROGRAM_PANIC \<in> pn_places (sn_view net) \<Longrightarrow>
   satisfies_formula (\<lambda>p. p) (sn_view net) \<longleftrightarrow> can_deadlock (sn_view net) PROGRAM_END PROGRAM_PANIC"
  unfolding satisfies_formula_def can_deadlock_def by auto



text \<open>In a net with distinct labels the formula speaks of two places.\<close>

lemma satisfies_formula_graph:
  assumes "is_graph place_label transition_label P es" "{e, p} \<subseteq> pn_places P"
    "place_label e = PROGRAM_END" "place_label p = PROGRAM_PANIC"
  shows "satisfies_formula place_label P \<longleftrightarrow> can_deadlock P e p"
proof -
  have "q = e" if "q \<in> pn_places P" "place_label q = PROGRAM_END" for q
    using is_graph_inject [OF assms(1), of q e] that assms(2,3) by simp
  moreover have "q = p" if "q \<in> pn_places P" "place_label q = PROGRAM_PANIC" for q
    using is_graph_inject [OF assms(1), of q p] that assms(2,4) by simp
  ultimately show ?thesis
    using assms(2-4) unfolding satisfies_formula_def can_deadlock_def by (metis insert_iff insert_subset singletonD)
qed


section \<open>An environment\<close>

text \<open>A machine on which everything works and the model checker has one answer.\<close>

definition example_env :: "rustc \<Rightarrow> string \<Rightarrow> simple_net environment" where
  "example_env tcx answer = \<lparr>path_exists = \<lambda>_. True, create_error = \<lambda>_. None,
     rustc_print_sysroot = Some (Some ''/toolchain''), run_compiler = \<lambda>_. Some tcx,
     write_net = \<lambda>_ _. (''net'', None), run_command = \<lambda>_ _ _. CommandStderr (Some answer)\<rparr>"

lemma example_env_works:
  "environment_works (example_env tcx answer) a tcx net"
  "(contains answer ''result: yes'' \<longleftrightarrow> deadlock) \<and> (contains answer ''result: no'' \<longleftrightarrow> \<not> deadlock) \<Longrightarrow>
   lola_decides (example_env tcx answer) net deadlock"
  by (simp_all add: environment_works_def lola_decides_def example_env_def)

theorem exec_writes_only_output_files_witness:
  "\<exists>format. ''./net.lola'' = output_path format example_args \<and> requested example_args format"
proof (rule exec_writes_only_output_files [of "example_env empty_function ''result: no''" simple_netcrab 2 0 example_args "[]"])
  have "hm_get (snd (exec (example_env empty_function ''result: no'') simple_netcrab 2 0 example_args [])) ''./net.lola'' = Some ''net''"
    by code_simp
  then show "hm_get (snd (exec (example_env empty_function ''result: no'') simple_netcrab 2 0 example_args [])) ''./net.lola'' \<noteq>
    hm_get [] ''./net.lola''" by simp
qed

theorem exit_codes_witness:
  "\<exists>r. main ((example_env empty_function ''result: no'')\<lparr>path_exists := \<lambda>_. False\<rparr>) simple_netcrab 1 0 (CheckDeadlock example_args) [] = Some r \<and>
    exit_code r = 1 \<and> files_left r = [] \<and> length (stderr r) = 1"
proof -
  obtain r where "main ((example_env empty_function ''result: no'')\<lparr>path_exists := \<lambda>_. False\<rparr>) simple_netcrab 1 0
      (CheckDeadlock example_args) [] = Some r"
    by (simp add: main_def command_exec_def exec_def)
  with exit_codes [OF this] show ?thesis by simp
qed




end
