(* ===== verification/Translator_Safety.thy ===== *)
theory Translator_Safety
  imports Translator Simple_Net Examples
begin

text \<open>
  The translator never fails because of an internal inconsistency. The invariant says that every
  reference in the state (the frames of the call stack, the values in their memories, the cells of
  the store, the threads and the postprocessing tasks) belongs to the net or to the store; it is
  established by \<open>Translator::new\<close> and kept by every handler, by the visitor and by the loops, and
  under it no panic of \<open>internal_panic\<close> is raised. The call stack after a handler is the one before
  with at most the top frame changed.
\<close>

text \<open>
  The compiler's \<open>visit_body\<close> visits the basic blocks one by one, so the first call the translator
  receives for a body, if any, enters a basic block.
\<close>

definition visits_blocks_first :: "rustc \<Rightarrow> bool" where
  "visits_blocks_first tcx \<longleftrightarrow> (\<forall>d. case visit_body tcx d of
      [] \<Rightarrow> True | VisitBasicBlockData _ # _ \<Rightarrow> True | _ \<Rightarrow> False)"

lemma set_heap_push [simp]: "set (heap_push key x h) = insert x (set h)"
  using mset_heap_push [of key x h] by (metis set_mset_add_mset_insert set_mset_mset)

context petri_net
begin

definition state_ok :: "('n, 'p, 't) translator \<Rightarrow> bool" where
  "state_ok st \<longleftrightarrow>
     program_start st \<in> places_of (tr_net st) \<and> program_end st \<in> places_of (tr_net st) \<and>
     program_panic st \<in> places_of (tr_net st) \<and>
     (\<forall>f \<in> set (stack (call_stack st)). frame_ok (places_of (tr_net st)) f \<and> memory_ok (cells st) (fn_memory f)) \<and>
     cells_ok (tr_net st) (cells st) \<and>
     (\<forall>r \<in> set (threads st). r < length (thread_cells (cells st))) \<and>
     (\<forall>task \<in> set (postprocessing st). task_ok (tr_net st) (cells st) task \<and> well_prioritised task)"

text \<open>The state after a call of the visitor: the frames below the top, \<open>t\<close>, are untouched.\<close>

definition advances :: "'p mir_function stack \<Rightarrow> ('n, 'p, 't) translator \<Rightarrow> bool" where
  "advances t st \<longleftrightarrow> state_ok st \<and> (\<exists>f. call_stack st = push f t \<and> fn_active_block f \<noteq> None)"

lemma advancesE:
  assumes "advances t st"
  obtains f where "call_stack st = push f t" "fn_active_block f \<noteq> None" "state_ok st"
    "frame_ok (places_of (tr_net st)) f" "memory_ok (cells st) (fn_memory f)" "cells_ok (tr_net st) (cells st)"
    "program_panic st \<in> places_of (tr_net st)" "program_end st \<in> places_of (tr_net st)"
  using assms unfolding advances_def state_ok_def by auto

text \<open>
  One rule for all updates: the net and the store grow, the top frame is replaced by a valid one,
  the new thread references and tasks are valid.
\<close>

lemma state_ok_step:
  assumes "state_ok st" "grows (tr_net st) (tr_net st')" "store_le (cells st) (cells st')"
    "cells_ok (tr_net st') (cells st')"
    "\<forall>f \<in> set (stack (call_stack st')). f \<in> set (stack (call_stack st)) \<or>
       frame_ok (places_of (tr_net st')) f \<and> memory_ok (cells st') (fn_memory f)"
    "program_start st' = program_start st" "program_end st' = program_end st"
    "program_panic st' \<in> places_of (tr_net st')"
    "\<forall>r \<in> set (threads st'). r \<in> set (threads st) \<or> r < length (thread_cells (cells st'))"
    "\<forall>task \<in> set (postprocessing st'). task \<in> set (postprocessing st) \<or>
       task_ok (tr_net st') (cells st') task \<and> well_prioritised task"
  shows "state_ok st'"
proof -
  have threads: "r < length (thread_cells (cells st'))" if "r < length (thread_cells (cells st))" for r
    using that assms(3) by (simp add: store_le_def)
  from assms show ?thesis
    unfolding state_ok_def
    by (auto dest: growsD threads intro: frame_ok_grows memory_ok_mono task_ok_mono)
qed

lemma advances_step:
  assumes "advances t st" "call_stack st' = push f t" "fn_active_block f \<noteq> None"
    "frame_ok (places_of (tr_net st')) f" "memory_ok (cells st') (fn_memory f)"
    "grows (tr_net st) (tr_net st')" "store_le (cells st) (cells st')" "cells_ok (tr_net st') (cells st')"
    "program_start st' = program_start st" "program_end st' = program_end st"
    "program_panic st' = program_panic st"
    "\<forall>r \<in> set (threads st'). r \<in> set (threads st) \<or> r < length (thread_cells (cells st'))"
    "\<forall>task \<in> set (postprocessing st'). task \<in> set (postprocessing st) \<or>
       task_ok (tr_net st') (cells st') task \<and> well_prioritised task"
  shows "advances t st'"
proof -
  obtain g where g: "call_stack st = push g t" "state_ok st" "program_panic st \<in> places_of (tr_net st)"
    using assms(1) by (rule advancesE)
  have "state_ok st'"
    by (rule state_ok_step [OF g(2)])
      (use assms g in \<open>auto dest: growsD(1) [OF assms(6)]\<close>)
  with assms(2,3) show ?thesis unfolding advances_def by blast
qed

text \<open>The two most frequent updates: the net and the top frame, and the memory of the top frame.\<close>

lemma advances_frame_step:
  assumes "advances t st" "call_stack st = push f t" "frame_step (tr_net st) f (f', net')"
  shows "advances t (st\<lparr>tr_net := net', call_stack := push f' t\<rparr>)"
proof -
  from assms(1,2) obtain "fn_active_block f \<noteq> None" "memory_ok (cells st) (fn_memory f)" "cells_ok (tr_net st) (cells st)"
    by (auto elim!: advancesE)
  with assms show ?thesis
    by (intro advances_step [OF assms(1), where f = f'])
      (auto simp: frame_step_def frame_kept_simps intro: cells_ok_grows)
qed

lemma advances_net:
  assumes "advances t st" "grows (tr_net st) net'"
  shows "advances t (st\<lparr>tr_net := net'\<rparr>)"
proof -
  from assms(1) obtain f where f: "call_stack st = push f t" "fn_active_block f \<noteq> None"
    "frame_ok (places_of (tr_net st)) f" "memory_ok (cells st) (fn_memory f)" "cells_ok (tr_net st) (cells st)"
    by (rule advancesE)
  show ?thesis
    by (rule advances_step [OF assms(1), where f = f])
      (use f assms(2) in \<open>auto intro: cells_ok_grows frame_ok_grows\<close>)
qed

lemma advances_counter: "advances t st \<Longrightarrow> advances t (st\<lparr>function_counter := c\<rparr>)"
  unfolding advances_def state_ok_def by simp

lemma advances_memory:
  assumes "advances t st" "call_stack st = push f t" "memory_ok (cells st) m"
  shows "advances t (st\<lparr>call_stack := push (f\<lparr>fn_memory := m\<rparr>) t\<rparr>)"
proof -
  from assms(1,2) obtain "fn_active_block f \<noteq> None" "frame_ok (places_of (tr_net st)) f" "cells_ok (tr_net st) (cells st)"
    by (auto elim!: advancesE)
  with assms show ?thesis
    by (intro advances_step [OF assms(1), where f = "f\<lparr>fn_memory := m\<rparr>"]) auto
qed

section \<open>The handlers\<close>

lemma ensures_translator_call_foreign_function:
  assumes "advances t st" "set_call_places places \<subseteq> places_of (tr_net st)"
  shows "ensures external_panic (\<lambda>(ts, st'). advances t st' \<and> set_call_transitions ts \<subseteq> transitions_of (tr_net st'))
    (translator_call_foreign_function N tcx function_name args destination places st)"
proof -
  from assms(1) obtain f where f: "call_stack st = push f t" "fn_active_block f \<noteq> None"
    "frame_ok (places_of (tr_net st)) f" "memory_ok (cells st) (fn_memory f)" "cells_ok (tr_net st) (cells st)"
    by (rule advancesE)
  obtain i c where c: "get_count function_name (function_counter st) = (i, c)" by fastforce
  have result: "advances t (st\<lparr>function_counter := c, tr_net := net', call_stack := push (f\<lparr>fn_memory := m\<rparr>) t\<rparr>)"
    if "grows (tr_net st) net'" "memory_ok (cells st) m" for net' m
    by (rule advances_step [OF assms(1), where f = "f\<lparr>fn_memory := m\<rparr>"])
      (use that f in \<open>auto intro: frame_ok_grows cells_ok_grows\<close>)
  show ?thesis
    unfolding translator_call_foreign_function_def c Let_def prod.case ensures_bind
    by (simp, rule ensures_mono [OF ensures_call_foreign_function [OF assms(2)]])
      (auto simp: f(1) intro!: ensures_mono [OF ensures_link_return_value [OF f(4)]] result)
qed

lemma ensures_foreign_then:
  assumes "advances t st" "set_call_places places \<subseteq> places_of (tr_net st)"
    and "\<And>ts st' f. advances t st' \<Longrightarrow> call_stack st' = push f t \<Longrightarrow>
      set_call_transitions ts \<subseteq> transitions_of (tr_net st') \<Longrightarrow> ensures external_panic P (k (ts, st'))"
  shows "ensures external_panic P
    (and_then (translator_call_foreign_function N tcx function_name args destination places st) k)"
  unfolding ensures_bind
  by (rule ensures_mono [OF ensures_translator_call_foreign_function [OF assms(1,2)]])
    (auto simp: advances_def intro!: assms(3))

lemma ensures_guard_drop:
  assumes "advances t st" "call_stack st = push f t" "grows (tr_net st) net" "tr \<in> transitions_of net"
  shows "ensures external_panic (grows net)
    (handle_mutex_guard_drop N place tr net (fn_memory f) (cells st))"
proof -
  from assms(1,2) have "cells_ok (tr_net st) (cells st)" "memory_ok (cells st) (fn_memory f)"
    by (auto elim!: advancesE)
  with assms(3,4) show ?thesis by (intro ensures_handle_mutex_guard_drop) (auto intro: cells_ok_grows)
qed

lemma ensures_call_mem_drop:
  assumes "advances t st" "set_call_places places \<subseteq> places_of (tr_net st)"
  shows "ensures external_panic (advances t) (call_mem_drop N tcx function_name args destination places st)"
proof -
  have drop: "ensures external_panic (advances t)
      (case ts of
         Basic_Transitions default_t \<Rightarrow>
           and_then (handle_mutex_guard_drop N place default_t (tr_net st') (fn_memory f) (cells st')) (\<lambda>net.
           Inr (st'\<lparr>tr_net := net\<rparr>))
       | WithCleanup_Transitions default_t cleanup_t \<Rightarrow>
           and_then (handle_mutex_guard_drop N place default_t (tr_net st') (fn_memory f) (cells st')) (\<lambda>net.
           and_then (handle_mutex_guard_drop N place cleanup_t net (fn_memory f) (cells st')) (\<lambda>net.
           Inr (st'\<lparr>tr_net := net\<rparr>))))"
    if st': "advances t st'" "call_stack st' = push f t" and ts: "set_call_transitions ts \<subseteq> transitions_of (tr_net st')"
    for ts st' f place
  proof (cases ts)
    case (Basic_Transitions d)
    with ts show ?thesis
      by (auto intro!: ensures_mono [OF ensures_guard_drop [OF st']] advances_net [OF st'(1)])
  next
    case (WithCleanup_Transitions d c)
    with ts have "d \<in> transitions_of (tr_net st')" "c \<in> transitions_of (tr_net st')" by auto
    then show ?thesis
      by (auto simp: WithCleanup_Transitions intro!: ensures_mono [OF ensures_guard_drop [OF st']]
          advances_net [OF st'(1)]; blast intro: grows_rules)
  qed
  show ?thesis
    unfolding call_mem_drop_def
    by (rule ensures_foreign_then [OF assms]) (simp add: Let_def ensures_ok_or drop)
qed

lemma advances_cells:
  assumes "advances t st" "store_le (cells st) s'" "cells_ok (tr_net st) s'"
  shows "advances t (st\<lparr>cells := s'\<rparr>)"
proof -
  from assms(1) obtain f where f: "call_stack st = push f t" "fn_active_block f \<noteq> None"
    "frame_ok (places_of (tr_net st)) f" "memory_ok (cells st) (fn_memory f)"
    by (rule advancesE)
  show ?thesis
    by (rule advances_step [OF assms(1), where f = f]) (use f assms(2,3) in \<open>auto intro: memory_ok_mono\<close>)
qed

lemma ensures_call_deref_mutex:
  assumes "advances t st" "set_call_places places \<subseteq> places_of (tr_net st)"
  shows "ensures external_panic (advances t) (call_deref_mutex N tcx function_name args destination places st)"
proof -
  have deref: "ensures external_panic (\<lambda>s. advances t (st'\<lparr>cells := s\<rparr>))
      (add_deref_mut_transition (guard_mutex g) (get_default ts) (cells st'))"
    if st': "advances t st'" and ts: "set_call_transitions ts \<subseteq> transitions_of (tr_net st')"
      and g: "guard_mutex g < length (mutexes (cells st'))" for ts st' and g :: mutex_guard
  proof -
    have "cells_ok (tr_net st') (cells st')" using st' by (rule advancesE)
    moreover have "get_default ts \<in> transitions_of (tr_net st')" using set_get_default ts by blast
    ultimately show ?thesis
      using g by (auto intro!: ensures_mono [OF ensures_add_deref_mut_transition] advances_cells [OF st'])
  qed
  have guard: "ensures external_panic (\<lambda>g. guard_mutex g < length (mutexes (cells st'))) (get_mutex_guard p (fn_memory f))"
    if "advances t st'" "call_stack st' = push f t" for p f st'
    using that by (auto elim!: advancesE intro: ensures_get)
  have pl: "set_call_places (ignore_cleanup_place places) \<subseteq> places_of (tr_net st)"
    by (rule subset_trans [OF set_ignore_cleanup_place assms(2)])
  show ?thesis
    unfolding call_deref_mutex_def Let_def
  proof (rule ensures_foreign_then [OF assms(1) pl], goal_cases)
    case (1 ts st' f)
    show ?case
      by (auto simp: 1(1,2) intro!: ensures_ok_or ensures_mono [OF guard [OF 1(1,2)]] deref [OF 1(1,3)])
  qed
qed

lemma ensures_call_unwrap_mutex:
  assumes "advances t st" "set_call_places places \<subseteq> places_of (tr_net st)"
  shows "ensures external_panic (advances t) (call_unwrap_mutex N tcx function_name args destination places st)"
  unfolding call_unwrap_mutex_def Let_def
  by (rule ensures_foreign_then [OF assms(1) subset_trans [OF set_ignore_cleanup_place assms(2)]]) simp

lemma ensures_extract_def_id:
  "ensures external_panic (\<lambda>_. True) (extract_def_id_of_called_function_from_operand operand d tcx)"
  by (auto simp: extract_def_id_of_called_function_from_operand_def split: operand.splits ty_kind.splits)

lemma ensures_extract_closure: "args \<noteq> [] \<Longrightarrow> ensures external_panic (\<lambda>_. True) (extract_closure args)"
  by (auto simp: extract_closure_def split: list.splits operand.splits const_kind.splits)

lemma ensures_call_thread_spawn:
  assumes "advances t st" "set_call_places places \<subseteq> places_of (tr_net st)"
  shows "ensures external_panic (advances t) (call_thread_spawn N tcx function_name args destination places st)"
proof -
  have spawn: "advances t (st'\<lparr>cells := s', call_stack := push (f\<lparr>fn_memory := link_join_handle destination r (fn_memory f)\<rparr>) t,
        threads := threads st' @ [r]\<rparr>)"
    if st': "advances t st'" "call_stack st' = push f t" and ts: "set_call_transitions ts \<subseteq> transitions_of (tr_net st')"
      and agg: "\<forall>v \<in> set agg. val_ok (cells st') v"
      and r: "rc_new_thread (thread_new (get_default ts) d agg k) (cells st') = (r, s')"
    for ts st' f agg d k r s'
  proof -
    from st' have f: "fn_active_block f \<noteq> None" "frame_ok (places_of (tr_net st')) f"
        "memory_ok (cells st') (fn_memory f)" "cells_ok (tr_net st') (cells st')"
      by (auto elim!: advancesE)
    have "get_default ts \<in> transitions_of (tr_net st')" using set_get_default ts by blast
    then have "cells_ok (tr_net st') s'"
      using f(4) agg store_ok_rc_new_thread [of _ _ "cells st'" "thread_new (get_default ts) d agg k"]
      by (simp add: cells_ok_def thread_new_def r [unfolded thread_new_def])
    with f store_le_rc_new(3) [OF r] show ?thesis
      by (intro advances_step [OF st'(1), where f = "f\<lparr>fn_memory := link_join_handle destination r (fn_memory f)\<rparr>"])
        (auto intro: memory_ok_mono)
  qed
  have spawned: "ensures external_panic (advances t)
      (case rc_new_thread (thread_new (get_default ts) d agg k) (cells st') of (r, s') \<Rightarrow>
        Inr (st'\<lparr>cells := s', call_stack := push (f\<lparr>fn_memory := link_join_handle destination r (fn_memory f)\<rparr>) t,
          threads := threads st' @ [r]\<rparr>))"
    if "advances t st'" "call_stack st' = push f t" "set_call_transitions ts \<subseteq> transitions_of (tr_net st')"
      "\<forall>v \<in> set agg. val_ok (cells st') v" for ts st' f agg d k
    using spawn [OF that] by (simp split: prod.split)
  have agg: "ensures external_panic (\<lambda>agg. \<forall>v \<in> set agg. val_ok (cells st') v)
      (case c of None \<Rightarrow> Inr [] | Some place \<Rightarrow> copy_aggregate place (fn_memory f))"
    if "advances t st'" "call_stack st' = push f t" for c f st'
    using that by (auto elim!: advancesE intro!: ensures_copy_aggregate split: option.splits)
  show ?thesis
    unfolding call_thread_spawn_def Let_def
  proof (rule ensures_foreign_then [OF assms], goal_cases)
    case (1 ts st' f)
    show ?case
      by (cases args)
        (auto simp: 1(2) intro!: ensures_mono [OF ensures_extract_def_id]
          ensures_mono [OF ensures_extract_closure] ensures_mono [OF agg [OF 1(1,2)]] spawned [OF 1])
  qed
qed

lemma ensures_call_sync_function:
  assumes "advances t st" "set_call_places places \<subseteq> places_of (tr_net st)"
    "is_supported_function function_name" "function_name \<noteq> ''std::thread::spawn''"
  shows "ensures external_panic (advances t) (call_sync_function N function_name args destination places st)"
proof -
  from assms(1) obtain f where f: "call_stack st = push f t" "fn_active_block f \<noteq> None"
    "frame_ok (places_of (tr_net st)) f" "memory_ok (cells st) (fn_memory f)" "cells_ok (tr_net st) (cells st)"
    by (rule advancesE)
  obtain i c where c: "get_count function_name (function_counter st) = (i, c)" by fastforce
  have result: "advances t (st\<lparr>function_counter := c, tr_net := net', cells := s',
        call_stack := push (f\<lparr>fn_memory := m\<rparr>) t, postprocessing := tasks\<rparr>)"
    if "sync_result (tr_net st) (cells st) (task, net', m, s')"
      "tasks = (case task of Some task \<Rightarrow> heap_push get_priority task (postprocessing st) | None \<Rightarrow> postprocessing st)"
    for net' m s' task tasks
    by (rule advances_step [OF assms(1), where f = "f\<lparr>fn_memory := m\<rparr>"])
      (use that f in \<open>auto simp: sync_result_def sync_step_def intro: frame_ok_grows split: option.splits\<close>)
  show ?thesis
    unfolding call_sync_function_def c Let_def prod.case
    by (simp add: f(1), rule ensures_mono [OF ensures_sync_call_function [OF assms(2) f(5,4) assms(3,4)]])
      (auto intro!: result cong: option.case_cong)
qed

text \<open>
  The contract of the recursive call: started on a new frame, it leaves the frames below.
\<close>

definition translates_top :: "('n, 'p, 't) step \<Rightarrow> bool" where
  "translates_top rec \<longleftrightarrow> (\<forall>st f t. state_ok st \<longrightarrow> call_stack st = push f t \<longrightarrow> fn_active_block f = None \<longrightarrow>
     ensures external_panic (\<lambda>st'. state_ok st' \<and> call_stack st' = t) (rec st))"

lemma ensures_call_mir_function:
  assumes "advances t st" "set_call_places places \<subseteq> places_of (tr_net st)" "translates_top rec"
  shows "ensures external_panic (advances t) (call_mir_function N rec d function_name places st)"
proof -
  from assms(1) obtain f where f: "call_stack st = push f t" "fn_active_block f \<noteq> None" "state_ok st"
      "cells_ok (tr_net st) (cells st)"
    by (rule advancesE)
  obtain i c where c: "get_count function_name (function_counter st) = (i, c)" by fastforce
  have pushed: "ensures external_panic (advances t)
      (rec (st\<lparr>function_counter := c, tr_net := net', call_stack := push (mir_function_new d n sp ep) (push f t)\<rparr>))"
    (is "ensures _ _ (rec ?st)") if "grows (tr_net st) net'" "sp \<in> places_of net'" "ep \<in> places_of net'" for net' n sp ep
  proof -
    have "state_ok ?st"
      by (rule state_ok_step [OF f(3)])
        (use that f in \<open>auto simp: state_ok_def intro: cells_ok_grows dest: growsD\<close>)
    then have "ensures external_panic (\<lambda>st'. state_ok st' \<and> call_stack st' = push f t) (rec ?st)"
      using assms(3) unfolding translates_top_def by simp
    then show ?thesis
      by (rule ensures_mono) (use f(2) in \<open>auto simp: advances_def\<close>)
  qed
  show ?thesis
  proof (cases places)
    case (Basic_Places sp ep)
    with pushed [of "tr_net st" sp ep] assms(2) show ?thesis
      by (simp add: call_mir_function_def c f(1))
  next
    case (WithCleanup_Places sp ep cp)
    with assms(2) have "sp \<in> places_of (tr_net st)" "ep \<in> places_of (tr_net st)" "cp \<in> places_of (tr_net st)" by auto
    then show ?thesis
      unfolding call_mir_function_def c WithCleanup_Places call_places.case Let_def prod.case ensures_bind
      by (simp add: f(1), intro ensures_mono [OF ensures_connect_places])
        (auto intro!: pushed dest: growsD)
  qed
qed

lemma ensures_is_self_ref_mutex:
  assumes "advances t st"
  shows "ensures external_panic (\<lambda>_. True) (is_self_ref_mutex tcx function_name args st)"
  using assms by (auto simp: is_self_ref_mutex_def elim!: advancesE intro!: ensures_ok_or)

lemma ensures_start_function_call:
  assumes "advances t st" "set_call_places places \<subseteq> places_of (tr_net st)" "translates_top rec"
  shows "ensures external_panic (advances t)
    (start_function_call N tcx rec d function_name args destination places st)"
proof -
  have self: "ensures external_panic (\<lambda>_. True) (if b then is_self_ref_mutex tcx function_name args st else Inr False)" for b
    using ensures_is_self_ref_mutex [OF assms(1)] by simp
  have foreign: "ensures external_panic (advances t)
      (and_then (translator_call_foreign_function N tcx function_name args destination places st) (\<lambda>(_, st). Inr st))"
    by (rule ensures_foreign_then [OF assms(1,2)]) simp
  note handlers = ensures_call_mem_drop ensures_call_deref_mutex ensures_call_unwrap_mutex
    ensures_call_thread_spawn ensures_call_sync_function ensures_call_mir_function
  show ?thesis
    unfolding start_function_call_def
    by (intro conjI impI handlers foreign ensures_and_then [OF self] assms
        if_split [where P = "ensures external_panic (advances t)", THEN iffD2])
qed

lemma ensures_places_for_call:
  assumes "frame_ok (places_of net) f" "sp \<in> places_of net" "pp \<in> places_of net" "ep \<in> places_of net"
  shows "ensures external_panic (\<lambda>(places, r). frame_step net f r \<and>
      (\<forall>pl. places = Some pl \<longrightarrow> set_call_places pl \<subseteq> places_of (snd r)))
    (places_for_call N name sp target on_unwind pp ep f net)"
proof -
  have end_place: "ensures external_panic (\<lambda>(p, f', net'). frame_step net f (f', net') \<and> p \<in> places_of net' \<and>
      sp \<in> places_of net' \<and> pp \<in> places_of net' \<and> ep \<in> places_of net')
      (get_end_place_for_function_call N b f net)" for b
    by (rule ensures_mono [OF ensures_get_end_place [OF assms(1)]])
      (use assms in \<open>auto simp: frame_step_def dest: growsD\<close>)
  have second: "ensures external_panic (\<lambda>(q, f2, net2). frame_step net f (f2, net2) \<and>
      {sp, p, q} \<subseteq> places_of net2) (get_end_place_for_function_call N b f' net')"
    if "frame_step net f (f', net')" "p \<in> places_of net'" "sp \<in> places_of net'" for b f' net' p
  proof -
    have "frame_ok (places_of net') f'" using that(1) by (simp add: frame_step_def)
    from ensures_get_end_place [OF this] show ?thesis
      by (rule ensures_mono) (use that in \<open>auto simp: frame_step_def intro: grows_trans frame_kept_trans dest: growsD(1)\<close>)
  qed
  show ?thesis
    unfolding places_for_call_def
    by (cases target; cases on_unwind)
      (use assms in \<open>auto intro!: ensures_mono [OF end_place] ensures_mono [OF second]
        ensures_mono [OF ensures_call_panic_function] ensures_mono [OF ensures_call_diverging_function]
        frame_step_refl frame_step_net\<close>)
qed

lemma ensures_call_function:
  assumes "advances t st" "translates_top rec"
  shows "ensures external_panic (advances t)
    (call_function N tcx rec func args destination target on_unwind st)"
proof -
  from assms(1) obtain f where f: "call_stack st = push f t" "fn_active_block f \<noteq> None"
    "frame_ok (places_of (tr_net st)) f" "program_panic st \<in> places_of (tr_net st)"
    "program_end st \<in> places_of (tr_net st)"
    by (rule advancesE)
  have call: "ensures external_panic (advances t)
      (case places of None \<Rightarrow> Inr (st\<lparr>tr_net := net', call_stack := push f' t\<rparr>)
       | Some places \<Rightarrow>
           and_then (start_function_call N tcx rec d name args destination places
                       (st\<lparr>tr_net := net', call_stack := push f' t\<rparr>)) (\<lambda>st.
           Inr (st\<lparr>function_counter := increment name (function_counter st)\<rparr>)))"
    if "frame_step (tr_net st) f (f', net')" "\<forall>pl. places = Some pl \<longrightarrow> set_call_places pl \<subseteq> places_of net'"
    for places f' net' name d
    using advances_frame_step [OF assms(1) f(1) that(1)] that(2)
    by (cases places) (auto intro!: ensures_mono [OF ensures_start_function_call [OF _ _ assms(2)]] advances_counter)
  show ?thesis
    unfolding call_function_def
    by (auto simp: f(1) Let_def intro!: ensures_mono [OF ensures_extract_def_id] call
        ensures_mono [OF ensures_start_place_for_function_call [OF f(3,2)]]
        ensures_mono [OF ensures_places_for_call [OF f(3) _ f(4,5)]])
qed

section \<open>The visitor\<close>

lemma ensures_visit_drop:
  assumes "advances t st" "call_stack st = push f t"
  shows "ensures external_panic (frame_step (tr_net st) f) (visit_drop N place target on_unwind f st)"
proof -
  from assms have f: "fn_active_block f \<noteq> None" "frame_ok (places_of (tr_net st)) f"
      "program_end st \<in> places_of (tr_net st)"
    by (auto elim!: advancesE)
  have drop: "ensures external_panic (\<lambda>((tr, c), r). frame_step (tr_net st) f r \<and>
      tr \<in> transitions_of (snd r) \<and> set_option c \<subseteq> transitions_of (snd r)) (drop_terminator N target c f net)"
    if "grows (tr_net st) net" for c net
    by (rule ensures_mono [OF ensures_drop_terminator [OF frame_ok_grows [OF f(2) that] f(1)]])
      (use that f(2) in \<open>auto simp: frame_step_def intro: grows_trans\<close>)
  have guards: "ensures external_panic (frame_step (tr_net st) f)
      (and_then (handle_mutex_guard_drop N place tr net (fn_memory f') (cells st)) (\<lambda>net.
        case c of None \<Rightarrow> Inr (f', net)
        | Some c \<Rightarrow> and_then (handle_mutex_guard_drop N place c net (fn_memory f') (cells st)) (\<lambda>net. Inr (f', net))))"
    if step: "frame_step (tr_net st) f (f', net)" and tr: "tr \<in> transitions_of net" "set_option c \<subseteq> transitions_of net"
    for f' net tr c
  proof -
    have m: "fn_memory f' = fn_memory f" and g: "grows (tr_net st) net"
      using step by (auto simp: frame_step_def frame_kept_simps)
    show ?thesis unfolding m
      by (cases c) (use step tr g in \<open>auto intro!: ensures_mono [OF ensures_guard_drop [OF assms]];
          blast intro: grows_rules frame_step_grows\<close>)+
  qed
  show ?thesis
    unfolding visit_drop_def Let_def
    by (cases on_unwind)
      (auto simp del: ensures_bind intro!: ensures_and_then [OF drop] ensures_and_then [OF ensures_unreachable] guards f
        ensures_and_then [where Q = "\<lambda>((tr, c), r). frame_step (tr_net st) f r \<and>
          tr \<in> transitions_of (snd r) \<and> set_option c \<subseteq> transitions_of (snd r)"] drop)
qed

lemma ensures_visit_assert:
  assumes "advances t st" "call_stack st = push f t"
  shows "ensures external_panic (frame_step (tr_net st) f) (visit_assert N target on_unwind f st)"
proof -
  from assms have f: "frame_ok (places_of (tr_net st)) f" "fn_active_block f \<noteq> None"
      "program_end st \<in> places_of (tr_net st)"
    by (auto elim!: advancesE)
  have "ensures external_panic (frame_step (tr_net st) f)
      (and_then (unreachable N (program_end st) f' net') (\<lambda>net. Inr (f', net)))"
    if "frame_step (tr_net st) f (f', net')" for f' net'
  proof -
    have "frame_ok (places_of net') f'" "fn_active_block f' \<noteq> None" "program_end st \<in> places_of net'"
      using that f by (auto simp: frame_step_def frame_kept_simps dest: growsD)
    then show ?thesis
      using that by (auto intro!: ensures_mono [OF ensures_unreachable] intro: frame_step_grows)
  qed
  then show ?thesis
    unfolding visit_assert_def
    by (cases on_unwind)
      (auto simp del: ensures_bind intro!: ensures_assert_terminator f ensures_and_then [OF ensures_assert_terminator])
qed

lemma ensures_visit_terminator:
  assumes "advances t st" "translates_top rec"
  shows "ensures external_panic (advances t) (visit_terminator N tcx rec terminator st)"
proof -
  from assms(1) obtain f where f: "call_stack st = push f t" "fn_active_block f \<noteq> None"
    "frame_ok (places_of (tr_net st)) f" "program_panic st \<in> places_of (tr_net st)"
    "program_end st \<in> places_of (tr_net st)"
    by (rule advancesE)
  note update = advances_frame_step [OF assms(1) f(1)] and net = advances_net [OF assms(1)]
  note ops = ensures_goto [OF f(3,2)] ensures_switch_int [OF f(3,2)] ensures_return_statement [OF f(3,2)]
    ensures_unreachable [OF f(3,2,5)] ensures_unwind [OF f(3,2,4)]
    ensures_visit_drop [OF assms(1) f(1)] ensures_visit_assert [OF assms(1) f(1)]
  show ?thesis
    unfolding visit_terminator_def f(1)
    by (cases terminator)
      (auto simp: Let_def intro!: ops [THEN ensures_mono] update net ensures_call_function [OF assms])
qed

lemma ensures_visit_assign:
  assumes "advances t st"
  shows "ensures external_panic (advances t) (visit_assign tcx place rvalue st)"
proof -
  from assms obtain f where f: "call_stack st = push f t" "memory_ok (cells st) (fn_memory f)"
    by (rule advancesE)
  show ?thesis
    unfolding visit_assign_def f(1)
    by (auto simp: Let_def assms split: rvalue.splits operand.splits
        intro!: ensures_mono [OF ensures_link_if_sync_variable [OF f(2)]] advances_memory [OF assms f(1)]
          ensures_mono [OF ensures_handle_aggregate_assignment [OF f(2)]])
qed

lemma ensures_visit_basic_block_data:
  assumes "state_ok st" "call_stack st = push f t"
  shows "ensures external_panic (advances t) (visit_basic_block_data N block st)"
proof -
  have f: "frame_ok (places_of (tr_net st)) f" "memory_ok (cells st) (fn_memory f)" "cells_ok (tr_net st) (cells st)"
      "program_panic st \<in> places_of (tr_net st)"
    using assms by (auto simp: state_ok_def)
  have "advances t (st\<lparr>tr_net := net', call_stack := push f' t\<rparr>)"
    if "grows (tr_net st) net'" "frame_ok (places_of net') f'" "fn_active_block f' = Some block"
      "fn_memory f' = fn_memory f" for f' net'
  proof -
    have "state_ok (st\<lparr>tr_net := net', call_stack := push f' t\<rparr>)"
      by (rule state_ok_step [OF assms(1)])
        (use that f assms in \<open>auto intro: cells_ok_grows dest: growsD(1) [OF that(1)]\<close>)
    with that(3) show ?thesis by (simp add: advances_def)
  qed
  then show ?thesis
    unfolding visit_basic_block_data_def assms(2)
    by (auto intro!: ensures_mono [OF ensures_activate_block [OF f(1)]])
qed

lemma ensures_visit:
  assumes "advances t st" "translates_top rec"
  shows "ensures external_panic (advances t) (visit N tcx rec call st)"
proof (cases call)
  case (VisitBasicBlockData block)
  from assms(1) obtain f where "call_stack st = push f t" "state_ok st" by (rule advancesE)
  with VisitBasicBlockData show ?thesis
    by (auto simp: visit_def intro: ensures_visit_basic_block_data)
qed (auto simp: visit_def intro: ensures_visit_assign [OF assms(1)] ensures_visit_terminator [OF assms])

section \<open>The loops\<close>

lemma ensures_visit_body:
  assumes "state_ok st" "call_stack st = push f t" "visits_blocks_first tcx" "translates_top rec"
  shows "ensures external_panic (\<lambda>st'. state_ok st' \<and> (\<exists>f'. call_stack st' = push f' t))
    (try_fold (visit N tcx rec) (visit_body tcx d) st)"
proof (cases "visit_body tcx d")
  case Nil
  with assms show ?thesis by auto
next
  case (Cons call calls)
  with assms(3) obtain block where call: "call = VisitBasicBlockData block"
    unfolding visits_blocks_first_def by (cases call) (auto dest: spec [of _ d])
  have "ensures external_panic (advances t) (try_fold (visit N tcx rec) calls st')" if "advances t st'" for st'
    by (rule ensures_try_fold [where I = "advances t", OF that]) (rule ensures_visit [OF _ assms(4)])
  then have "ensures external_panic (\<lambda>st'. state_ok st' \<and> (\<exists>f'. call_stack st' = push f' t))
      (try_fold (visit N tcx rec) calls st')" if "advances t st'" for st'
    by (rule ensures_mono) (use that in \<open>auto simp: advances_def\<close>)
  moreover have "ensures external_panic (advances t) (visit N tcx rec call st)"
    using ensures_visit_basic_block_data [OF assms(1,2)] by (simp add: call visit_def)
  ultimately show ?thesis
    unfolding Cons try_fold.simps ensures_bind by (blast intro: ensures_mono)
qed

lemma translates_top_call_stack:
  assumes "visits_blocks_first tcx"
  shows "translates_top (translate_top_call_stack N tcx depth)"
proof (induction depth)
  case 0
  show ?case by (simp add: translates_top_def)
next
  case (Suc depth)
  show ?case unfolding translates_top_def
  proof (intro allI impI)
    fix st f t
    assume st: "state_ok st" "call_stack st = push f t" "fn_active_block f = None"
    have pop: "state_ok (st'\<lparr>call_stack := t\<rparr>)" if "state_ok st'" "call_stack st' = push f' t" for st' f'
      using that by (auto simp: state_ok_def)
    show "ensures external_panic (\<lambda>st'. state_ok st' \<and> call_stack st' = t)
        (translate_top_call_stack N tcx (Suc depth) st)"
      using ensures_visit_body [OF st(1,2) assms Suc.IH, of "fn_def_id f"]
      by (auto simp: st(2) intro!: pop elim!: ensures_mono)
  qed
qed

lemma ensures_translate_thread:
  assumes "state_ok st" "r < length (thread_cells (cells st))" "visits_blocks_first tcx"
  shows "ensures external_panic (\<lambda>st'. state_ok st' \<and> call_stack st' = call_stack st)
    (translate_thread N tcx depth r st)"
proof -
  define th where "th = thread_cells (cells st) ! r"
  have "th \<in> set (thread_cells (cells st))" using assms(2) by (simp add: th_def)
  with assms(1) have th: "spawn_transition th \<in> transitions_of (tr_net st)"
      "set_option (join_transition th) \<subseteq> transitions_of (tr_net st)"
      "\<forall>v \<in> set (thread_aggregate th). val_ok (cells st) v"
    by (auto simp: state_ok_def cells_ok_def store_ok_def)
  have translate: "ensures external_panic (\<lambda>st'. state_ok st' \<and> call_stack st' = call_stack st)
      (translate_top_call_stack N tcx depth (st\<lparr>tr_net := net', program_panic := ep,
        call_stack := push (mir_function_new d n sp ep\<lparr>fn_memory := m\<rparr>) (call_stack st)\<rparr>))"
    (is "ensures _ _ (translate_top_call_stack _ _ _ ?st)")
    if "grows (tr_net st) net'" "sp \<in> places_of net'" "ep \<in> places_of net'" "memory_ok (cells st) m" for net' d n sp ep m
  proof -
    have "state_ok ?st"
      by (rule state_ok_step [OF assms(1)])
        (use that assms(1) in \<open>auto simp: state_ok_def intro: cells_ok_grows\<close>)
    with translates_top_call_stack [OF assms(3)] show ?thesis
      unfolding translates_top_def by simp
  qed
  have d: "deref_cell (thread_cells (cells st)) r = Inr th"
    using assms(2) by (simp add: deref_cell_def th_def)
  show ?thesis
    unfolding translate_thread_def d and_then_Inr
    by (auto simp: push_function_to_call_stack_def Let_def
        intro!: ensures_mono [OF ensures_prepare_for_translation [OF th(1,2)]]
          ensures_mono [OF ensures_move_sync_variables [OF memory_ok_default th(3)]] translate)
qed

lemma ensures_translate_threads:
  assumes "state_ok st" "visits_blocks_first tcx"
  shows "ensures external_panic (\<lambda>st'. state_ok st' \<and> call_stack st' = call_stack st \<and> threads st' = [])
    (translate_threads N tcx depth rounds st)"
  using assms(1)
proof (induction rounds arbitrary: st)
  case 0
  then show ?case by (simp split: list.splits)
next
  case (Suc rounds)
  show ?case
  proof (cases "threads st")
    case Nil
    with Suc.prems show ?thesis by simp
  next
    case (Cons r rest)
    have st: "state_ok (st\<lparr>threads := rest\<rparr>)" "r < length (thread_cells (cells st))"
      using Suc.prems Cons by (auto simp: state_ok_def)
    show ?thesis
      unfolding translate_threads.simps Cons list.case ensures_bind
      by (rule ensures_mono [OF ensures_translate_thread [OF st(1) _ assms(2)]])
        (use st(2) in \<open>auto dest: Suc.IH\<close>)
  qed
qed

lemma ensures_run_tasks:
  assumes "cells_ok net s" "\<forall>r \<in> set refs. r < length (mutexes s)" "\<forall>task \<in> set tasks. task_ok net s task"
  shows "ensures external_panic (grows net) (run_tasks N s refs tasks net)"
  using assms
proof (induction "length tasks" arbitrary: refs tasks net rule: less_induct)
  case less
  show ?case
  proof (cases "heap_pop get_priority tasks")
    case None
    then show ?thesis by (subst run_tasks.simps) simp
  next
    case (Some p)
    obtain task rest where p: "p = (task, rest)" by fastforce
    note pop = Some [unfolded p]
    have tasks: "set tasks = insert task (set rest)"
      using mset_heap_pop [OF pop] by (metis set_mset_add_mset_insert set_mset_mset)
    note IH = less.hyps [OF length_heap_pop [OF pop]]
    show ?thesis
    proof (cases task)
      case (NewMutex prio r)
      with less.prems tasks have "ensures external_panic (grows net) (run_tasks N s (refs @ [r]) rest net)"
        by (intro IH) (auto simp: task_ok_def)
      with pop NewMutex show ?thesis by (subst run_tasks.simps) simp
    next
      case (LinkMutexToCondvar prio i sp ep w)
      have "ensures external_panic (grows net) (link_mutex_ref_to_condvar N s i sp ep w r net')"
        if r: "r \<in> set refs" and g: "grows net net'" for r net'
      proof -
        have "r < length (mutexes s)" using less.prems(2) r by blast
        moreover have "sp \<in> places_of net'" "ep \<in> places_of net'" "w \<in> transitions_of net'"
          using less.prems(3) tasks LinkMutexToCondvar g by (auto simp: task_ok_def dest: growsD)
        ultimately show ?thesis
          using cells_okD(2) [OF cells_ok_grows [OF less.prems(1) g]] g
          unfolding link_mutex_ref_to_condvar_def ensures_bind
          by (auto intro!: ensures_deref_cell ensures_mono [OF ensures_link_to_condvar] intro: grows_trans)
      qed
      then have links: "ensures external_panic (grows net)
          (try_fold (link_mutex_ref_to_condvar N s i sp ep w) refs net)"
        by (intro ensures_try_fold) auto
      have "ensures external_panic (grows net) (run_tasks N s refs rest net')" if "grows net net'" for net'
        by (rule ensures_mono [OF IH])
          (use that less.prems tasks in \<open>auto intro: cells_ok_grows task_ok_mono grows_trans\<close>)
      with links show ?thesis
        using pop LinkMutexToCondvar by (subst run_tasks.simps) (auto intro: ensures_mono)
    qed
  qed
qed

lemma ensures_translator_new:
  "ensures external_panic (\<lambda>st. state_ok st \<and> call_stack st = stack_new) (translator_new N)"
proof -
  obtain pp n1 where pp: "net_add_place N PROGRAM_PANIC (net_new N) = (pp, n1)" by fastforce
  obtain ep n2 where ep: "net_add_place N PROGRAM_END n1 = (ep, n2)" by fastforce
  obtain sp n3 where sp: "net_add_place N PROGRAM_START n2 = (sp, n3)" by fastforce
  note places = add_place_grows [OF pp] add_place_grows [OF ep] add_place_grows [OF sp]
  have "pp \<in> places_of n3" "ep \<in> places_of n3" "sp \<in> places_of n3" using places by (blast intro: growsD)+
  then show ?thesis
    by (auto simp: translator_new_def pp ep sp state_ok_def cells_ok_def heap_new_def
        intro!: ensures_mono [OF ensures_add_token] dest: growsD)
qed

lemma ensures_run:
  assumes "state_ok st" "visits_blocks_first tcx"
  shows "ensures external_panic (\<lambda>st'. call_stack st' = call_stack st \<and> threads st' = [] \<and> postprocessing st' = [])
    (run N tcx depth rounds st)"
proof -
  have push: "state_ok (push_function_to_call_stack tcx d (program_start st) (program_end st) st)" for d
    using assms(1) by (auto simp: push_function_to_call_stack_def state_ok_def Let_def)
  have main: "ensures external_panic (\<lambda>st'. state_ok st' \<and> call_stack st' = call_stack st)
      (translate_top_call_stack N tcx depth (push_function_to_call_stack tcx d (program_start st) (program_end st) st))" for d
    using translates_top_call_stack [OF assms(2), of depth] push [of d]
    unfolding translates_top_def by (auto simp: push_function_to_call_stack_def Let_def)
  have post: "ensures external_panic (\<lambda>st''. call_stack st'' = call_stack st' \<and> threads st'' = threads st' \<and> postprocessing st'' = [])
      (translation_postprocessing N st')" if "state_ok st'" for st'
    using that unfolding translation_postprocessing_def ensures_bind state_ok_def
    by (intro ensures_mono [OF ensures_run_tasks]) (auto simp: heap_new_def)
  show ?thesis
    unfolding run_def
    by (auto intro!: ensures_ok_or ensures_mono [OF main] ensures_mono [OF ensures_translate_threads [OF _ assms(2)]]
        ensures_mono [OF post])
qed

end

section \<open>The translator has no internal panics\<close>

text \<open>
  C1. For every program and every Petri net library whose references stay valid, a run of the
  translator (\<open>Translator::new\<close> followed by \<open>Translator::run\<close>) raises none of the panics that
  report an internal inconsistency: no arc fails to be created, the call stack is never empty when
  it is read, no active or target block is missing and none is added twice, every supported
  function has a handler, no condition variable is marked twice and no reference dangles. When the
  run returns, the call stack is empty again, every thread was translated and no task is left.
\<close>

theorem translator_no_internal_panic:
  assumes "petri_net N places_of transitions_of" "visits_blocks_first tcx"
  shows "ensures external_panic
    (\<lambda>st. call_stack st = stack_new \<and> threads st = [] \<and> postprocessing st = [])
    (and_then (translator_new N) (run N tcx depth rounds))"
proof -
  have "ensures external_panic (\<lambda>st'. call_stack st' = stack_new \<and> threads st' = [] \<and> postprocessing st' = [])
      (run N tcx depth rounds st)" if "petri_net.state_ok places_of transitions_of st" "call_stack st = stack_new" for st
    using petri_net.ensures_run [OF assms(1) that(1) assms(2)] that(2) by simp
  then show ?thesis
    unfolding ensures_bind using petri_net.ensures_translator_new [OF assms(1)]
    by (auto elim!: ensures_mono)
qed

lemma double_lock_deadlock_blocks_first: "visits_blocks_first double_lock_deadlock"
  by (auto simp: visits_blocks_first_def double_lock_deadlock_def program_def nth_or_def)

theorem translator_no_internal_panic_witness:
  "ensures external_panic (\<lambda>st. call_stack st = stack_new \<and> threads st = [] \<and> postprocessing st = [])
    (and_then (translator_new simple_netcrab) (run simple_netcrab double_lock_deadlock 1 0))"
  using translator_no_internal_panic [OF simple.petri_net_axioms double_lock_deadlock_blocks_first] .

section \<open>The invariant of the translator\<close>

text \<open>
  The state of the translator is consistent: the places of the program and of every frame are in the
  net, the active block of a frame is one of its blocks, every value in a memory refers to an
  existing cell, the cells refer to nodes of the net, the threads to cells, and the tasks to nodes
  and cells.
\<close>

definition consistent :: "('n \<Rightarrow> 'p set) \<Rightarrow> ('n \<Rightarrow> 't set) \<Rightarrow> ('n, 'p, 't) translator \<Rightarrow> bool" where
  "consistent places_of transitions_of st \<longleftrightarrow>
     {program_start st, program_end st, program_panic st} \<subseteq> places_of (tr_net st) \<and>
     (\<forall>f \<in> set (stack (call_stack st)). frame_ok (places_of (tr_net st)) f \<and> memory_ok (cells st) (fn_memory f)) \<and>
     store_ok (places_of (tr_net st)) (transitions_of (tr_net st)) (cells st) \<and>
     (\<forall>r \<in> set (threads st). r < length (thread_cells (cells st))) \<and>
     (\<forall>task \<in> set (postprocessing st). well_prioritised task \<and> (case task of
         LinkMutexToCondvar _ _ sp ep w \<Rightarrow>
           {sp, ep} \<subseteq> places_of (tr_net st) \<and> w \<in> transitions_of (tr_net st)
       | NewMutex _ r \<Rightarrow> r < length (mutexes (cells st))))"

lemma consistent_state_ok:
  assumes "petri_net N places_of transitions_of"
  shows "petri_net.state_ok places_of transitions_of st \<longleftrightarrow> consistent places_of transitions_of st"
  unfolding petri_net.state_ok_def [OF assms] petri_net.task_ok_def [OF assms] petri_net.cells_ok_def [OF assms] consistent_def
  by (auto split: postprocessing_task.splits)

text \<open>
  C15. Every visit keeps the state consistent: when the visitor is called on a statement, a terminator
  or a block of the function on top of the call stack, in a consistent state, then it either panics
  for a reason outside of the translator or the new state is consistent, the frames below are
  untouched and the top frame again has an active block. A call of another function counts as one
  visit, with everything it inlines.
\<close>

theorem visit_keeps_consistency:
  assumes "petri_net N places_of transitions_of" "visits_blocks_first tcx" "consistent places_of transitions_of st"
    "call_stack st = push f below" "fn_active_block f \<noteq> None"
  shows "ensures external_panic (\<lambda>st'. consistent places_of transitions_of st' \<and>
      (\<exists>f'. call_stack st' = push f' below \<and> fn_active_block f' \<noteq> None))
    (visit N tcx (translate_top_call_stack N tcx depth) call st)"
proof -
  note ok = consistent_state_ok [OF assms(1)]
  have "petri_net.advances places_of transitions_of below st"
    using assms(3-5) unfolding petri_net.advances_def [OF assms(1)] ok by auto
  from petri_net.ensures_visit [OF assms(1) this petri_net.translates_top_call_stack [OF assms(1,2)]]
  show ?thesis unfolding petri_net.advances_def [OF assms(1)] ok .
qed

text \<open>
  The new translator is consistent, with an empty call stack, no threads and no tasks.
\<close>

theorem new_translator_consistent:
  assumes "petri_net N places_of transitions_of"
  shows "ensures external_panic (\<lambda>st. consistent places_of transitions_of st \<and> call_stack st = stack_new \<and>
    threads st = [] \<and> postprocessing st = []) (translator_new N)"
proof -
  have "threads st = [] \<and> postprocessing st = []" if "translator_new N = Inr st" for st
    using that by (auto simp: translator_new_def heap_new_def Let_def split: prod.splits)
  with petri_net.ensures_translator_new [OF assms] show ?thesis
    unfolding consistent_state_ok [OF assms] by (cases "translator_new N") auto
qed

definition visited_state :: "(simple_net, string, string) translator" where
  "visited_state = \<lparr>tr_net = \<lparr>sn_places = [(''A'', 1), (''B'', 0), (''P'', 0)], sn_transitions = []\<rparr>,
     program_start = ''A'', program_end = ''B'', program_panic = ''P'',
     call_stack = push ((mir_function_new 0 ''main'' ''A'' ''B'')
       \<lparr>fn_active_block := Some 0, fn_basic_blocks := [(0, \<lparr>block_function_name = ''main'', block_idx = 0, block_place = ''A''\<rparr>)]\<rparr>) stack_new,
     function_counter = counter_new, threads = [], postprocessing = heap_new, cells = store_new\<rparr>"

lemma visited_state_consistent: "consistent sn_places_of sn_transitions_of visited_state"
  by (auto simp: consistent_def visited_state_def sn_places_of_def frame_ok_def mir_function_new_def heap_new_def
      hm_get_def memory_ok_def memory_default_def hm_new_def split: if_splits)

theorem visit_keeps_consistency_witness:
  "ensures external_panic (\<lambda>st'. consistent sn_places_of sn_transitions_of st' \<and>
      (\<exists>f'. call_stack st' = push f' stack_new \<and> fn_active_block f' \<noteq> None))
    (visit simple_netcrab double_lock_deadlock (translate_top_call_stack simple_netcrab double_lock_deadlock 1)
      (VisitTerminator (Goto 1)) visited_state)"
  by (rule visit_keeps_consistency [OF simple.petri_net_axioms [unfolded sn_view_simps] double_lock_deadlock_blocks_first visited_state_consistent],
      simp add: visited_state_def) simp

theorem new_translator_consistent_witness:
  "ensures external_panic (\<lambda>st. consistent sn_places_of sn_transitions_of st \<and> call_stack st = stack_new \<and>
    threads st = [] \<and> postprocessing st = []) (translator_new simple_netcrab)"
  by (rule new_translator_consistent [OF simple.petri_net_axioms [unfolded sn_view_simps]])

end
