(* ===== verification/Termination.thy ===== *)
theory Termination
  imports Translator Simple_Net Examples
begin

text \<open>
  When the translation ends. The translator inlines every call of a function with a MIR body, so
  its recursion follows the call graph of the program, and the loop over the threads follows the
  \<open>spawn\<close> calls. If there is a rank on functions that every such call and every spawned function
  decreases (the call graph has no cycle), then a depth above all ranks and enough rounds give a
  result that is not cut off by the bounds, whatever the net library does; the rounds are found by
  induction over the multiset of the ranks of the waiting threads. If a function calls itself, then
  no bound suffices: the translation does not end.
\<close>

section \<open>Operations without recursion\<close>

text \<open>A result that is not the exhaustion of a bound.\<close>

definition bounded :: "'a res \<Rightarrow> bool" where
  "bounded m \<longleftrightarrow> m \<noteq> Inl OutOfFuel"

named_theorems bounded_intros

lemma bounded_Inr [simp]: "bounded (Inr x)"
  by (simp add: bounded_def)

lemma bounded_Inl [simp]: "bounded (Inl e) \<longleftrightarrow> e \<noteq> OutOfFuel"
  by (simp add: bounded_def)

lemma bounded_and_then [bounded_intros]:
  "bounded m \<Longrightarrow> (\<And>x. m = Inr x \<Longrightarrow> bounded (f x)) \<Longrightarrow> bounded (and_then m f)"
  by (cases m) simp_all

lemma bounded_ok_or [bounded_intros]: "e \<noteq> OutOfFuel \<Longrightarrow> bounded (ok_or e m)"
  by (cases m) simp_all

lemma bounded_try_fold [bounded_intros]:
  "(\<And>x s. x \<in> set xs \<Longrightarrow> bounded (f x s)) \<Longrightarrow> bounded (try_fold f xs s)"
  by (induction xs arbitrary: s) (auto intro: bounded_and_then)

lemma bounded_if [bounded_intros]: "(b \<Longrightarrow> bounded m) \<Longrightarrow> (\<not> b \<Longrightarrow> bounded n) \<Longrightarrow> bounded (if b then m else n)"
  by simp

lemma bounded_case_prod [bounded_intros]:
  "(\<And>a b. p = (a, b) \<Longrightarrow> bounded (f a b)) \<Longrightarrow> bounded (case p of (a, b) \<Rightarrow> f a b)"
  by (cases p) simp

lemma bounded_case_prod_arg [bounded_intros]:
  "(\<And>a b. p = (a, b) \<Longrightarrow> bounded (f a b x)) \<Longrightarrow> bounded ((case p of (a, b) \<Rightarrow> f a b) x)"
  by (cases p) simp

lemma bounded_case_option [bounded_intros]:
  "(v = None \<Longrightarrow> bounded m) \<Longrightarrow> (\<And>x. v = Some x \<Longrightarrow> bounded (f x)) \<Longrightarrow>
   bounded (case v of None \<Rightarrow> m | Some x \<Rightarrow> f x)"
  by (cases v) simp_all

lemma bounded_case_list [bounded_intros]:
  "bounded m \<Longrightarrow> (\<And>x xs. bounded (f x xs)) \<Longrightarrow> bounded (case l of [] \<Rightarrow> m | x # xs \<Rightarrow> f x xs)"
  by (cases l) simp_all

lemma bounded_case_call_places [bounded_intros]:
  "(\<And>s e. bounded (f s e)) \<Longrightarrow> (\<And>s e c. bounded (g s e c)) \<Longrightarrow>
   bounded (case pl of Basic_Places s e \<Rightarrow> f s e | WithCleanup_Places s e c \<Rightarrow> g s e c)"
  by (cases pl) simp_all

lemma bounded_case_call_transitions [bounded_intros]:
  "(\<And>s. bounded (f s)) \<Longrightarrow> (\<And>s e. bounded (g s e)) \<Longrightarrow>
   bounded (case ts of Basic_Transitions s \<Rightarrow> f s | WithCleanup_Transitions s e \<Rightarrow> g s e)"
  by (cases ts) simp_all

lemma bounded_Let [bounded_intros]: "(\<And>x. bounded (f x)) \<Longrightarrow> bounded (Let v f)"
  by (simp add: Let_def)

lemma bounded_net [bounded_intros]:
  "bounded (add_arc_place_transition N net p t)" "bounded (add_arc_transition_place N net t p)"
  "bounded (add_token N net p k)" "bounded (connect_places N net p q l)"
  unfolding connect_places_def add_arc_place_transition_def add_arc_transition_place_def add_token_def
  by (intro bounded_intros; simp)+

lemma bounded_deref_cell [bounded_intros]: "bounded (deref_cell cs r)"
  by (simp add: deref_cell_def)

lemma bounded_peek [bounded_intros]: "bounded (peek s)" "bounded (peek_mut s)"
  by (simp_all add: peek_def peek_mut_def Let_def split: list.splits)

lemma bounded_unpack [bounded_intros]:
  "bounded (unpack_mutex v)" "bounded (unpack_mutex_guard v)" "bounded (unpack_join_handle v)"
  "bounded (unpack_condvar v)" "bounded (unpack_aggregate v)"
  by (simp_all add: unpack_mutex_def unpack_mutex_guard_def unpack_join_handle_def unpack_condvar_def
      unpack_aggregate_def split: val.splits)

lemma bounded_get [bounded_intros]:
  "bounded (get_linked_value p m)" "bounded (get_mutex p m)" "bounded (get_mutex_guard p m)"
  "bounded (get_join_handle p m)" "bounded (get_condvar p m)" "bounded (copy_aggregate p m)"
  unfolding get_linked_value_def get_mutex_def get_mutex_guard_def get_join_handle_def get_condvar_def
    copy_aggregate_def
  by (intro bounded_intros; simp)+

lemma bounded_linked_values [bounded_intros]: "bounded (linked_values ps m)"
  by (induction ps) (auto intro!: bounded_intros)

lemma bounded_link [bounded_intros]:
  "bounded (link_aggregate p vs m)" "bounded (link_place_to_same_value p q m)"
  "bounded (create_aggregate p ps m)" "bounded (link_field_in_aggregate p q i m)"
  unfolding link_aggregate_def link_place_to_same_value_def create_aggregate_def link_field_in_aggregate_def
  by (intro bounded_intros; simp)+

lemma bounded_utils [bounded_intros]:
  "bounded (get_field_number_in_projection p)" "bounded (extract_closure args)"
  "bounded (extract_def_id_of_called_function_from_operand operand d tcx)"
proof -
  have "bounded (field_number_in ps)" for ps
    by (induction ps) (auto split: projection_elem.splits)
  then show "bounded (get_field_number_in_projection p)" by (simp add: get_field_number_in_projection_def)
  show "bounded (extract_closure args)"
    by (auto simp: extract_closure_def split: list.splits operand.splits const_kind.splits)
  show "bounded (extract_def_id_of_called_function_from_operand operand d tcx)"
    by (auto simp: extract_def_id_of_called_function_from_operand_def split: operand.splits ty_kind.splits)
qed

lemma bounded_special [bounded_intros]:
  "bounded (call_foreign_function N name i pl net)" "bounded (call_diverging_function N p name net)"
  "bounded (call_panic_function N p q name net)"
  unfolding call_foreign_function_def call_diverging_function_def call_panic_function_def
  by (intro bounded_intros; simp)+

lemma bounded_mutex [bounded_intros]:
  "bounded (mutex_new N i net)" "bounded (add_lock_arc N m t net)" "bounded (add_unlock_arc N m t net)"
  "bounded (add_deref_mut_transition r t s)" "bounded (set_condition_arcs N p q t net)"
  "bounded (link_to_condvar N m i sp ep w net)"
  "bounded (mutex_call_lock N name i args dest pl net mem s)"
  "bounded (mutex_call_new N name i dest pl net mem s)"
  "bounded (handle_mutex_guard_drop N place t net mem s)"
  unfolding mutex_new_def add_lock_arc_def add_unlock_arc_def add_deref_mut_transition_def set_condition_arcs_def
    link_to_condvar_def mutex_call_lock_def mutex_call_new_def handle_mutex_guard_drop_def
  by (intro bounded_intros; simp)+

lemma bounded_condvar [bounded_intros]:
  "bounded (condvar_new N i net)" "bounded (link_to_wait_call N c sp ep g net s)"
  "bounded (link_to_notify_one_call N cv t net)"
  "bounded (condvar_call_new N name i dest pl net mem s)"
  "bounded (call_notify_one N name i args pl net mem s)"
  "bounded (call_wait N name i args dest pl net mem s)"
proof -
  show new: "bounded (condvar_new N i net)" for N i net
    unfolding condvar_new_def by (intro bounded_intros; simp)
  show link: "bounded (link_to_wait_call N c sp ep g net s)" for N c sp ep g net s
    unfolding link_to_wait_call_def by (intro bounded_intros; simp)
  show notify: "bounded (link_to_notify_one_call N cv t net)" for N cv t net
    unfolding link_to_notify_one_call_def by (intro bounded_intros)
  show "bounded (condvar_call_new N name i dest pl net mem s)"
    unfolding condvar_call_new_def by (intro bounded_intros new; simp)
  show "bounded (call_notify_one N name i args pl net mem s)"
    unfolding call_notify_one_def by (intro bounded_intros notify; simp)
  show "bounded (call_wait N name i args dest pl net mem s)"
    unfolding call_wait_def by (intro bounded_intros link; simp)
qed

lemma bounded_thread [bounded_intros]:
  "bounded (set_join_transition r t s)" "bounded (prepare_for_translation N th net)"
  "bounded (link_debug_place p info mem)" "bounded (move_sync_variables th mem tcx)"
  "bounded (call_join N name i args pl net mem s)"
proof -
  show join: "bounded (set_join_transition r t s)" for r t s
    unfolding set_join_transition_def by (intro bounded_intros; simp)
  show "bounded (prepare_for_translation N th net)"
    unfolding prepare_for_translation_def by (intro bounded_intros; simp)
  show debug: "bounded (link_debug_place p info mem)" for p info mem
    unfolding link_debug_place_def by (cases info) (auto intro!: bounded_intros)
  show "bounded (move_sync_variables th mem tcx)"
    unfolding move_sync_variables_def by (intro bounded_intros debug)
  show "bounded (call_join N name i args pl net mem s)"
    unfolding call_join_def by (intro bounded_intros join; simp)
qed

lemma bounded_sync [bounded_intros]:
  "bounded (sync_call_function N name i args dest pl net mem s)"
  "bounded (handle_aggregate_assignment p ops mem d tcx)"
  "bounded (link_if_sync_variable p q mem d tcx)"
  "bounded (link_return_value_if_sync_variable args p mem d tcx)"
proof -
  show "bounded (sync_call_function N name i args dest pl net mem s)"
    unfolding sync_call_function_def by (intro bounded_intros; simp)
  show "bounded (handle_aggregate_assignment p ops mem d tcx)"
    unfolding handle_aggregate_assignment_def by (intro bounded_intros; simp)
  show link: "bounded (link_if_sync_variable p q mem d tcx)" for p q mem d tcx
    unfolding link_if_sync_variable_def by (intro bounded_intros; simp)
  show "bounded (link_return_value_if_sync_variable args p mem d tcx)"
    unfolding link_return_value_if_sync_variable_def by (intro bounded_intros link; simp)
qed

lemma bounded_blocks [bounded_intros]:
  "bounded (get_active_block f)" "bounded (prepare_start_place_for_return_statement f)"
  "bounded (add_basic_block N i f net)" "bounded (add_basic_block_if_absent N i f net)"
  "bounded (get_or_add_basic_block N i f net)" "bounded (get_pair_active_block_target_block N i f net)"
  "bounded (activate_block N i f net)" "bounded (get_start_place_for_function_call f)"
  "bounded (get_end_place_for_function_call N i f net)"
proof -
  show active: "bounded (get_active_block f)" for f
    unfolding get_active_block_def by (intro bounded_intros; simp)
  show add: "bounded (add_basic_block N i f net)" for N i f net
    unfolding add_basic_block_def by (intro bounded_intros; simp)
  show absent: "bounded (add_basic_block_if_absent N i f net)" for N i f net
    unfolding add_basic_block_if_absent_def by (intro bounded_intros add; simp)
  show get: "bounded (get_or_add_basic_block N i f net)" for N i f net
    unfolding get_or_add_basic_block_def by (intro bounded_intros absent; simp)
  show "bounded (prepare_start_place_for_return_statement f)"
    unfolding prepare_start_place_for_return_statement_def by (intro bounded_intros active; simp)
  show "bounded (get_pair_active_block_target_block N i f net)"
    unfolding get_pair_active_block_target_block_def by (intro bounded_intros absent active; simp)
  show "bounded (activate_block N i f net)"
    unfolding activate_block_def by (intro bounded_intros absent; simp)
  show "bounded (get_start_place_for_function_call f)"
    unfolding get_start_place_for_function_call_def by (intro bounded_intros active; simp)
  show "bounded (get_end_place_for_function_call N i f net)"
    unfolding get_end_place_for_function_call_def by (intro bounded_intros get; simp)
qed

lemma bounded_terminators [bounded_intros]:
  "bounded (goto N i f net)" "bounded (switch_int N targets f net)" "bounded (unwind N p f net)"
  "bounded (drop_terminator N i c f net)" "bounded (assert_terminator N i c f net)"
  "bounded (return_statement N f net)" "bounded (unreachable N p f net)"
  unfolding goto_def switch_int_def switch_int_to_def unwind_def drop_terminator_def assert_terminator_def
    return_statement_def unreachable_def block_goto_def block_switch_int_def block_unwind_def block_drop_def
    block_drop_cleanup_def block_assert_def block_assert_cleanup_def block_unreachable_def
  by (intro bounded_intros; simp)+

lemma bounded_places_for_call [bounded_intros]:
  "bounded (places_for_call N name sp target on_unwind pp ep f net)"
  unfolding places_for_call_def by (cases target; cases on_unwind) (auto intro!: bounded_intros)

lemma bounded_visit_parts [bounded_intros]:
  "bounded (visit_drop N place target on_unwind f st)" "bounded (visit_assert N target on_unwind f st)"
  unfolding visit_drop_def visit_assert_def by (cases on_unwind; auto intro!: bounded_intros)+

lemma bounded_handlers [bounded_intros]:
  "bounded (translator_call_foreign_function N tcx name args dest pl st)"
  "bounded (is_self_ref_mutex tcx name args st)"
  "bounded (call_mem_drop N tcx name args dest pl st)"
  "bounded (call_deref_mutex N tcx name args dest pl st)"
  "bounded (call_unwrap_mutex N tcx name args dest pl st)"
  "bounded (call_thread_spawn N tcx name args dest pl st)"
  "bounded (call_sync_function N name args dest pl st)"
proof -
  show foreign: "bounded (translator_call_foreign_function N tcx name args dest pl st)" for N tcx name args dest pl st
    unfolding translator_call_foreign_function_def by (intro bounded_intros; simp)
  show "bounded (is_self_ref_mutex tcx name args st)"
    unfolding is_self_ref_mutex_def by (intro bounded_intros; simp)
  show "bounded (call_mem_drop N tcx name args dest pl st)"
    unfolding call_mem_drop_def by (intro bounded_intros foreign; simp)
  show "bounded (call_deref_mutex N tcx name args dest pl st)"
    unfolding call_deref_mutex_def by (intro bounded_intros foreign; simp)
  show "bounded (call_unwrap_mutex N tcx name args dest pl st)"
    unfolding call_unwrap_mutex_def by (intro bounded_intros foreign; simp)
  show "bounded (call_thread_spawn N tcx name args dest pl st)"
    unfolding call_thread_spawn_def by (intro bounded_intros foreign; simp)
  show "bounded (call_sync_function N name args dest pl st)"
    unfolding call_sync_function_def by (intro bounded_intros; simp)
qed

lemma bounded_link_mutex_ref [bounded_intros]: "bounded (link_mutex_ref_to_condvar N s i sp ep w r net)"
  unfolding link_mutex_ref_to_condvar_def by (intro bounded_intros)

lemma bounded_run_tasks [bounded_intros]: "bounded (run_tasks N s refs tasks net)"
proof (induction N s refs tasks net rule: run_tasks.induct)
  case (1 N s refs tasks net)
  show ?case
  proof (cases "heap_pop get_priority tasks")
    case None
    then show ?thesis by (subst run_tasks.simps) simp
  next
    case (Some p)
    obtain task rest where p: "p = (task, rest)" by fastforce
    with Some 1 show ?thesis
      by (cases task) (subst run_tasks.simps, auto intro!: bounded_intros)+
  qed
qed

section \<open>What the handlers keep\<close>

text \<open>The operations on a frame keep its function, and the handlers keep the functions of the threads.\<close>

lemma add_basic_block_if_absent_def_id:
  "add_basic_block_if_absent N i f net = Inr (f', net') \<Longrightarrow> fn_def_id f' = fn_def_id f"
  by (auto simp: add_basic_block_if_absent_def add_basic_block_def Let_def split: if_splits option.splits prod.splits)

lemma get_pair_def_id:
  "get_pair_active_block_target_block N i f net = Inr (p, f', net') \<Longrightarrow> fn_def_id f' = fn_def_id f"
  by (auto simp: get_pair_active_block_target_block_def dest: add_basic_block_if_absent_def_id)

lemma get_end_place_def_id:
  "get_end_place_for_function_call N i f net = Inr (p, f', net') \<Longrightarrow> fn_def_id f' = fn_def_id f"
  by (auto simp: get_end_place_for_function_call_def get_or_add_basic_block_def
      dest: add_basic_block_if_absent_def_id)

lemma goto_def_id: "goto N i f net = Inr (f', net') \<Longrightarrow> fn_def_id f' = fn_def_id f"
  by (auto simp: goto_def dest: get_pair_def_id)

lemma switch_int_def_id: "switch_int N targets f net = Inr (f', net') \<Longrightarrow> fn_def_id f' = fn_def_id f"
  unfolding switch_int_def
proof (induction targets arbitrary: f net)
  case (Cons i targets)
  then show ?case by (auto simp: switch_int_to_def dest!: get_pair_def_id)
qed simp

lemma drop_terminator_def_id:
  "drop_terminator N i c f net = Inr (ts, f', net') \<Longrightarrow> fn_def_id f' = fn_def_id f"
  by (auto simp: drop_terminator_def split: option.splits dest!: get_pair_def_id)

lemma assert_terminator_def_id:
  "assert_terminator N i c f net = Inr (f', net') \<Longrightarrow> fn_def_id f' = fn_def_id f"
  by (auto simp: assert_terminator_def split: option.splits dest!: get_pair_def_id)

lemma visit_drop_def_id:
  "visit_drop N place i on_unwind f st = Inr (f', net') \<Longrightarrow> fn_def_id f' = fn_def_id f"
  by (auto simp: visit_drop_def Let_def split: unwind_action.splits option.splits dest!: drop_terminator_def_id)

lemma visit_assert_def_id:
  "visit_assert N i on_unwind f st = Inr (f', net') \<Longrightarrow> fn_def_id f' = fn_def_id f"
  by (auto simp: visit_assert_def split: unwind_action.splits dest!: assert_terminator_def_id)

lemma activate_block_def_id: "activate_block N i f net = Inr (f', net') \<Longrightarrow> fn_def_id f' = fn_def_id f"
  by (auto simp: activate_block_def dest!: add_basic_block_if_absent_def_id)

lemma places_for_call_def_id:
  "places_for_call N name sp target on_unwind pp ep f net = Inr (pl, f', net') \<Longrightarrow> fn_def_id f' = fn_def_id f"
  by (cases target; cases on_unwind) (auto simp: places_for_call_def dest!: get_end_place_def_id)

lemma places_for_call_Some:
  "places_for_call N name sp target on_unwind pp ep f net = Inr (Some pl, f', net') \<Longrightarrow>
   \<not> (target = None \<and> on_unwind = Continue)"
  by (auto simp: places_for_call_def)

definition cell_ids :: "('p, 't) store \<Rightarrow> def_id list" where
  "cell_ids s = map thread_def_id (thread_cells s)"

lemma cell_ids_simps [simp]:
  "cell_ids (s\<lparr>mutexes := x\<rparr>) = cell_ids s" "cell_ids (s\<lparr>condvars := y\<rparr>) = cell_ids s"
  by (simp_all add: cell_ids_def)

lemma cell_ids_set_join: "set_join_transition r t s = Inr s' \<Longrightarrow> cell_ids s' = cell_ids s"
  by (auto simp: set_join_transition_def cell_ids_def map_update split: option.splits)
    (metis list_update_id map_update nth_map)

lemma cell_ids_add_deref_mut: "add_deref_mut_transition r t s = Inr s' \<Longrightarrow> cell_ids s' = cell_ids s"
  by (auto simp: add_deref_mut_transition_def)

lemma cell_ids_wait: "call_wait N name i args dest pl net m s = Inr (task, net', m', s') \<Longrightarrow> cell_ids s' = cell_ids s"
  by (auto simp: call_wait_def link_to_wait_call_def Let_def case_prod_unfold split: if_splits)

lemma cell_ids_sync:
  "sync_call_function N name i args dest pl net m s = Inr (task, net', m', s') \<Longrightarrow> cell_ids s' = cell_ids s"
  unfolding sync_call_function_def
  by (auto simp: condvar_call_new_def mutex_call_new_def call_join_def rc_new_mutex_def rc_new_condvar_def Let_def
      dest: cell_ids_wait cell_ids_set_join split: if_split_asm prod.splits)

section \<open>Acyclic programs\<close>

text \<open>
  Every call that is translated by inlining, and every function that is spawned, has a smaller rank
  than the function it occurs in. A call that neither returns nor unwinds is not inlined.
\<close>

definition call_decreases :: "rustc \<Rightarrow> (def_id \<Rightarrow> nat) \<Rightarrow> def_id \<Rightarrow> visitor_call \<Rightarrow> bool" where
  "call_decreases tcx rank d call = (case call of
      VisitTerminator (Call func args destination target on_unwind) \<Rightarrow>
        (case extract_def_id_of_called_function_from_operand func d tcx of
           Inl _ \<Rightarrow> True
         | Inr d' \<Rightarrow>
             (target = None \<and> on_unwind = Continue) \<or>
             (if def_path_str tcx d' = ''std::thread::spawn''
              then (case args of [] \<Rightarrow> True | arg # _ \<Rightarrow>
                (case extract_def_id_of_called_function_from_operand arg d tcx of
                   Inl _ \<Rightarrow> True | Inr d2 \<Rightarrow> rank d2 < rank d))
              else is_foreign_function d' (def_path_str tcx d') tcx \<or> rank d' < rank d))
    | _ \<Rightarrow> True)"

definition acyclic_program :: "rustc \<Rightarrow> (def_id \<Rightarrow> nat) \<Rightarrow> bool" where
  "acyclic_program tcx rank \<longleftrightarrow> (\<forall>d. list_all (call_decreases tcx rank d) (visit_body tcx d))"

text \<open>The threads that were added to the queue run functions of smaller rank.\<close>

definition spawned :: "(def_id \<Rightarrow> nat) \<Rightarrow> nat \<Rightarrow> ('n, 'p, 't) translator \<Rightarrow> ('n, 'p, 't) translator \<Rightarrow> bool" where
  "spawned rank k st st' \<longleftrightarrow> (\<exists>ids. cell_ids (cells st') = cell_ids (cells st) @ ids) \<and>
     (\<exists>refs. threads st' = threads st @ refs \<and>
        (\<forall>r \<in> set refs. r < length (cell_ids (cells st')) \<and> rank (cell_ids (cells st') ! r) < k))"

definition keeps :: "(def_id \<Rightarrow> nat) \<Rightarrow> def_id \<Rightarrow> 'p mir_function stack \<Rightarrow>
    ('n, 'p, 't) translator \<Rightarrow> ('n, 'p, 't) translator \<Rightarrow> bool" where
  "keeps rank d t st st' \<longleftrightarrow> spawned rank (rank d) st st' \<and> (\<exists>f. call_stack st' = push f t \<and> fn_def_id f = d)"

abbreviation in_bound :: "panic \<Rightarrow> bool" where
  "in_bound e \<equiv> e \<noteq> OutOfFuel"

lemma ensures_in_bound: "bounded m \<Longrightarrow> (\<And>x. m = Inr x \<Longrightarrow> P x) \<Longrightarrow> ensures in_bound P m"
  by (cases m) (auto simp: bounded_def)

lemma ensures_bounded: "bounded m \<Longrightarrow> ensures in_bound (\<lambda>_. True) m"
  by (rule ensures_in_bound) simp_all

lemma spawned_quiet:
  "threads st' = threads st \<Longrightarrow> cell_ids (cells st') = cell_ids (cells st) \<Longrightarrow> spawned rank k st st'"
  by (simp add: spawned_def)

lemma spawned_trans: "spawned rank k a b \<Longrightarrow> spawned rank k b c \<Longrightarrow> spawned rank k a c"
proof -
  assume "spawned rank k a b" "spawned rank k b c"
  then obtain ids refs ids' refs' where
    b: "cell_ids (cells b) = cell_ids (cells a) @ ids" "threads b = threads a @ refs"
      "\<forall>r \<in> set refs. r < length (cell_ids (cells b)) \<and> rank (cell_ids (cells b) ! r) < k" and
    c: "cell_ids (cells c) = cell_ids (cells b) @ ids'" "threads c = threads b @ refs'"
      "\<forall>r \<in> set refs'. r < length (cell_ids (cells c)) \<and> rank (cell_ids (cells c) ! r) < k"
    unfolding spawned_def by blast
  have "\<forall>r \<in> set (refs @ refs'). r < length (cell_ids (cells c)) \<and> rank (cell_ids (cells c) ! r) < k"
  proof
    fix r assume r: "r \<in> set (refs @ refs')"
    show "r < length (cell_ids (cells c)) \<and> rank (cell_ids (cells c) ! r) < k"
    proof (cases "r \<in> set refs'")
      case False
      with r b(3) have "r < length (cell_ids (cells b))" "rank (cell_ids (cells b) ! r) < k" by auto
      then show ?thesis unfolding c(1) by (simp add: nth_append)
    qed (use c(3) in blast)
  qed
  with b c show ?thesis unfolding spawned_def by auto
qed

lemma spawned_mono: "spawned rank k a b \<Longrightarrow> k \<le> l \<Longrightarrow> spawned rank l a b"
  unfolding spawned_def by (meson less_le_trans)

lemma keeps_quiet:
  "threads st' = threads st \<Longrightarrow> cell_ids (cells st') = cell_ids (cells st) \<Longrightarrow> call_stack st' = push f t \<Longrightarrow>
   fn_def_id f = d \<Longrightarrow> keeps rank d t st st'"
  by (simp add: keeps_def spawned_quiet)

lemma keeps_trans: "keeps rank d t a b \<Longrightarrow> keeps rank d t b c \<Longrightarrow> keeps rank d t a c"
  unfolding keeps_def by (blast intro: spawned_trans)

subsection \<open>The handlers\<close>

lemma foreign_keeps:
  assumes "translator_call_foreign_function N tcx name args dest pl st = Inr (ts, st')" "call_stack st = push f t"
  obtains f' where "call_stack st' = push f' t" "fn_def_id f' = fn_def_id f" "threads st' = threads st" "cells st' = cells st"
  using assms by (auto simp: translator_call_foreign_function_def Let_def split: prod.splits)

lemma call_mem_drop_keeps:
  assumes "call_mem_drop N tcx name args dest pl st = Inr st'" "call_stack st = push f t"
  shows "keeps rank (fn_def_id f) t st st'"
proof -
  from assms(1) obtain ts st1 where st1: "translator_call_foreign_function N tcx name args dest pl st = Inr (ts, st1)"
    by (auto simp: call_mem_drop_def)
  from foreign_keeps [OF st1 assms(2)] obtain f1 where "call_stack st1 = push f1 t" "fn_def_id f1 = fn_def_id f"
    "threads st1 = threads st" "cells st1 = cells st" by metis
  with assms(1) st1 show ?thesis
    by (cases ts) (auto simp: call_mem_drop_def Let_def intro!: keeps_quiet)
qed

lemma call_deref_mutex_keeps:
  assumes "call_deref_mutex N tcx name args dest pl st = Inr st'" "call_stack st = push f t"
  shows "keeps rank (fn_def_id f) t st st'"
proof -
  from assms(1) obtain ts st1 where st1:
    "translator_call_foreign_function N tcx name args dest (ignore_cleanup_place pl) st = Inr (ts, st1)"
    by (auto simp: call_deref_mutex_def Let_def)
  from foreign_keeps [OF st1 assms(2)] obtain f1 where f1: "call_stack st1 = push f1 t" "fn_def_id f1 = fn_def_id f"
    "threads st1 = threads st" "cells st1 = cells st" by metis
  show ?thesis
  proof (cases "name = ''std::ops::DerefMut::deref_mut''")
    case True
    with assms(1) st1 obtain g s' where s': "add_deref_mut_transition g (get_default ts) (cells st1) = Inr s'"
        "st' = st1\<lparr>cells := s'\<rparr>"
      by (auto simp: call_deref_mutex_def Let_def f1(1))
    from cell_ids_add_deref_mut [OF s'(1)] f1 s'(2) show ?thesis by (auto intro!: keeps_quiet)
  next
    case False
    with assms(1) st1 f1 show ?thesis by (auto simp: call_deref_mutex_def Let_def intro!: keeps_quiet)
  qed
qed

lemma call_unwrap_mutex_keeps:
  "call_unwrap_mutex N tcx name args dest pl st = Inr st' \<Longrightarrow> call_stack st = push f t \<Longrightarrow> keeps rank (fn_def_id f) t st st'"
  by (auto simp: call_unwrap_mutex_def Let_def elim!: foreign_keeps intro: keeps_quiet)

lemma call_sync_function_keeps:
  "call_sync_function N name args dest pl st = Inr st' \<Longrightarrow> call_stack st = push f t \<Longrightarrow> keeps rank (fn_def_id f) t st st'"
  by (auto simp: call_sync_function_def Let_def split: prod.splits intro!: keeps_quiet dest: cell_ids_sync)

lemma call_thread_spawn_keeps:
  assumes "call_thread_spawn N tcx name args dest pl st = Inr st'" "call_stack st = push f t"
    "\<And>arg rest d2. args = arg # rest \<Longrightarrow>
      extract_def_id_of_called_function_from_operand arg (fn_def_id f) tcx = Inr d2 \<Longrightarrow> rank d2 < rank (fn_def_id f)"
  shows "keeps rank (fn_def_id f) t st st'"
proof -
  from assms(1) obtain ts st1 where st1: "translator_call_foreign_function N tcx name args dest pl st = Inr (ts, st1)"
    by (auto simp: call_thread_spawn_def)
  from foreign_keeps [OF st1 assms(2)] obtain f1 where f1: "call_stack st1 = push f1 t" "fn_def_id f1 = fn_def_id f"
    "threads st1 = threads st" "cells st1 = cells st" by metis
  from assms(1) obtain arg rest d2 agg m where sp: "args = arg # rest"
      "extract_def_id_of_called_function_from_operand arg (fn_def_id f) tcx = Inr d2"
      "st' = st1\<lparr>cells := snd (rc_new_thread (thread_new (get_default ts) d2 agg (length (threads st1))) (cells st1)),
        call_stack := push (f1\<lparr>fn_memory := m\<rparr>) t, threads := threads st1 @ [length (thread_cells (cells st1))]\<rparr>"
    by (auto simp: call_thread_spawn_def st1 f1(1,2) rc_new_thread_def Let_def split: list.splits)
  show ?thesis
    using assms(3) [OF sp(1,2)] f1
    by (auto simp: keeps_def spawned_def sp(3) rc_new_thread_def cell_ids_def thread_new_def nth_append)
qed

text \<open>The contract of the recursive call for functions of rank below \<open>k\<close>.\<close>

definition translates_below :: "(def_id \<Rightarrow> nat) \<Rightarrow> nat \<Rightarrow> ('n, 'p, 't) step \<Rightarrow> bool" where
  "translates_below rank k rec \<longleftrightarrow> (\<forall>st f t. call_stack st = push f t \<longrightarrow> rank (fn_def_id f) < k \<longrightarrow>
     ensures in_bound (\<lambda>st'. call_stack st' = t \<and> spawned rank (rank (fn_def_id f)) st st') (rec st))"

lemma ensures_call_mir_function_keeps:
  assumes "call_stack st = push f t" "translates_below rank k rec" "rank d < k" "rank d < rank (fn_def_id f)"
  shows "ensures in_bound (keeps rank (fn_def_id f) t st) (call_mir_function N rec d name places st)"
proof -
  have rec: "ensures in_bound (keeps rank (fn_def_id f) t st) (rec st')"
    if "call_stack st' = push f' (push f t)" "fn_def_id f' = d" "threads st' = threads st" "cells st' = cells st" for st' f'
  proof -
    have "ensures in_bound (\<lambda>st2. call_stack st2 = push f t \<and> spawned rank (rank d) st' st2) (rec st')"
      using assms(2,3) that unfolding translates_below_def by auto
    then show ?thesis
      by (rule ensures_mono)
        (use that assms(4) in \<open>auto simp: keeps_def spawned_def intro: less_trans\<close>)
  qed
  show ?thesis
    unfolding call_mir_function_def
    by (auto simp: assms(1) Let_def split: prod.splits call_places.splits
        intro!: rec ensures_mono [OF ensures_bounded [OF bounded_net(4)]])
qed

lemma ensures_start_function_call_keeps:
  assumes "call_stack st = push f t" "translates_below rank (rank (fn_def_id f)) rec"
    "name = ''std::thread::spawn'' \<Longrightarrow> (case args of [] \<Rightarrow> True | arg # _ \<Rightarrow>
      (case extract_def_id_of_called_function_from_operand arg (fn_def_id f) tcx of
         Inl _ \<Rightarrow> True | Inr d2 \<Rightarrow> rank d2 < rank (fn_def_id f)))"
    "\<not> is_foreign_function d name tcx \<Longrightarrow> rank d < rank (fn_def_id f)"
  shows "ensures in_bound (keeps rank (fn_def_id f) t st)
    (start_function_call N tcx rec d name args dest places st)"
proof -
  have self: "ensures in_bound (\<lambda>_. True) (if b then is_self_ref_mutex tcx name args st else Inr False)" for b
    by (rule ensures_in_bound) (auto intro!: bounded_intros)
  have foreign: "ensures in_bound (keeps rank (fn_def_id f) t st)
      (and_then (translator_call_foreign_function N tcx name args dest places st) (\<lambda>(_, st). Inr st))"
    by (rule ensures_in_bound)
      (auto intro!: bounded_intros elim!: foreign_keeps [OF _ assms(1)] intro: keeps_quiet)
  have spawn: "ensures in_bound (keeps rank (fn_def_id f) t st) (call_thread_spawn N tcx name args dest places st)"
    if "name = ''std::thread::spawn''"
    by (rule ensures_in_bound [OF bounded_handlers(6)], erule call_thread_spawn_keeps [OF _ assms(1)])
      (use assms(3) [OF that] in simp)
  note handlers = ensures_in_bound [OF bounded_handlers(3) call_mem_drop_keeps [OF _ assms(1)]]
    ensures_in_bound [OF bounded_handlers(4) call_deref_mutex_keeps [OF _ assms(1)]]
    ensures_in_bound [OF bounded_handlers(5) call_unwrap_mutex_keeps [OF _ assms(1)]]
    ensures_in_bound [OF bounded_handlers(7) call_sync_function_keeps [OF _ assms(1)]]
  have mir: "ensures in_bound (keeps rank (fn_def_id f) t st) (call_mir_function N rec d name places st)"
    if "\<not> is_foreign_function d name tcx"
    using assms(4) [OF that] by (intro ensures_call_mir_function_keeps [OF assms(1,2)])
  show ?thesis
    unfolding start_function_call_def
    by (intro conjI impI handlers spawn foreign mir ensures_and_then [OF self]
        if_split [where P = "ensures in_bound (keeps rank (fn_def_id f) t st)", THEN iffD2]) assumption+
qed

lemma ensures_call_function_keeps:
  assumes "call_stack st = push f t" "translates_below rank (rank (fn_def_id f)) rec"
    "call_decreases tcx rank (fn_def_id f) (VisitTerminator (Call func args dest target on_unwind))"
  shows "ensures in_bound (keeps rank (fn_def_id f) t st)
    (call_function N tcx rec func args dest target on_unwind st)"
proof -
  have start: "ensures in_bound (\<lambda>st'. keeps rank (fn_def_id f) t st (st'\<lparr>function_counter := c st'\<rparr>))
      (start_function_call N tcx rec d (def_path_str tcx d) args dest places
        (st\<lparr>tr_net := net', call_stack := push f' t\<rparr>))"
    if d: "extract_def_id_of_called_function_from_operand func (fn_def_id f) tcx = Inr d"
      and f': "fn_def_id f' = fn_def_id f" and pl: "\<not> (target = None \<and> on_unwind = Continue)"
    for d places f' net' c
  proof -
    have dec: "if def_path_str tcx d = ''std::thread::spawn''
        then (case args of [] \<Rightarrow> True | arg # _ \<Rightarrow>
          (case extract_def_id_of_called_function_from_operand arg (fn_def_id f) tcx of
             Inl _ \<Rightarrow> True | Inr d2 \<Rightarrow> rank d2 < rank (fn_def_id f)))
        else is_foreign_function d (def_path_str tcx d) tcx \<or> rank d < rank (fn_def_id f)"
      using assms(3) d pl by (simp add: call_decreases_def)
    have "is_foreign_function d ''std::thread::spawn'' tcx"
      by (simp add: is_foreign_function_def starts_with_def)
    with dec have "ensures in_bound (keeps rank (fn_def_id f') t (st\<lparr>tr_net := net', call_stack := push f' t\<rparr>))
      (start_function_call N tcx rec d (def_path_str tcx d) args dest places
        (st\<lparr>tr_net := net', call_stack := push f' t\<rparr>))"
      using assms(2) unfolding f' [symmetric] by (intro ensures_start_function_call_keeps) (auto split: if_splits)
    then show ?thesis
      by (rule ensures_mono) (auto simp: keeps_def spawned_def f')
  qed
  have quiet: "keeps rank (fn_def_id f) t st (st\<lparr>tr_net := net', call_stack := push f' t\<rparr>)"
    if "fn_def_id f' = fn_def_id f" for f' net'
    using that by (auto intro!: keeps_quiet)
  show ?thesis
    unfolding call_function_def
    by (auto simp: assms(1) Let_def split: option.splits
        intro!: ensures_mono [OF ensures_bounded [OF bounded_utils(3)]] ensures_mono [OF ensures_bounded [OF bounded_blocks(8)]]
          ensures_mono [OF ensures_bounded [OF bounded_places_for_call]] quiet start
        dest: places_for_call_def_id places_for_call_Some)
qed

subsection \<open>The visitor and the recursion\<close>

lemma ensures_visit_keeps:
  assumes "call_stack st = push f t" "translates_below rank (rank (fn_def_id f)) rec"
    "call_decreases tcx rank (fn_def_id f) call"
  shows "ensures in_bound (keeps rank (fn_def_id f) t st) (visit N tcx rec call st)"
proof (cases call)
  case (VisitBasicBlockData block)
  then show ?thesis
    by (auto simp: visit_def visit_basic_block_data_def assms(1)
        intro!: ensures_in_bound bounded_intros keeps_quiet dest: activate_block_def_id)
next
  case (VisitAssign place rvalue)
  then show ?thesis
    by (auto simp: visit_def visit_assign_def assms(1) Let_def split: rvalue.splits operand.splits
        intro!: ensures_in_bound bounded_intros keeps_quiet)
next
  case (VisitTerminator terminator)
  have update: "ensures in_bound (keeps rank (fn_def_id f) t st)
      (and_then m (\<lambda>(function, net). Inr (st\<lparr>tr_net := net, call_stack := push function t\<rparr>)))"
    if "bounded m" "\<And>f' net'. m = Inr (f', net') \<Longrightarrow> fn_def_id f' = fn_def_id f" for m
    using that by (cases m) (auto intro!: keeps_quiet)
  have net: "ensures in_bound (keeps rank (fn_def_id f) t st) (and_then m (\<lambda>net. Inr (st\<lparr>tr_net := net\<rparr>)))"
    if "bounded m" for m
    using that assms(1) by (cases m) (auto intro!: keeps_quiet)
  have net2: "ensures in_bound (keeps rank (fn_def_id f) t st)
      (and_then (unwind N p f net) (\<lambda>(_, net). Inr (st\<lparr>tr_net := net\<rparr>)))" for p net
    using bounded_terminators(3) [of N p f net] assms(1)
    by (cases "unwind N p f net") (auto intro!: keeps_quiet)
  note rules = update net net2 bounded_terminators bounded_visit_parts goto_def_id switch_int_def_id
    visit_drop_def_id visit_assert_def_id
  have "ensures in_bound (keeps rank (fn_def_id f) t st) (visit_terminator N tcx rec terminator st)"
  proof (cases terminator)
    case (Call func args dest target on_unwind)
    with assms(3) VisitTerminator show ?thesis
      using ensures_call_function_keeps [OF assms(1,2)] by (simp add: visit_terminator_def assms(1) Let_def)
  qed (auto simp del: ensures_bind simp: visit_terminator_def assms(1) Let_def intro: rules)
  with VisitTerminator show ?thesis by (simp add: visit_def)
qed

lemma translates_below_top:
  assumes "acyclic_program tcx rank"
  shows "translates_below rank depth (translate_top_call_stack N tcx depth)"
proof (induction depth)
  case 0
  show ?case by (simp add: translates_below_def)
next
  case (Suc depth)
  show ?case unfolding translates_below_def
  proof (intro allI impI)
    fix st :: "('a, 'b, 'c) translator" and f t
    assume st: "call_stack st = push f t" "rank (fn_def_id f) < Suc depth"
    have below: "translates_below rank (rank (fn_def_id f)) (translate_top_call_stack N tcx depth)"
      using Suc.IH st(2) unfolding translates_below_def by auto
    have "ensures in_bound (keeps rank (fn_def_id f) t st)
        (try_fold (visit N tcx (translate_top_call_stack N tcx depth)) (visit_body tcx (fn_def_id f)) st)"
    proof (rule ensures_try_fold)
      show "keeps rank (fn_def_id f) t st st" using st(1) by (auto intro!: keeps_quiet)
      fix call st'
      assume call: "call \<in> set (visit_body tcx (fn_def_id f))" and st': "keeps rank (fn_def_id f) t st st'"
      from st' obtain f' where f': "call_stack st' = push f' t" "fn_def_id f' = fn_def_id f"
        by (auto simp: keeps_def)
      have "call_decreases tcx rank (fn_def_id f) call"
        using assms call by (auto simp: acyclic_program_def list_all_iff)
      with f' below show "ensures in_bound (keeps rank (fn_def_id f) t st)
          (visit N tcx (translate_top_call_stack N tcx depth) call st')"
        by (intro ensures_mono [OF ensures_visit_keeps [OF f'(1)]]) (auto intro: keeps_trans [OF st'])
    qed
    then show "ensures in_bound (\<lambda>st'. call_stack st' = t \<and> spawned rank (rank (fn_def_id f)) st st')
        (translate_top_call_stack N tcx (Suc depth) st)"
      by (auto simp: st(1) keeps_def spawned_def elim!: ensures_mono)
  qed
qed

subsection \<open>The loop over the threads\<close>

lemma ensures_translate_thread_bound:
  assumes "acyclic_program tcx rank" "r < length (cell_ids (cells st))" "rank (cell_ids (cells st) ! r) < depth"
  shows "ensures in_bound (spawned rank (rank (cell_ids (cells st) ! r)) st) (translate_thread N tcx depth r st)"
proof -
  let ?th = "thread_cells (cells st) ! r"
  have th: "deref_cell (thread_cells (cells st)) r = Inr ?th" "cell_ids (cells st) ! r = thread_def_id ?th"
    using assms(2) by (simp_all add: cell_ids_def deref_cell_def)
  have top: "ensures in_bound (spawned rank (rank (thread_def_id ?th)) st) (translate_top_call_stack N tcx depth st')"
    if "call_stack st' = push f t" "fn_def_id f = thread_def_id ?th" "threads st' = threads st" "cells st' = cells st"
    for st' f t
  proof -
    have "ensures in_bound (\<lambda>st2. call_stack st2 = t \<and> spawned rank (rank (fn_def_id f)) st' st2)
        (translate_top_call_stack N tcx depth st')"
      using translates_below_top [OF assms(1), of depth N, unfolded translates_below_def, rule_format, OF that(1)]
        assms(3) that(2) th(2) by simp
    then show ?thesis by (rule ensures_mono) (use that in \<open>auto simp: spawned_def\<close>)
  qed
  have prep: "fst r = thread_def_id ?th" if "prepare_for_translation N ?th net = Inr (r, net')" for r net net'
    using that by (auto simp: prepare_for_translation_def Let_def split: prod.splits option.splits)
  show ?thesis
    unfolding translate_thread_def th
    by (auto simp: push_function_to_call_stack_def Let_def dest!: prep
        intro!: ensures_mono [OF ensures_bounded [OF bounded_thread(2)]]
          ensures_mono [OF ensures_bounded [OF bounded_thread(4)]] top)
qed

text \<open>
  The ranks of the waiting threads. A round replaces one rank by smaller ones, so the multiset of
  the ranks decreases.
\<close>

definition waiting_ranks :: "(def_id \<Rightarrow> nat) \<Rightarrow> ('n, 'p, 't) translator \<Rightarrow> nat multiset" where
  "waiting_ranks rank st = mset (map (\<lambda>r. rank (cell_ids (cells st) ! r)) (threads st))"

lemma waiting_ranks_decrease:
  assumes "threads st = r # rest" "\<forall>r \<in> set (threads st). r < length (cell_ids (cells st))"
    "spawned rank (rank (cell_ids (cells st) ! r)) (st\<lparr>threads := rest\<rparr>) st'"
  shows "(waiting_ranks rank st', waiting_ranks rank st) \<in> mult less_than"
    "\<forall>r \<in> set (threads st'). r < length (cell_ids (cells st'))"
proof -
  from assms(3) obtain ids refs where ids: "cell_ids (cells st') = cell_ids (cells st) @ ids"
    and refs: "threads st' = rest @ refs"
      "\<forall>r' \<in> set refs. r' < length (cell_ids (cells st')) \<and> rank (cell_ids (cells st') ! r') < rank (cell_ids (cells st) ! r)"
    by (auto simp: spawned_def)
  have same: "cell_ids (cells st') ! r' = cell_ids (cells st) ! r'" if "r' \<in> set rest" for r'
    using assms(1,2) ids that by (simp add: nth_append)
  define M where "M = mset (map (\<lambda>r. rank (cell_ids (cells st) ! r)) rest)"
  have new: "waiting_ranks rank st' = M + mset (map (\<lambda>r. rank (cell_ids (cells st') ! r)) refs)"
    using same by (simp add: waiting_ranks_def refs(1) M_def cong: map_cong)
  have old: "waiting_ranks rank st = M + {#rank (cell_ids (cells st) ! r)#}"
    by (simp add: waiting_ranks_def assms(1) M_def)
  show "(waiting_ranks rank st', waiting_ranks rank st) \<in> mult less_than"
    unfolding new old by (rule one_step_implies_mult) (use refs(2) in auto)
  show "\<forall>r \<in> set (threads st'). r < length (cell_ids (cells st'))"
    using assms(1,2) ids refs by auto
qed

lemma translate_threads_bound:
  assumes "acyclic_program tcx rank" "\<forall>d. rank d < depth" "\<forall>r \<in> set (threads st). r < length (cell_ids (cells st))"
  shows "\<exists>rounds. bounded (translate_threads N tcx depth rounds st)"
proof -
  have "wf (mult less_than)" by (intro wf_mult) simp
  then show ?thesis using assms(3)
  proof (induction "waiting_ranks rank st" arbitrary: st rule: wf_induct_rule)
    case less
    show ?case
    proof (cases "threads st")
      case Nil
      then show ?thesis by (intro exI [of _ 0]) simp
    next
      case (Cons r rest)
      let ?st = "st\<lparr>threads := rest\<rparr>"
      have r: "r < length (cell_ids (cells ?st))" using less.prems Cons by simp
      have "ensures in_bound (spawned rank (rank (cell_ids (cells ?st) ! r)) ?st) (translate_thread N tcx depth r ?st)"
        by (rule ensures_translate_thread_bound [OF assms(1) r]) (use assms(2) in blast)
      then consider e where "translate_thread N tcx depth r ?st = Inl e" "e \<noteq> OutOfFuel"
        | st' where "translate_thread N tcx depth r ?st = Inr st'" "spawned rank (rank (cell_ids (cells st) ! r)) ?st st'"
        by (cases "translate_thread N tcx depth r ?st") auto
      then show ?thesis
      proof cases
        case 1
        then show ?thesis by (intro exI [of _ 1]) (simp add: Cons)
      next
        case 2
        from less.hyps [OF waiting_ranks_decrease [OF Cons less.prems 2(2)]]
        obtain rounds where "bounded (translate_threads N tcx depth rounds st')" by blast
        with 2 show ?thesis by (intro exI [of _ "Suc rounds"]) (simp add: Cons)
      qed
    qed
  qed
qed

section \<open>The bounds do not change the result\<close>

text \<open>
  The flat order on results in which running out of fuel is the least element:
  \<open>approx m m'\<close> when \<open>m'\<close> is \<open>m\<close>, unless \<open>m\<close> ran out of fuel.
\<close>

definition approx :: "'a res \<Rightarrow> 'a res \<Rightarrow> bool" where
  "approx m m' \<longleftrightarrow> m = Inl OutOfFuel \<or> m' = m"

lemma approx_refl: "approx m m"
  by (simp add: approx_def)

lemma approx_out_of_fuel: "approx (Inl OutOfFuel) m"
  by (simp add: approx_def)

lemma approx_and_then:
  assumes "approx m m'" "\<And>x. approx (f x) (f' x)"
  shows "approx (and_then m f) (and_then m' f')"
  using assms by (cases m) (auto simp: approx_def)

lemma approx_case_prod: "(\<And>a b. approx (f a b) (f' a b)) \<Longrightarrow> approx (case x of (a, b) \<Rightarrow> f a b) (case x of (a, b) \<Rightarrow> f' a b)"
  by (cases x) simp

lemma approx_case_prod_arg:
  "(\<And>a b. approx (f a b y) (f' a b y)) \<Longrightarrow> approx ((case x of (a, b) \<Rightarrow> f a b) y) ((case x of (a, b) \<Rightarrow> f' a b) y)"
  by (cases x) simp

lemma approx_if: "approx a a' \<Longrightarrow> approx b b' \<Longrightarrow> approx (if c then a else b) (if c then a' else b')"
  by simp

lemma approx_case_option:
  "approx a a' \<Longrightarrow> (\<And>y. approx (f y) (f' y)) \<Longrightarrow>
   approx (case x of None \<Rightarrow> a | Some y \<Rightarrow> f y) (case x of None \<Rightarrow> a' | Some y \<Rightarrow> f' y)"
  by (cases x) simp_all

lemma approx_try_fold:
  assumes "\<And>x s. approx (f x s) (g x s)"
  shows "approx (try_fold f xs s) (try_fold g xs s)"
  by (induction xs arbitrary: s) (auto intro: approx_refl approx_and_then assms)

lemmas approx_intros = approx_and_then approx_case_prod approx_case_prod_arg approx_if approx_case_option approx_refl

lemma approx_call_mir_function:
  "(\<And>st. approx (rec st) (rec' st)) \<Longrightarrow>
   approx (call_mir_function N rec d name places st) (call_mir_function N rec' d name places st)"
  unfolding call_mir_function_def Let_def by (intro approx_intros)

lemma approx_start_function_call:
  "(\<And>st. approx (rec st) (rec' st)) \<Longrightarrow>
   approx (start_function_call N tcx rec d name args dest places st)
     (start_function_call N tcx rec' d name args dest places st)"
  unfolding start_function_call_def by (intro approx_call_mir_function approx_intros)

lemma approx_call_function:
  "(\<And>st. approx (rec st) (rec' st)) \<Longrightarrow>
   approx (call_function N tcx rec func args dest target on_unwind st)
     (call_function N tcx rec' func args dest target on_unwind st)"
  unfolding call_function_def Let_def by (intro approx_start_function_call approx_intros)

lemma approx_visit:
  assumes "\<And>st. approx (rec st) (rec' st)"
  shows "approx (visit N tcx rec call st) (visit N tcx rec' call st)"
  using assms
  by (auto simp: visit_def visit_terminator_def Let_def approx_refl split: visitor_call.splits terminator_kind.splits
      intro!: approx_and_then [OF approx_refl] approx_call_function)

lemma approx_translate_top:
  assumes "depth \<le> depth'"
  shows "approx (translate_top_call_stack N tcx depth st) (translate_top_call_stack N tcx depth' st)"
  using assms
proof (induction depth arbitrary: depth' st)
  case (Suc depth)
  then obtain k where "depth' = Suc k" "depth \<le> k" by (cases depth') auto
  with Suc.IH show ?case
    by (simp del: try_fold.simps) (intro approx_try_fold approx_visit approx_intros)
qed (simp add: approx_out_of_fuel)

lemma approx_translate_thread:
  "depth \<le> depth' \<Longrightarrow> approx (translate_thread N tcx depth r st) (translate_thread N tcx depth' r st)"
  unfolding translate_thread_def Let_def by (intro approx_translate_top approx_intros)

lemma approx_translate_threads:
  assumes "depth \<le> depth'" "rounds \<le> rounds'"
  shows "approx (translate_threads N tcx depth rounds st) (translate_threads N tcx depth' rounds' st)"
  using assms(2)
proof (induction rounds arbitrary: rounds' st)
  case 0
  then show ?case by (cases rounds') (auto simp: approx_refl approx_out_of_fuel split: list.split)
next
  case (Suc rounds)
  then obtain k where "rounds' = Suc k" "rounds \<le> k" by (cases rounds') auto
  with Suc.IH show ?case
    by (auto split: list.split intro!: approx_refl approx_and_then approx_translate_thread [OF assms(1)])
qed

lemma approx_run:
  "depth \<le> depth' \<Longrightarrow> rounds \<le> rounds' \<Longrightarrow> approx (run N tcx depth rounds st) (run N tcx depth' rounds' st)"
  unfolding run_def by (intro approx_translate_top approx_translate_threads approx_intros)

section \<open>The translation as a whole\<close>

lemma run_bound:
  assumes "acyclic_program tcx rank" "\<forall>d. rank d < depth" "threads st = []"
  shows "\<exists>rounds. bounded (run N tcx depth rounds st)"
proof (cases "entry_fn tcx")
  case None
  then show ?thesis by (intro exI [of _ 0]) (simp add: run_def)
next
  case (Some d)
  let ?st = "push_function_to_call_stack tcx d (program_start st) (program_end st) st"
  have "ensures in_bound (\<lambda>st'. call_stack st' = call_stack st \<and> spawned rank (rank d) ?st st')
      (translate_top_call_stack N tcx depth ?st)"
    using translates_below_top [OF assms(1), of depth N, unfolded translates_below_def, rule_format,
        of ?st "mir_function_new d (def_path_str tcx d) (program_start st) (program_end st)" "call_stack st"] assms(2)
    by (simp add: push_function_to_call_stack_def)
  then consider e where "translate_top_call_stack N tcx depth ?st = Inl e" "e \<noteq> OutOfFuel"
    | st' where "translate_top_call_stack N tcx depth ?st = Inr st'" "spawned rank (rank d) ?st st'"
    by (cases "translate_top_call_stack N tcx depth ?st") auto
  then show ?thesis
  proof cases
    case 1
    with Some show ?thesis by (auto simp: run_def)
  next
    case 2
    then have "\<forall>r \<in> set (threads st'). r < length (cell_ids (cells st'))"
      using assms(3) by (auto simp: spawned_def push_function_to_call_stack_def)
    from translate_threads_bound [OF assms(1,2) this, of N] obtain rounds
      where "bounded (translate_threads N tcx depth rounds st')" by blast
    with 2 Some have "bounded (run N tcx depth rounds st)"
      by (auto simp: run_def translation_postprocessing_def intro!: bounded_intros)
    then show ?thesis by blast
  qed
qed

lemma translator_new_threads: "translator_new N = Inr st \<Longrightarrow> threads st = []"
  by (auto simp: translator_new_def Let_def split: prod.splits)

lemma bounded_translator_new: "bounded (translator_new N)"
  unfolding translator_new_def by (intro bounded_intros; simp)

text \<open>
  C11. The translation of a program whose call graph has no cycle ends: there is one result, a net
  or a panic, that every run with at least \<open>depth\<close> nested calls and enough rounds of the loop over
  the threads returns. \<open>rank\<close> is a function that every inlined call and every spawn decreases, and
  \<open>depth\<close> exceeds all its values. Nothing is assumed of the net library.
\<close>

theorem acyclic_program_has_result:
  assumes "acyclic_program tcx rank" "\<forall>d. rank d < depth"
  shows "\<exists>result. result \<noteq> Inl OutOfFuel \<and>
    (\<exists>rounds. \<forall>depth' \<ge> depth. \<forall>rounds' \<ge> rounds.
       and_then (translator_new N) (run N tcx depth' rounds') = result)"
proof (cases "translator_new N")
  case (Inl e)
  with bounded_translator_new [of N] show ?thesis by (intro exI [of _ "Inl e"]) simp
next
  case (Inr st)
  from run_bound [OF assms translator_new_threads [OF this], of N] obtain rounds
    where b: "bounded (run N tcx depth rounds st)" by blast
  define result where "result = run N tcx depth rounds st"
  have "run N tcx depth' rounds' st = result" if "depth \<le> depth'" "rounds \<le> rounds'" for depth' rounds'
    using approx_run [OF that, of N tcx st] b by (simp add: approx_def bounded_def result_def)
  moreover have "result \<noteq> Inl OutOfFuel" using b by (simp add: bounded_def result_def)
  ultimately show ?thesis unfolding Inr and_then_Inr by blast
qed

lemma empty_function_acyclic: "acyclic_program empty_function (\<lambda>d. 1 - d)"
  unfolding acyclic_program_def
proof
  fix d :: nat
  consider "d = 0" | "d = 1" | "2 \<le> d" by linarith
  then show "list_all (call_decreases empty_function (\<lambda>d. 1 - d) d) (visit_body empty_function d)"
  proof cases
    case 1
    show ?thesis unfolding 1 by code_simp
  next
    case 2
    show ?thesis unfolding 2 by code_simp
  next
    case 3
    then have "visit_body empty_function d = []" by (simp add: empty_function_def program_def nth_or_def)
    then show ?thesis by simp
  qed
qed

theorem acyclic_program_has_result_witness:
  "\<exists>result. result \<noteq> Inl OutOfFuel \<and>
     (\<exists>rounds. \<forall>k m. and_then (translator_new simple_netcrab) (run simple_netcrab empty_function (2 + k) (rounds + m)) = result)"
proof -
  have "\<forall>d :: nat. 1 - d < 2" by auto
  from acyclic_program_has_result [OF empty_function_acyclic this, of simple_netcrab]
  show ?thesis by (meson le_add1)
qed



end
