(* ===== verification/Recursion.thy ===== *)
theory Recursion
  imports Termination
begin

text \<open>
  The converse of \<open>Termination\<close>. The translator inlines the body of a called function at every call,
  without a record of the functions it is inside of. A set of functions, each of which calls another
  one of the set, is therefore never translated to an end: no bound on the nested calls gives a net.
\<close>

section \<open>The call stack during a visit\<close>

text \<open>The function on the top of the call stack and the frames below it.\<close>

definition on_frame :: "def_id \<Rightarrow> 'p mir_function stack \<Rightarrow> ('n, 'p, 't) translator \<Rightarrow> bool" where
  "on_frame d t st \<longleftrightarrow> (\<exists>f. call_stack st = push f t \<and> fn_def_id f = d)"

lemma on_frameI: "call_stack st = push f t \<Longrightarrow> fn_def_id f = d \<Longrightarrow> on_frame d t st"
  by (auto simp: on_frame_def)

lemma on_frame_simps [simp]:
  "on_frame d t (st\<lparr>tr_net := net\<rparr>) \<longleftrightarrow> on_frame d t st"
  "on_frame d t (st\<lparr>function_counter := c\<rparr>) \<longleftrightarrow> on_frame d t st"
  "on_frame d t (st\<lparr>call_stack := push f t\<rparr>) \<longleftrightarrow> fn_def_id f = d"
  by (auto simp: on_frame_def)

lemma keeps_on_frame: "keeps rank d t st st' \<Longrightarrow> on_frame d t st'"
  by (auto simp: keeps_def on_frame_def)

text \<open>The recursive call removes the frame it translates.\<close>

definition pops :: "('n, 'p, 't) step \<Rightarrow> bool" where
  "pops rec \<longleftrightarrow> (\<forall>st st' d t. on_frame d t st \<longrightarrow> rec st = Inr st' \<longrightarrow> call_stack st' = t)"

lemma call_mir_function_calls:
  assumes "call_mir_function N rec d name places st = Inr st'"
  obtains st1 where "on_frame d (call_stack st) st1" "rec st1 = Inr st'"
proof -
  have "thesis" if "rec (st0\<lparr>call_stack := push (mir_function_new d n sp ep) (call_stack st)\<rparr>) = Inr st'" for st0 n sp ep
    by (rule \<open>\<And>st1. on_frame d (call_stack st) st1 \<Longrightarrow> rec st1 = Inr st' \<Longrightarrow> thesis\<close> [OF _ that]) simp
  with assms show ?thesis unfolding call_mir_function_def Let_def
    by (cases places) (auto split: prod.splits)
qed

lemma spawn_on_frame:
  assumes "call_thread_spawn N tcx name args dest pl st = Inr st'" "on_frame d t st"
  shows "on_frame d t st'"
proof -
  from assms obtain f ts st1 where f: "call_stack st = push f t" "fn_def_id f = d"
    and st1: "translator_call_foreign_function N tcx name args dest pl st = Inr (ts, st1)"
    by (auto simp: call_thread_spawn_def on_frame_def)
  from foreign_keeps [OF st1 f(1)] obtain f1 where "call_stack st1 = push f1 t" "fn_def_id f1 = fn_def_id f" by metis
  with assms(1) f st1 show ?thesis
    by (auto simp: call_thread_spawn_def on_frame_def Let_def rc_new_thread_def split: list.splits)
qed

lemma start_on_frame:
  assumes "start_function_call N tcx rec d' name args dest pl st = Inr st'" "on_frame d t st" "pops rec"
  shows "on_frame d t st'"
proof -
  from assms(2) obtain f where f: "call_stack st = push f t" "fn_def_id f = d" by (auto simp: on_frame_def)
  have returns: "ensures (\<lambda>_. True) (on_frame d t) r"
    if "\<And>st'. r = Inr st' \<Longrightarrow> keeps (\<lambda>_. 0) (fn_def_id f) t st st'" for r
    using that keeps_on_frame [of _ "fn_def_id f"] f(2) by (cases r) auto
  note handlers = returns [OF call_mem_drop_keeps [OF _ f(1)]] returns [OF call_deref_mutex_keeps [OF _ f(1)]]
    returns [OF call_unwrap_mutex_keeps [OF _ f(1)]] returns [OF call_sync_function_keeps [OF _ f(1)]]
  have spawn: "ensures (\<lambda>_. True) (on_frame d t) (call_thread_spawn N tcx name args dest pl st)"
    using spawn_on_frame [OF _ assms(2)] by (cases "call_thread_spawn N tcx name args dest pl st") auto
  have foreign: "ensures (\<lambda>_. True) (on_frame d t)
      (and_then (translator_call_foreign_function N tcx name args dest pl st) (\<lambda>(_, st). Inr st))"
    using f by (cases "translator_call_foreign_function N tcx name args dest pl st")
      (auto elim!: foreign_keeps intro: on_frameI)
  have mir: "ensures (\<lambda>_. True) (on_frame d t) (call_mir_function N rec d' name pl st)"
  proof (cases "call_mir_function N rec d' name pl st")
    case (Inr st2)
    then obtain st1 where "on_frame d' (call_stack st) st1" "rec st1 = Inr st2" by (rule call_mir_function_calls)
    with assms(3) f have "on_frame d t st2" unfolding pops_def by (metis on_frameI)
    with Inr show ?thesis by simp
  qed simp
  have bind: "ensures (\<lambda>_. True) (on_frame d t) (and_then (r :: bool res) k)"
    if "\<And>b. ensures (\<lambda>_. True) (on_frame d t) (k b)" for r k
    using that by (cases r) simp_all
  have branch: "ensures (\<lambda>_. True) (on_frame d t) (if b then r else r')"
    if "ensures (\<lambda>_. True) (on_frame d t) r" "ensures (\<lambda>_. True) (on_frame d t) r'" for b r r'
    using that by simp
  have "ensures (\<lambda>_. True) (on_frame d t) (start_function_call N tcx rec d' name args dest pl st)"
    unfolding start_function_call_def by (intro branch bind handlers spawn foreign mir)
  with assms(1) show ?thesis by simp
qed

lemma call_function_on_frame:
  assumes "call_function N tcx rec func args dest target on_unwind st = Inr st'" "on_frame d t st" "pops rec"
  shows "on_frame d t st'"
  using assms
  by (auto simp: call_function_def Let_def on_frame_def [of d t st] split: option.splits
      dest!: places_for_call_def_id start_on_frame [OF _ _ assms(3), of _ _ _ _ _ _ _ _ _ d t])

lemma visit_on_frame:
  assumes "visit N tcx rec call st = Inr st'" "on_frame d t st" "pops rec"
  shows "on_frame d t st'"
proof (cases call)
  case (VisitTerminator terminator)
  show ?thesis
  proof (cases terminator)
    case (Call func args dest target on_unwind)
    with assms VisitTerminator show ?thesis
      by (auto simp: visit_def visit_terminator_def Let_def elim: call_function_on_frame)
  qed (use assms VisitTerminator in \<open>auto simp: visit_def visit_terminator_def Let_def on_frame_def
      dest: goto_def_id switch_int_def_id visit_drop_def_id visit_assert_def_id\<close>)
qed (use assms in \<open>auto simp: visit_def visit_basic_block_data_def visit_assign_def Let_def on_frame_def
    split: rvalue.splits operand.splits dest: activate_block_def_id\<close>)

lemma visits_on_frame:
  assumes "try_fold (visit N tcx rec) calls st = Inr st'" "on_frame d t st" "pops rec"
  shows "on_frame d t st'"
  using assms(1,2)
proof (induction calls arbitrary: st)
  case (Cons call calls)
  then show ?case using visit_on_frame [OF _ _ assms(3)] by auto
qed simp

lemma pops_top: "pops (translate_top_call_stack N tcx depth)"
proof (induction depth)
  case (Suc depth)
  show ?case unfolding pops_def
  proof (intro allI impI)
    fix st st' :: "('a, 'b, 'c) translator" and d t
    assume st: "on_frame d t st" "translate_top_call_stack N tcx (Suc depth) st = Inr st'"
    then obtain st1 calls where "try_fold (visit N tcx (translate_top_call_stack N tcx depth)) calls st = Inr st1"
        "st' = st1\<lparr>call_stack := snd (pop (call_stack st1))\<rparr>"
      by auto
    moreover from visits_on_frame [OF this(1) st(1) Suc.IH] have "on_frame d t st1" .
    ultimately show "call_stack st' = t" by (auto simp: on_frame_def)
  qed
qed (simp add: pops_def)

section \<open>Recursive programs\<close>

text \<open>The terminator is a call that the translator inlines, of a function of the set.\<close>

definition inlines_into :: "rustc \<Rightarrow> def_id set \<Rightarrow> def_id \<Rightarrow> visitor_call \<Rightarrow> bool" where
  "inlines_into tcx R d call = (case call of
      VisitTerminator (Call func args destination target on_unwind) \<Rightarrow>
        (case extract_def_id_of_called_function_from_operand func d tcx of
           Inl _ \<Rightarrow> False
         | Inr d' \<Rightarrow> d' \<in> R \<and> \<not> is_foreign_function d' (def_path_str tcx d') tcx \<and>
             \<not> (target = None \<and> on_unwind = Continue))
    | _ \<Rightarrow> False)"

definition recursive_functions :: "rustc \<Rightarrow> def_id set \<Rightarrow> bool" where
  "recursive_functions tcx R \<longleftrightarrow> (\<forall>d \<in> R. list_ex (inlines_into tcx R d) (visit_body tcx d))"

lemma special_names_std:
  "starts_with ''std::mem::drop'' ''std::''" "starts_with ''std::ops::Deref::deref'' ''std::''"
  "starts_with ''std::ops::DerefMut::deref_mut'' ''std::''" "starts_with ''std::result::Result::<T, E>::unwrap'' ''std::''"
  "starts_with ''std::thread::spawn'' ''std::''" "is_supported_function name \<Longrightarrow> starts_with name ''std::''"
  by (auto simp: starts_with_def is_supported_function_def)

lemma start_mir_function:
  assumes "\<not> is_foreign_function d name tcx"
  shows "start_function_call N tcx rec d name args dest pl st = call_mir_function N rec d name pl st"
proof -
  have std: "\<not> starts_with name ''std::''" using assms by (auto simp: is_foreign_function_def)
  have "name \<noteq> ''std::mem::drop''" "name \<noteq> ''std::ops::Deref::deref''" "name \<noteq> ''std::ops::DerefMut::deref_mut''"
    "name \<noteq> ''std::result::Result::<T, E>::unwrap''" "name \<noteq> ''std::thread::spawn''" "\<not> is_supported_function name"
    using std special_names_std by metis+
  with assms show ?thesis by (simp add: start_function_call_def)
qed

lemma inlined_call_recurses:
  assumes "visit N tcx rec call st = Inr st'" "on_frame d t st" "inlines_into tcx R d call"
  obtains d' t' st1 st2 where "d' \<in> R" "on_frame d' t' st1" "rec st1 = Inr st2"
proof -
  from assms(3) obtain func args dest target on_unwind d' where call:
      "call = VisitTerminator (Call func args dest target on_unwind)"
      "extract_def_id_of_called_function_from_operand func d tcx = Inr d'"
      "d' \<in> R" "\<not> is_foreign_function d' (def_path_str tcx d') tcx" "\<not> (target = None \<and> on_unwind = Continue)"
    by (auto simp: inlines_into_def split: visitor_call.splits terminator_kind.splits sum.splits)
  have some: "places \<noteq> None"
    if "places_for_call N name sp target on_unwind pp ep f net = Inr (places, f', net')" for name sp pp ep f net f' net' places
    using that call(5) by (cases target; cases on_unwind) (auto simp: places_for_call_def)
  from assms(1,2) call(1,2) obtain pl st0 st2 where
    "start_function_call N tcx rec d' (def_path_str tcx d') args dest pl st0 = Inr st2"
    by (auto simp: visit_def visit_terminator_def call_function_def on_frame_def Let_def
        split: option.splits dest!: some)
  then have "call_mir_function N rec d' (def_path_str tcx d') pl st0 = Inr st2"
    by (simp add: start_mir_function [OF call(4)])
  then show ?thesis by (rule call_mir_function_calls) (rule that [OF call(3)])
qed

lemma visits_recurse:
  assumes "try_fold (visit N tcx rec) calls st = Inr st'" "on_frame d t st" "pops rec"
    "list_ex (inlines_into tcx R d) calls"
  shows "\<exists>d' t' st1 st2. d' \<in> R \<and> on_frame d' t' st1 \<and> rec st1 = Inr st2"
  using assms(1,2,4)
proof (induction calls arbitrary: st)
  case (Cons call calls)
  then obtain st1 where st1: "visit N tcx rec call st = Inr st1" "try_fold (visit N tcx rec) calls st1 = Inr st'"
    by auto
  show ?case
  proof (cases "inlines_into tcx R d call")
    case True
    from inlined_call_recurses [OF st1(1) Cons.prems(2) True] show ?thesis by metis
  next
    case False
    with Cons.prems(3) show ?thesis
      by (intro Cons.IH [OF st1(2) visit_on_frame [OF st1(1) Cons.prems(2) assms(3)]]) simp
  qed
qed simp

lemma recursion_never_returns:
  assumes "recursive_functions tcx R" "d \<in> R" "on_frame d t st"
  shows "translate_top_call_stack N tcx depth st \<noteq> Inr st'"
  using assms(2,3)
proof (induction depth arbitrary: d t st st')
  case (Suc depth)
  let ?rec = "translate_top_call_stack N tcx depth"
  show ?case
  proof
    assume "translate_top_call_stack N tcx (Suc depth) st = Inr st'"
    with Suc.prems(2) obtain st1 where "try_fold (visit N tcx ?rec) (visit_body tcx d) st = Inr st1"
      by (auto simp: on_frame_def)
    moreover have "list_ex (inlines_into tcx R d) (visit_body tcx d)"
      using assms(1) Suc.prems(1) by (simp add: recursive_functions_def)
    ultimately obtain d' t' st2 st3 where "d' \<in> R" "on_frame d' t' st2" "?rec st2 = Inr st3"
      using visits_recurse [OF _ Suc.prems(2) pops_top] by metis
    with Suc.IH show False by blast
  qed
qed simp

text \<open>
  C12. The translation of a recursive program gives no net: if \<open>main\<close> is in a set of functions each of
  which contains an inlined call to a function of the set, then no run returns, whatever the bounds
  on the nested calls and on the rounds over the threads. The program recurses without end.
\<close>

theorem recursive_program_has_no_result:
  assumes "recursive_functions tcx R" "entry_fn tcx = Some d" "d \<in> R"
  shows "and_then (translator_new N) (run N tcx depth rounds) \<noteq> Inr st"
proof
  assume "and_then (translator_new N) (run N tcx depth rounds) = Inr st"
  then obtain st0 st1 where "translate_top_call_stack N tcx depth
      (push_function_to_call_stack tcx d (program_start st0) (program_end st0) st0) = Inr st1"
    using assms(2) by (auto simp: run_def)
  moreover have "on_frame d (call_stack st0) (push_function_to_call_stack tcx d (program_start st0) (program_end st0) st0)"
    by (auto simp: push_function_to_call_stack_def Let_def on_frame_def)
  ultimately show False using recursion_never_returns [OF assms(1,3)] by blast
qed

theorem recursive_program_has_no_result_witness:
  "\<forall>st. and_then (translator_new simple_netcrab) (run simple_netcrab recursive_main 1000 1000) \<noteq> Inr st"
proof
  fix st
  have "list_ex (inlines_into recursive_main {0} 0) (visit_body recursive_main 0)" by code_simp
  then have "recursive_functions recursive_main {0}" by (simp add: recursive_functions_def)
  moreover have "entry_fn recursive_main = Some 0" by (simp add: recursive_main_def program_def)
  ultimately show "and_then (translator_new simple_netcrab) (run simple_netcrab recursive_main 1000 1000) \<noteq> Inr st"
    by (rule recursive_program_has_no_result) simp
qed

end
