(* ===== verification/Postprocessing.thy ===== *)
theory Postprocessing
  imports Translator Simple_Net
begin

text \<open>
  The postprocessing of \<open>src/src/translator.rs\<close>. The tasks come out of the heap by priority, so
  every mutex of the program is known before the first \<open>wait\<close> call is linked: the loop is
  equivalent to linking every \<open>wait\<close> call to every mutex, whatever the order in which the tasks
  were found.
\<close>

definition is_link_task :: "('p, 't) postprocessing_task \<Rightarrow> bool" where
  "is_link_task task = (case task of LinkMutexToCondvar _ _ _ _ _ \<Rightarrow> True | NewMutex _ _ \<Rightarrow> False)"

fun mutex_refs_of :: "('p, 't) postprocessing_task list \<Rightarrow> mutex_ref list" where
  "mutex_refs_of [] = []"
| "mutex_refs_of (NewMutex _ r # ts) = r # mutex_refs_of ts"
| "mutex_refs_of (LinkMutexToCondvar _ _ _ _ _ # ts) = mutex_refs_of ts"

text \<open>Linking one \<open>wait\<close> call to all mutexes.\<close>

definition link_all_mutexes ::
  "('n, 'p, 't) netcrab \<Rightarrow> ('p, 't) store \<Rightarrow> mutex_ref list \<Rightarrow> ('p, 't) postprocessing_task \<Rightarrow> 'n \<Rightarrow> 'n res" where
  "link_all_mutexes N s ms task net = (case task of
      LinkMutexToCondvar _ index start_place end_place wait_start_t \<Rightarrow>
        try_fold (link_mutex_ref_to_condvar N s index start_place end_place wait_start_t) ms net
    | NewMutex _ _ \<Rightarrow> Inr net)"

lemma mset_mutex_refs_of:
  fixes xs ys :: "('p, 't) postprocessing_task list"
  assumes "mset xs = mset ys"
  shows "mset (mutex_refs_of xs) = mset (mutex_refs_of ys)"
proof -
  have "mset (mutex_refs_of zs) = (\<Sum>t \<in># mset zs. case t of NewMutex _ r \<Rightarrow> {#r#} | _ \<Rightarrow> {#})"
    for zs :: "('p, 't) postprocessing_task list"
    by (induction zs rule: mutex_refs_of.induct) auto
  with assms show ?thesis by simp
qed

lemma mutex_refs_of_append [simp]: "mutex_refs_of (xs @ ys) = mutex_refs_of xs @ mutex_refs_of ys"
  by (induction xs rule: mutex_refs_of.induct) auto

lemma mutex_refs_of_links [simp]: "\<forall>t \<in> set ts. is_link_task t \<Longrightarrow> mutex_refs_of ts = []"
  by (induction ts rule: mutex_refs_of.induct) (auto simp: is_link_task_def)

text \<open>The loop on the tasks in the order in which the heap gives them.\<close>

fun run_task_list ::
  "('n, 'p, 't) netcrab \<Rightarrow> ('p, 't) store \<Rightarrow> mutex_ref list \<Rightarrow> ('p, 't) postprocessing_task list \<Rightarrow> 'n \<Rightarrow> 'n res" where
  "run_task_list N s ms [] net = Inr net"
| "run_task_list N s ms (NewMutex _ r # ts) net = run_task_list N s (ms @ [r]) ts net"
| "run_task_list N s ms (LinkMutexToCondvar p i sp ep w # ts) net =
     and_then (link_all_mutexes N s ms (LinkMutexToCondvar p i sp ep w) net) (run_task_list N s ms ts)"

lemma run_tasks_drains:
  "max_queue.drains (heap_pop get_priority) tasks ts \<Longrightarrow> run_tasks N s ms tasks net = run_task_list N s ms ts net"
proof (induction arbitrary: ms net rule: binary_heap.drains.induct [where key = get_priority])
  case (drained q)
  then show ?case by (subst run_tasks.simps) simp
next
  case (drain_next q x q' xs)
  then have "run_tasks N s ms q' = run_task_list N s ms xs" for ms by (simp add: fun_eq_iff)
  with drain_next.hyps(1) show ?case
    by (subst run_tasks.simps) (cases x; simp add: link_all_mutexes_def)
qed

lemma run_task_list_news: "\<forall>t \<in> set news. \<not> is_link_task t \<Longrightarrow>
    run_task_list N s ms (news @ links) net = run_task_list N s (ms @ mutex_refs_of news) links net"
  by (induction news arbitrary: ms rule: mutex_refs_of.induct) (auto simp: is_link_task_def)

lemma run_task_list_links: "\<forall>t \<in> set links. is_link_task t \<Longrightarrow>
    run_task_list N s ms links net = try_fold (link_all_mutexes N s ms) links net"
proof (induction links arbitrary: net)
  case (Cons t links)
  then show ?case
    by (cases t; cases "link_all_mutexes N s ms t net") (auto simp: is_link_task_def)
qed simp

text \<open>By priority, the new mutexes come first.\<close>

lemma sorted_tasks_split:
  assumes "sorted_wrt (\<lambda>x y. get_priority y \<le> get_priority x) ts" "\<forall>t \<in> set ts. well_prioritised t"
  shows "\<exists>news links. ts = news @ links \<and> (\<forall>t \<in> set news. \<not> is_link_task t) \<and> (\<forall>t \<in> set links. is_link_task t)"
  using assms
proof (induction ts)
  case (Cons t ts)
  then obtain news links where ts: "ts = news @ links" "\<forall>t \<in> set news. \<not> is_link_task t" "\<forall>t \<in> set links. is_link_task t"
    by auto
  show ?case
  proof (cases "is_link_task t")
    case False
    with ts show ?thesis by (intro exI [of _ "t # news"] exI [of _ links]) auto
  next
    case True
    have "news = []"
    proof (rule ccontr)
      assume "news \<noteq> []"
      then obtain u where "u \<in> set ts" "\<not> is_link_task u" using ts by (cases news) auto
      with Cons.prems have "get_priority u \<le> get_priority t" "well_prioritised u" "well_prioritised t" by auto
      with True \<open>\<not> is_link_task u\<close> show False
        by (cases t; cases u) (simp_all add: is_link_task_def well_prioritised_def get_priority_def word_le_nat_alt)
    qed
    with True ts show ?thesis by (intro exI [of _ "[]"] exI [of _ "t # links"]) auto
  qed
qed auto

lemma heap_of_pushes:
  "mset (foldl (\<lambda>h t. heap_push key t h) h ts) = mset h + mset ts \<and>
   (heap_ordered key h \<longrightarrow> heap_ordered key (foldl (\<lambda>h t. heap_push key t h) h ts))"
  by (induction ts arbitrary: h) (auto simp: mset_heap_push heap_ordered_push)

text \<open>
  C13. The postprocessing links every \<open>wait\<close> call of the program to every mutex of the program. For
  tasks pushed in any order, the loop of \<open>translation_postprocessing\<close> first collects the mutexes of
  all \<open>NewMutex\<close> tasks and then runs, for each \<open>LinkMutexToCondvar\<close> task, the linking over all of
  them; no task is lost or run twice.
\<close>

theorem postprocessing_links_every_mutex:
  assumes "\<forall>t \<in> set ts. well_prioritised t"
  shows "\<exists>ms links. mset ms = mset (mutex_refs_of ts) \<and> mset links = mset (filter is_link_task ts) \<and>
    run_tasks N s [] (foldl (\<lambda>h t. heap_push get_priority t h) heap_new ts) net =
      try_fold (link_all_mutexes N s ms) links net"
proof -
  let ?h = "foldl (\<lambda>h t. heap_push get_priority t h) heap_new ts"
  have h: "mset ?h = mset ts" "heap_ordered get_priority ?h"
    using heap_of_pushes [of get_priority heap_new ts] binary_heap.invar_new by (auto simp: heap_new_def)
  obtain xs where xs: "max_queue.drains (heap_pop get_priority) ?h xs"
    using binary_heap.drains_exists by blast
  then have "mset xs = mset ts" "sorted_wrt (\<lambda>x y. get_priority y \<le> get_priority x) xs"
    using binary_heap.drains_contents [OF xs] binary_heap.drains_sorted [OF xs] h by auto
  moreover have "\<forall>t \<in> set xs. well_prioritised t"
    using assms \<open>mset xs = mset ts\<close> by (metis set_mset_mset)
  ultimately obtain news links where sp: "xs = news @ links" "\<forall>t \<in> set news. \<not> is_link_task t"
      "\<forall>t \<in> set links. is_link_task t"
    using sorted_tasks_split by blast
  have "run_tasks N s [] ?h net = try_fold (link_all_mutexes N s (mutex_refs_of news)) links net"
    using run_tasks_drains [OF xs, of N s "[]" net] sp by (simp add: run_task_list_news run_task_list_links)
  moreover have "mset (mutex_refs_of news) = mset (mutex_refs_of ts)"
    using mset_mutex_refs_of [OF \<open>mset xs = mset ts\<close>] sp by simp
  moreover have "mset links = mset (filter is_link_task ts)"
  proof -
    have "filter is_link_task news = []" "filter is_link_task links = links"
      using sp by (auto simp: filter_id_conv filter_empty_conv)
    then have "filter is_link_task xs = links" using sp(1) by simp
    with \<open>mset xs = mset ts\<close> show ?thesis by (metis mset_filter)
  qed
  ultimately show ?thesis by blast
qed

theorem postprocessing_links_every_mutex_witness:
  "\<exists>ms links. mset ms = {#0, 1#} \<and> mset links = {#link_mutex_to_condvar 0 ''in'' ''out'' ''wait''#} \<and>
    run_tasks simple_netcrab store_new [] (foldl (\<lambda>h t. heap_push get_priority t h) heap_new
        [new_mutex 0, link_mutex_to_condvar 0 ''in'' ''out'' ''wait'', new_mutex 1]) sn_empty =
      try_fold (link_all_mutexes simple_netcrab store_new ms) links sn_empty"
  using postprocessing_links_every_mutex [of "[new_mutex 0, link_mutex_to_condvar 0 ''in'' ''out'' ''wait'', new_mutex 1]"
      simple_netcrab store_new sn_empty]
  by (simp add: is_link_task_def new_mutex_def link_mutex_to_condvar_def well_prioritised_def)

end
