(* ===== verification/Sync_Effects.thy ===== *)
theory Sync_Effects
  imports Sync Net_Semantics
begin

text \<open>
  What the synchronization primitives add to the net, exactly, when their labels are new: the lock
  transition takes the token of the mutex and the drop of the guard gives it back, so that the tokens
  of a mutex and of its critical sections are an invariant; a thread runs between its spawn and its
  join transition; the three transitions of a condition variable.
\<close>

section \<open>Critical sections\<close>

text \<open>
  A net that was put together around a mutex \<open>M\<close> with the critical sections \<open>C\<close>: a lock transition
  takes the token of the mutex into a critical section, a drop transition leaves it and gives the
  token back, and all other transitions stay inside or outside.
\<close>

definition fresh_transition :: "('p, 't) pnet \<Rightarrow> 't \<Rightarrow> bool" where
  "fresh_transition P t \<longleftrightarrow> t \<notin> pn_transitions P \<and> pn_pre P t = (\<lambda>_. 0) \<and> pn_post P t = (\<lambda>_. 0)"

inductive guarded :: "'p \<Rightarrow> 'p set \<Rightarrow> ('p, 't) pnet \<Rightarrow> bool" for M C where
  no_transitions: "finite C \<Longrightarrow> M \<notin> C \<Longrightarrow> pn_transitions P = {} \<Longrightarrow> pn_tokens P M = 1 \<Longrightarrow> \<forall>c \<in> C. pn_tokens P c = 0 \<Longrightarrow>
    guarded M C P"
| lock: "guarded M C P \<Longrightarrow> fresh_transition P t \<Longrightarrow> p \<noteq> M \<Longrightarrow> p \<notin> C \<Longrightarrow> q \<in> C \<Longrightarrow>
    guarded M C (insert_arc_pt M t (insert_edge t p q P))"
| unlock: "guarded M C P \<Longrightarrow> fresh_transition P t \<Longrightarrow> p \<in> C \<Longrightarrow> q \<noteq> M \<Longrightarrow> q \<notin> C \<Longrightarrow>
    guarded M C (insert_arc_tp t M (insert_edge t p q P))"
| step: "guarded M C P \<Longrightarrow> fresh_transition P t \<Longrightarrow> p \<noteq> M \<Longrightarrow> q \<noteq> M \<Longrightarrow> p \<in> C \<longleftrightarrow> q \<in> C \<Longrightarrow>
    guarded M C (insert_edge t p q P)"
| place: "guarded M C P \<Longrightarrow> guarded M C (insert_place p P)"

lemma guarded_section: "guarded M C P \<Longrightarrow> finite C \<and> M \<notin> C"
  by (induction rule: guarded.induct) auto

lemma guarded_tokens: "guarded M C P \<Longrightarrow> pn_tokens P M = 1 \<and> (\<forall>c \<in> C. pn_tokens P c = 0)"
  by (induction rule: guarded.induct) auto

text \<open>The tokens on the mutex and in its critical sections are a place invariant.\<close>

lemma weight_upd:
  assumes "finite S"
  shows "weight S (\<lambda>_. 1) (m(p := k)) = weight S (\<lambda>_. 1) m + (if p \<in> S then int k - int (m p) else 0)"
proof (cases "p \<in> S")
  case True
  have "weight S (\<lambda>_. 1) f = int (f p) + weight (S - {p}) (\<lambda>_. 1) f" for f :: "'a marking"
    using assms True by (simp add: weight_def sum.remove)
  moreover have "weight (S - {p}) (\<lambda>_. 1) (m(p := k)) = weight (S - {p}) (\<lambda>_. 1) m"
    unfolding weight_def by (rule sum.cong) auto
  ultimately show ?thesis using True by simp
next
  case False
  then show ?thesis unfolding weight_def by (auto intro: sum.cong)
qed

lemma weight_zero [simp]: "weight S w (\<lambda>_. 0) = 0"
  by (simp add: weight_def)

lemma guarded_invariant: "guarded M C P \<Longrightarrow> place_invariant P (insert M C) (\<lambda>_. 1)"
proof (induction rule: guarded.induct)
  case (lock P t p q)
  then show ?case
    using guarded_section [OF lock(1)] unfolding place_invariant_def fresh_transition_def
    by (auto simp: weight_upd)
next
  case (unlock P t p q)
  then show ?case
    using guarded_section [OF unlock(1)] unfolding place_invariant_def fresh_transition_def
    by (auto simp: weight_upd)
next
  case (step P t p q)
  then show ?case
    using guarded_section [OF step(1)] unfolding place_invariant_def fresh_transition_def
    by (auto simp: weight_upd)
qed (auto simp: place_invariant_def)

lemma guarded_exclusive:
  assumes "guarded M C P" "reachable P m"
  shows "m M + (\<Sum>c \<in> C. m c) = 1"
proof -
  have fin: "finite C" "M \<notin> C" using guarded_section [OF assms(1)] by auto
  have "weight (insert M C) (\<lambda>_. 1) f = int (f M + (\<Sum>c \<in> C. f c))" for f
    using fin by (simp add: weight_def)
  then have "int (m M + (\<Sum>c \<in> C. m c)) = int (pn_tokens P M + (\<Sum>c \<in> C. pn_tokens P c))"
    using place_invariant_reachable [OF guarded_invariant [OF assms(1)] assms(2)] by simp
  then have "m M + (\<Sum>c \<in> C. m c) = pn_tokens P M + (\<Sum>c \<in> C. pn_tokens P c)" by (simp only: of_nat_eq_iff)
  then show ?thesis using guarded_tokens [OF assms(1)] by simp
qed

section \<open>Exact steps\<close>

lemma ensures_returns: "ensures (\<lambda>_. False) Q r \<longleftrightarrow> (\<exists>x. r = Inr x \<and> Q x)"
  by (cases r) simp_all

text \<open>Every arc has its place in the net.\<close>

definition closed_net :: "('p, 't) pnet \<Rightarrow> bool" where
  "closed_net P \<longleftrightarrow> (\<forall>t p. p \<notin> pn_places P \<longrightarrow> pn_pre P t p = 0 \<and> pn_post P t p = 0)"

context labelled_petri_net
begin

text \<open>
  The rules for a chain of calls on a net whose meaning is known to be \<open>X\<close>.
\<close>

lemma exact_arc_pt:
  assumes "view net = X" "p \<in> pn_places X" "t \<in> pn_transitions X" "pn_pre X t p = 0"
    "\<And>net'. view net' = insert_arc_pt p t X \<Longrightarrow> Q net'"
  shows "ensures E Q (add_arc_place_transition N net p t)"
  by (rule add_arc_pt_new [of p net t]) (use assms in auto)

lemma exact_arc_tp:
  assumes "view net = X" "p \<in> pn_places X" "t \<in> pn_transitions X" "pn_post X t p = 0"
    "\<And>net'. view net' = insert_arc_tp t p X \<Longrightarrow> Q net'"
  shows "ensures E Q (add_arc_transition_place N net t p)"
  by (rule add_arc_tp_new [of p net t]) (use assms in auto)

lemma exact_token:
  assumes "view net = X" "p \<in> pn_places X" "pn_tokens X p = 0"
    "\<And>net'. view net' = insert_tokens p 1 X \<Longrightarrow> Q net'"
  shows "ensures E Q (add_token N net p 1)"
  by (rule add_token_new [of p net 1]) (use assms in auto)

lemma exact_connect:
  assumes "view net = X" "s \<in> pn_places X" "e \<in> pn_places X" "l \<notin> transition_label ` pn_transitions X"
    "\<And>t net'. t \<notin> pn_transitions X \<Longrightarrow> transition_label t = l \<Longrightarrow> pn_pre X t = (\<lambda>_. 0) \<Longrightarrow> pn_post X t = (\<lambda>_. 0) \<Longrightarrow>
      view net' = insert_edge t s e X \<Longrightarrow> Q (t, net')"
  shows "ensures E Q (connect_places N net s e l)"
proof -
  obtain t net' where t: "connect_places N net s e l = Inr (t, net')" "t \<notin> transitions net"
    "transition_label t = l" "view net' = insert_edge t s e (view net)"
    using connect_places_fresh [of s net e l] assms(1-4) by metis
  have "Q (t, net')"
    by (rule assms(5)) (use t no_dangling_arcs [OF t(2)] assms(1) in auto)
  with t(1) show ?thesis by simp
qed

lemma exact_place:
  assumes "view net = X" "l \<notin> place_label ` pn_places X" "net_add_place N l net = (p, net')"
  shows "p \<notin> pn_places X" "place_label p = l" "view net' = insert_place p X" "pn_tokens X p = 0"
  using add_place_fresh [of l net p net'] no_dangling_tokens [of p net] assms by auto

lemma exact_transition:
  assumes "view net = X" "l \<notin> transition_label ` pn_transitions X" "net_add_transition N l net = (t, net')"
  shows "t \<notin> pn_transitions X" "transition_label t = l" "view net' = insert_transition t X"
    "pn_pre X t = (\<lambda>_. 0)" "pn_post X t = (\<lambda>_. 0)"
  using add_transition_fresh [of l net t net'] no_dangling_arcs [of t net] assms by auto

section \<open>Mutexes\<close>

lemma lock_effect:
  assumes "get_start_end_place pl = (p, q)" "p \<in> places net" "q \<in> places net"
    "extract_nth_argument_as_place args 0 = Some self_ref" "get_mutex self_ref memory = Inr r"
    "r < length (mutexes s)" "mutex_place (mutexes s ! r) \<in> places net" "mutex_place (mutexes s ! r) \<noteq> p"
    "fst (foreign_call_transition_labels name index) \<notin> transition_label ` transitions net"
  shows "ensures (\<lambda>_. False) (\<lambda>(net', memory'). memory' = link_mutex_guard dest (guard_new r) memory \<and>
      (\<exists>t. t \<notin> transitions net \<and> transition_label t = fst (foreign_call_transition_labels name index) \<and>
        pn_pre (view net) t = (\<lambda>_. 0) \<and> pn_post (view net) t = (\<lambda>_. 0) \<and>
        view net' = insert_arc_pt (mutex_place (mutexes s ! r)) t (insert_edge t p q (view net))))
    (mutex_call_lock N name index args dest pl net memory s)"
proof -
  obtain l c where l: "foreign_call_transition_labels name index = (l, c)" by fastforce
  have pl: "ignore_cleanup_place pl = Basic_Places p q" using assms(1) by (cases pl) auto
  have cell: "deref_cell (mutexes s) r = Inr (mutexes s ! r)" using assms(6) by (simp add: deref_cell_def)
  show ?thesis
    unfolding mutex_call_lock_def call_foreign_function_def l pl Let_def prod.case call_places.case
    using assms l
    by (auto simp: cell add_lock_arc_def get_default_def intro!: exact_connect [OF refl] exact_arc_pt)
qed

lemma guard_drop_effect:
  assumes "get_mutex_guard place memory = Inr g" "guard_mutex g < length (mutexes s)"
    "mutex_place (mutexes s ! guard_mutex g) \<in> places net" "t \<in> transitions net"
    "pn_post (view net) t (mutex_place (mutexes s ! guard_mutex g)) = 0"
  shows "ensures (\<lambda>_. False) (\<lambda>net'. view net' = insert_arc_tp t (mutex_place (mutexes s ! guard_mutex g)) (view net))
    (handle_mutex_guard_drop N place t net memory s)"
proof -
  have "is_mutex_guard place memory"
    using assms(1) by (cases "hm_get (memory_map memory) place")
      (auto simp: get_mutex_guard_def get_linked_value_def is_mutex_guard_def unpack_mutex_guard_def split: val.splits)
  then show ?thesis
    using assms by (auto simp: handle_mutex_guard_drop_def deref_cell_def add_unlock_arc_def intro!: exact_arc_tp [OF refl])
qed

lemma mutex_new_effect:
  assumes "mutex_place_label index \<notin> place_label ` places net"
  shows "ensures (\<lambda>_. False) (\<lambda>(mutex, net'). deref_mut mutex = [] \<and> mutex_place mutex \<notin> places net \<and>
      place_label (mutex_place mutex) = mutex_place_label index \<and>
      view net' = insert_tokens (mutex_place mutex) 1 (insert_place (mutex_place mutex) (view net)))
    (mutex_new N index net)"
proof -
  obtain p net1 where p: "net_add_place N (mutex_place_label index) net = (p, net1)" by fastforce
  note e = exact_place [OF refl assms p]
  show ?thesis
    unfolding mutex_new_def p Let_def prod.case
    using e by (auto simp del: One_nat_def intro!: exact_token)
qed

section \<open>Threads\<close>

lemma prepare_effect:
  assumes "closed_net (view net)"
    and "spawn_transition th \<in> transitions net" "join_transition th = Some j" "j \<in> transitions net"
    "start_place_label (thread_index th) \<notin> place_label ` places net" "end_place_label (thread_index th) \<notin> place_label ` places net"
  shows "ensures (\<lambda>_. False) (\<lambda>((d, p, q), net'). d = thread_def_id th \<and> p \<notin> places net \<and> q \<notin> places net \<and> p \<noteq> q \<and>
      place_label p = start_place_label (thread_index th) \<and> place_label q = end_place_label (thread_index th) \<and>
      view net' = insert_arc_pt q j (insert_arc_tp (spawn_transition th) p (insert_place q (insert_place p (view net)))))
    (prepare_for_translation N th net)"
proof -
  obtain p n1 where p: "net_add_place N (start_place_label (thread_index th)) net = (p, n1)" by fastforce
  obtain q n2 where q: "net_add_place N (end_place_label (thread_index th)) n1 = (q, n2)" by fastforce
  note e1 = exact_place [OF refl assms(5) p]
  have "end_place_label (thread_index th) \<notin> place_label ` pn_places (insert_place p (view net))"
    using assms(6) e1(2) by (auto simp: start_place_label_def end_place_label_def)
  note e2 = exact_place [OF e1(3) this q]
  have z: "pn_post (view net) (spawn_transition th) p = 0" "pn_pre (view net) j q = 0"
    using assms(1) e1(1) e2(1) by (simp_all add: closed_net_def)
  show ?thesis
    unfolding prepare_for_translation_def p q Let_def prod.case
    using assms e1 e2 z by (auto intro!: exact_arc_tp exact_arc_pt)
qed

section \<open>Condition variables\<close>

text \<open>The transitions and arcs of a condition variable, from a net \<open>X\<close> with its two places.\<close>

definition condvar_arcs :: "'p \<Rightarrow> 'p \<Rightarrow> 't \<Rightarrow> 't \<Rightarrow> 't \<Rightarrow> ('p, 't) pnet \<Rightarrow> ('p, 't) pnet" where
  "condvar_arcs w q a b c X = insert_arc_tp c w (insert_arc_pt q c (insert_arc_pt w a (insert_arc_tp b w (insert_arc_pt q b
     (insert_arc_pt w b (insert_transition c (insert_transition b (insert_transition a X))))))))"

lemma condvar_arcs_effect:
  assumes n3: "view n3 = X" and places: "w \<in> pn_places X" "q \<in> pn_places X" "q \<noteq> w"
    and labels: "distinct [k1, k2, k3]" "set [k1, k2, k3] \<inter> transition_label ` pn_transitions X = {}"
    and Q: "\<And>a b c n. distinct [a, b, c] \<Longrightarrow> {a, b, c} \<inter> pn_transitions X = {} \<Longrightarrow>
      \<forall>t \<in> {a, b, c}. pn_pre X t = (\<lambda>_. 0) \<and> pn_post X t = (\<lambda>_. 0) \<Longrightarrow> view n = condvar_arcs w q a b c X \<Longrightarrow>
      Q (\<lparr>wait_start = a, notify = q, notify_received = c, already_linked_to_call = False\<rparr>, n)"
  shows "ensures (\<lambda>_. False) Q (let (a, n) = net_add_transition N k1 n3; (b, n) = net_add_transition N k2 n;
        (c, n) = net_add_transition N k3 n
      in and_then (add_arc_place_transition N n w b) (\<lambda>n. and_then (add_arc_place_transition N n q b) (\<lambda>n.
         and_then (add_arc_transition_place N n b w) (\<lambda>n. and_then (add_arc_place_transition N n w a) (\<lambda>n.
         and_then (add_arc_place_transition N n q c) (\<lambda>n. and_then (add_arc_transition_place N n c w) (\<lambda>n.
         Inr (\<lparr>wait_start = a, notify = q, notify_received = c, already_linked_to_call = False\<rparr>, n))))))))"
proof -
  obtain a n4 where a: "net_add_transition N k1 n3 = (a, n4)" by fastforce
  obtain b n5 where b: "net_add_transition N k2 n4 = (b, n5)" by fastforce
  obtain c n6 where c: "net_add_transition N k3 n5 = (c, n6)" by fastforce
  have "k1 \<notin> transition_label ` pn_transitions X" using labels(2) by auto
  note t1 = exact_transition [OF n3 this a]
  have "k2 \<notin> transition_label ` pn_transitions (insert_transition a X)" using labels t1(2) by auto
  note t2 = exact_transition [OF t1(3) this b]
  have "k3 \<notin> transition_label ` pn_transitions (insert_transition b (insert_transition a X))" using labels t1(2) t2(2) by auto
  note t3 = exact_transition [OF t2(3) this c]
  have fresh: "distinct [a, b, c]" "{a, b, c} \<inter> pn_transitions X = {}"
    "\<forall>t \<in> {a, b, c}. pn_pre X t = (\<lambda>_. 0) \<and> pn_post X t = (\<lambda>_. 0)"
    using t1 t2 t3 by auto
  then have [simp]: "b \<noteq> a" "c \<noteq> a" "c \<noteq> b" "a \<noteq> b" "a \<noteq> c" "b \<noteq> c" "q \<noteq> w" "pn_pre X a = (\<lambda>_. 0)" "pn_pre X b = (\<lambda>_. 0)"
      "pn_pre X c = (\<lambda>_. 0)" "pn_post X b = (\<lambda>_. 0)" "pn_post X c = (\<lambda>_. 0)"
    using places(3) by auto
  show ?thesis unfolding a b c Let_def prod.case ensures_bind
    by (rule exact_arc_pt [OF t3(3)], simp add: places, simp, simp add: places,
        rule exact_arc_pt, assumption, simp add: places, simp, simp add: places,
        rule exact_arc_tp, assumption, simp add: places, simp, simp add: places,
        rule exact_arc_pt, assumption, simp add: places, simp, simp add: places,
        rule exact_arc_pt, assumption, simp add: places, simp, simp add: places,
        rule exact_arc_tp, assumption, simp add: places, simp, simp add: places,
        simp only: ensures_simps, rule Q [OF fresh, unfolded condvar_arcs_def], assumption)
qed

lemma condvar_new_effect:
  assumes "fst (condvar_place_labels index) \<notin> place_label ` places net" "snd (condvar_place_labels index) \<notin> place_label ` places net"
    and "set [fst (condvar_transition_labels index), fst (snd (condvar_transition_labels index)),
      snd (snd (condvar_transition_labels index))] \<inter> transition_label ` transitions net = {}"
  shows "ensures (\<lambda>_. False) (\<lambda>(cv, net'). \<not> already_linked_to_call cv \<and>
      (\<exists>w lost. w \<notin> places net \<and> notify cv \<notin> places net \<and> w \<noteq> notify cv \<and>
        distinct [wait_start cv, lost, notify_received cv] \<and>
        {wait_start cv, lost, notify_received cv} \<inter> transitions net = {} \<and>
        pn_places (view net') = insert (notify cv) (insert w (places net)) \<and>
        pn_transitions (view net') = {wait_start cv, lost, notify_received cv} \<union> transitions net \<and>
        pn_tokens (view net') = (pn_tokens (view net))(w := 1) \<and>
        pn_pre (view net') = (pn_pre (view net))(wait_start cv := (\<lambda>_. 0)(w := 1),
          lost := (\<lambda>_. 0)(w := 1, notify cv := 1), notify_received cv := (\<lambda>_. 0)(notify cv := 1)) \<and>
        pn_post (view net') = (pn_post (view net))(lost := (\<lambda>_. 0)(w := 1), notify_received cv := (\<lambda>_. 0)(w := 1))))
    (condvar_new N index net)" (is "ensures _ ?Q _")
proof -
  obtain l1 l2 where l: "condvar_place_labels index = (l1, l2)" "l1 \<noteq> l2" by (simp add: condvar_place_labels_def)
  obtain k1 k2 k3 where k: "condvar_transition_labels index = (k1, k2, k3)" "distinct [k1, k2, k3]"
    by (simp add: condvar_transition_labels_def)
  obtain w n1 where w: "net_add_place N l1 net = (w, n1)" by fastforce
  obtain q n2 where q: "net_add_place N l2 n1 = (q, n2)" by fastforce
  have e1: "w \<notin> places net" "place_label w = l1" "view n1 = insert_place w (view net)" "pn_tokens (view net) w = 0"
    using exact_place [OF refl _ w] assms(1) l by simp_all
  have "l2 \<notin> place_label ` pn_places (insert_place w (view net))" using assms(2) l e1(2) by auto
  note e2 = exact_place [OF e1(3) this q]
  define X where "X = insert_tokens w 1 (insert_place q (insert_place w (view net)))"
  have X: "w \<in> pn_places X" "q \<in> pn_places X" "q \<noteq> w" "pn_transitions X = transitions net" "pn_pre X = pn_pre (view net)"
      "pn_post X = pn_post (view net)"
    using e2(1) by (auto simp: X_def)
  have labels: "set [k1, k2, k3] \<inter> transition_label ` pn_transitions X = {}" using assms(3) k(1) X(4) by simp
  have shape: "?Q (\<lparr>wait_start = a, notify = q, notify_received = c, already_linked_to_call = False\<rparr>, n)"
    if abc: "distinct [a, b, c]" "{a, b, c} \<inter> pn_transitions X = {}"
      "\<forall>t \<in> {a, b, c}. pn_pre X t = (\<lambda>_. 0) \<and> pn_post X t = (\<lambda>_. 0)" and n: "view n = condvar_arcs w q a b c X" for a b c n
  proof -
    have "q \<notin> places net" "w \<noteq> q" "b \<noteq> a" "c \<noteq> a" "c \<noteq> b" using e2(1) abc(1) by auto
    with abc e1(1,4) show ?thesis
      unfolding prod.case condvar.simps n condvar_arcs_def
      by (intro conjI exI [of _ w] exI [of _ b]) (simp_all add: X_def fun_eq_iff insert_commute)
  qed
  show ?thesis
    unfolding condvar_new_def l k w q Let_def prod.case ensures_bind
    by (rule exact_token [OF e2(3)], simp, use e1(4) e2(4) in simp,
        rule condvar_arcs_effect [OF _ X(1-3) k(2) labels, unfolded Let_def], simp only: X_def [symmetric], rule shape)
qed

end

end
