(* ===== verification/Condition_Effects.thy ===== *)
theory Condition_Effects
  imports Sync_Effects Simple_Net
begin

text \<open>
  What a \<open>wait\<close> call and the condition of a condition variable add to the net. The condition of a
  mutex is a flag: a token moves from \<open>condition_not_set\<close> to \<open>condition_set\<close> when the value of the
  mutex is set.
\<close>

section \<open>Flags\<close>

text \<open>
  A net in which the transitions \<open>D\<close> move the only token of two places from \<open>off\<close> to \<open>on\<close> and all other
  transitions leave these places as they are.
\<close>

definition flag_net :: "'p \<Rightarrow> 'p \<Rightarrow> 't set \<Rightarrow> ('p, 't) pnet \<Rightarrow> bool" where
  "flag_net off on D P \<longleftrightarrow> pn_tokens P off = 1 \<and> pn_tokens P on = 0 \<and>
     (\<forall>t \<in> pn_transitions P.
        if t \<in> D then pn_pre P t off = 1 \<and> pn_pre P t on = 0 \<and> pn_post P t off = 0 \<and> pn_post P t on = 1
        else pn_pre P t off = pn_post P t off \<and> pn_pre P t on = pn_post P t on)"

lemma enabledD: "enabled P m t \<Longrightarrow> t \<in> pn_transitions P" "enabled P m t \<Longrightarrow> pn_pre P t p \<le> m p"
  by (simp_all add: enabled_def)

lemma flag_step:
  assumes "flag_net off on D P" "enabled P m t" "m off + m on = 1"
  shows "if t \<in> D then m off = 1 \<and> fire P t m off = 0 \<and> fire P t m on = 1
    else fire P t m off = m off \<and> fire P t m on = m on"
  using assms(1) enabledD(1) [OF assms(2)] enabledD(2) [OF assms(2), of off] enabledD(2) [OF assms(2), of on] assms(3)
  by (auto simp: flag_net_def fire_def split: if_splits)

lemma flag_reachable:
  assumes "flag_net off on D P" "reachable P m"
  shows "m off + m on = 1"
  using assms(2)
proof induction
  case initial
  then show ?case using assms(1) by (simp add: flag_net_def)
next
  case (fires m t)
  then show ?case using flag_step [OF assms(1), of m t] by (auto split: if_splits)
qed

section \<open>The exact nets\<close>

text \<open>The arcs of the transitions that set the condition.\<close>

definition set_arcs :: "'p \<Rightarrow> 'p \<Rightarrow> 't list \<Rightarrow> ('p, 't) pnet \<Rightarrow> ('p, 't) pnet" where
  "set_arcs off on ds X = foldl (\<lambda>X d. insert_arc_tp d on (insert_arc_pt off d X)) X ds"

lemma set_arcs_simps [simp]:
  "pn_places (set_arcs off on ds X) = pn_places X" "pn_transitions (set_arcs off on ds X) = pn_transitions X"
  "pn_tokens (set_arcs off on ds X) = pn_tokens X"
  "pn_pre (set_arcs off on ds X) t p = (if t \<in> set ds \<and> p = off then 1 else pn_pre X t p)"
  "pn_post (set_arcs off on ds X) t p = (if t \<in> set ds \<and> p = on then 1 else pn_post X t p)"
  by (induction ds arbitrary: X; simp add: set_arcs_def)+

text \<open>A new transition that needs the token of \<open>on\<close> and puts it back.\<close>

definition skip_edge :: "'p \<Rightarrow> 't \<Rightarrow> 'p \<Rightarrow> 'p \<Rightarrow> ('p, 't) pnet \<Rightarrow> ('p, 't) pnet" where
  "skip_edge on skip sp ep V = insert_arc_tp skip on (insert_arc_pt on skip (insert_edge skip sp ep V))"

context labelled_petri_net
begin

lemma wait_effect:
  assumes "c < length (condvars s)" "cv = condvars s ! c" "\<not> already_linked_to_call cv"
    "guard_mutex g < length (mutexes s)" "M = mutex_place (mutexes s ! guard_mutex g)"
    "sp \<in> places net" "ep \<in> places net" "M \<in> places net"
    "wait_start cv \<in> transitions net" "notify_received cv \<in> transitions net" "wait_start cv \<noteq> notify_received cv"
    "pn_pre (view net) (wait_start cv) sp = 0" "pn_post (view net) (notify_received cv) ep = 0"
    "pn_post (view net) (wait_start cv) M = 0" "pn_pre (view net) (notify_received cv) M = 0"
  shows "ensures (\<lambda>_. False) (\<lambda>(net', s').
      s' = s\<lparr>condvars := (condvars s)[c := cv\<lparr>already_linked_to_call := True\<rparr>]\<rparr> \<and>
      view net' = insert_arc_pt M (notify_received cv) (insert_arc_tp (wait_start cv) M
        (insert_arc_tp (notify_received cv) ep (insert_arc_pt sp (wait_start cv) (view net)))))
    (link_to_wait_call N c sp ep g net s)"
proof -
  have cells: "deref_cell (condvars s) c = Inr cv" "deref_cell (mutexes s) (guard_mutex g) = Inr (mutexes s ! guard_mutex g)"
    using assms(1,2,4) by (simp_all add: deref_cell_def)
  have [simp]: "notify_received cv \<noteq> wait_start cv" using assms(11) by metis
  show ?thesis
    unfolding link_to_wait_call_def cells ensures_bind ensures_simps add_unlock_arc_def add_lock_arc_def if_not_P [OF assms(3)]
      assms(5) [symmetric]
    by (rule exact_arc_pt [OF refl], use assms in simp, use assms in simp, use assms in simp,
        rule exact_arc_tp, assumption, use assms in simp, use assms in simp, use assms in simp,
        rule exact_arc_tp, assumption, use assms in simp, use assms in simp, use assms in simp,
        rule exact_arc_pt, assumption, use assms in simp, use assms in simp, use assms in simp, simp)
qed

lemma set_condition_effect:
  assumes "view net = X" "off \<in> pn_places X" "on \<in> pn_places X" "set ds \<subseteq> pn_transitions X" "distinct ds"
    "\<forall>d \<in> set ds. pn_pre X d off = 0 \<and> pn_post X d on = 0"
  shows "ensures (\<lambda>_. False) (\<lambda>net'. view net' = set_arcs off on ds X) (try_fold (set_condition_arcs N off on) ds net)"
  using assms
proof (induction ds arbitrary: net X)
  case (Cons d ds)
  have rest: "ensures (\<lambda>_. False) (\<lambda>n. view n = set_arcs off on (d # ds) X) (try_fold (set_condition_arcs N off on) ds n)"
    if n: "view n = insert_arc_tp d on (insert_arc_pt off d X)" for n
  proof -
    have "set_arcs off on (d # ds) X = set_arcs off on ds (insert_arc_tp d on (insert_arc_pt off d X))"
      by (simp add: set_arcs_def)
    moreover have "\<forall>x \<in> set ds. x \<noteq> d" using Cons.prems(5) by auto
    ultimately show ?thesis
      using Cons.IH [OF n] Cons.prems(2-6) by simp
  qed
  have d: "d \<in> pn_transitions X" "pn_pre X d off = 0" "pn_post X d on = 0" using Cons.prems(4,6) by simp_all
  have "ensures (\<lambda>_. False) (\<lambda>n. view n = insert_arc_tp d on (insert_arc_pt off d X)) (set_condition_arcs N off on d net)"
    unfolding set_condition_arcs_def ensures_bind
    by (rule exact_arc_pt [OF Cons.prems(1,2) d(1,2)], rule exact_arc_tp, assumption) (use Cons.prems(3) d in simp_all)
  then show ?case unfolding try_fold.simps by (rule ensures_and_then) (rule rest)
qed (simp add: set_arcs_def)

lemma skip_effect:
  assumes n: "view n = V" and V: "sp \<in> pn_places V" "ep \<in> pn_places V" "on \<in> pn_places V" "on \<noteq> sp" "on \<noteq> ep"
    "label \<notin> transition_label ` pn_transitions V"
  shows "ensures (\<lambda>_. False) (\<lambda>net'. \<exists>skip. skip \<notin> pn_transitions V \<and> view net' = skip_edge on skip sp ep V)
    (and_then (connect_places N n sp ep label) (\<lambda>(wait_skip, net).
     and_then (add_arc_place_transition N net on wait_skip) (\<lambda>net. add_arc_transition_place N net wait_skip on)))"
proof -
  have "ensures (\<lambda>_. False) (\<lambda>(t, n). t \<notin> pn_transitions V \<and> pn_pre V t = (\<lambda>_. 0) \<and> pn_post V t = (\<lambda>_. 0) \<and>
      view n = insert_edge t sp ep V) (connect_places N n sp ep label)"
    by (rule exact_connect [OF n]) (use V in simp_all)
  moreover have "ensures (\<lambda>_. False) (\<lambda>net'. \<exists>skip. skip \<notin> pn_transitions V \<and> view net' = skip_edge on skip sp ep V)
      (and_then (add_arc_place_transition N n1 on t) (\<lambda>net. add_arc_transition_place N net t on))"
    if t: "t \<notin> pn_transitions V" "pn_pre V t = (\<lambda>_. 0)" "pn_post V t = (\<lambda>_. 0)" and n1: "view n1 = insert_edge t sp ep V" for t n1
    unfolding ensures_bind skip_edge_def
    by (rule exact_arc_pt [OF n1], use V in simp, simp, use t V in simp,
        rule exact_arc_tp, assumption, use V in simp, simp, use t V in simp, use t(1) in blast)
  ultimately show ?thesis by (auto intro: ensures_and_then simp del: ensures_bind)
qed

text \<open>The wait needs the condition not to be set, and is skipped when it is set.\<close>

lemma guarded_wait_effect:
  assumes n: "view n = Y" and Y: "sp \<in> pn_places Y" "ep \<in> pn_places Y" "on \<in> pn_places Y" "off \<in> pn_places Y" "on \<noteq> sp" "on \<noteq> ep"
    "label \<notin> transition_label ` pn_transitions Y" "w \<in> pn_transitions Y" "pn_pre Y w off = 0" "pn_post Y w off = 0"
  shows "ensures (\<lambda>_. False) (\<lambda>net'. \<exists>skip. skip \<notin> pn_transitions Y \<and>
      view net' = skip_edge on skip sp ep (insert_arc_tp w off (insert_arc_pt off w Y)))
    (and_then (add_arc_place_transition N n off w) (\<lambda>net. and_then (add_arc_transition_place N net w off) (\<lambda>net.
     and_then (connect_places N net sp ep label) (\<lambda>(wait_skip, net).
     and_then (add_arc_place_transition N net on wait_skip) (\<lambda>net. add_arc_transition_place N net wait_skip on)))))"
proof (rule ensures_and_then [where Q = "\<lambda>n. view n = insert_arc_pt off w Y"])
  show "ensures (\<lambda>_. False) (\<lambda>n. view n = insert_arc_pt off w Y) (add_arc_place_transition N n off w)"
    by (rule exact_arc_pt [OF n]) (use Y in simp_all)
next
  fix n1 assume n1: "view n1 = insert_arc_pt off w Y"
  have rest: "ensures (\<lambda>_. False) (\<lambda>net'. \<exists>skip. skip \<notin> pn_transitions Y \<and>
      view net' = skip_edge on skip sp ep (insert_arc_tp w off (insert_arc_pt off w Y)))
    (and_then (connect_places N n2 sp ep label) (\<lambda>(wait_skip, net).
     and_then (add_arc_place_transition N net on wait_skip) (\<lambda>net. add_arc_transition_place N net wait_skip on)))"
    if n2: "view n2 = insert_arc_tp w off (insert_arc_pt off w Y)" for n2
    by (rule ensures_mono [OF skip_effect [OF n2]]) (use Y in simp_all)
  show "ensures (\<lambda>_. False) (\<lambda>net'. \<exists>skip. skip \<notin> pn_transitions Y \<and>
      view net' = skip_edge on skip sp ep (insert_arc_tp w off (insert_arc_pt off w Y)))
    (and_then (add_arc_transition_place N n1 w off) (\<lambda>net. and_then (connect_places N net sp ep label) (\<lambda>(wait_skip, net).
     and_then (add_arc_place_transition N net on wait_skip) (\<lambda>net. add_arc_transition_place N net wait_skip on))))"
    by (rule ensures_and_then [where Q = "\<lambda>n. view n = insert_arc_tp w off (insert_arc_pt off w Y)"], rule exact_arc_tp [OF n1])
      (use Y rest in simp_all)
qed

text \<open>
  The whole condition: the two places, the arcs of the setting transitions, the wait that needs the
  condition not to be set, and the transition that skips the wait when it is set.
\<close>

lemma condition_effect:
  assumes closed: "closed_net (view net)" and ds: "deref_mut mutex = ds" "ds \<noteq> []" "distinct ds" "set ds \<subseteq> transitions net"
    and w: "w \<in> transitions net" "w \<notin> set ds" and sp: "sp \<in> places net" "ep \<in> places net"
    and labels: "fst (condition_place_labels index) \<notin> place_label ` places net"
      "snd (condition_place_labels index) \<notin> place_label ` places net"
      "wait_skip_label index \<notin> transition_label ` transitions net"
  shows "ensures (\<lambda>_. False) (\<lambda>net'. \<exists>off on skip. off \<notin> places net \<and> on \<notin> places net \<and> off \<noteq> on \<and> skip \<notin> transitions net \<and>
      view net' = skip_edge on skip sp ep (insert_arc_tp w off (insert_arc_pt off w
        (set_arcs off on ds (insert_tokens off 1 (insert_place on (insert_place off (view net))))))))
    (link_to_condvar N mutex index sp ep w net)"
proof -
  obtain l1 l2 where l: "condition_place_labels index = (l1, l2)" "l1 \<noteq> l2" by (simp add: condition_place_labels_def)
  obtain off n1 where p: "net_add_place N l1 net = (off, n1)" by fastforce
  obtain on n2 where q: "net_add_place N l2 n1 = (on, n2)" by fastforce
  have e1: "off \<notin> places net" "place_label off = l1" "view n1 = insert_place off (view net)" "pn_tokens (view net) off = 0"
    using exact_place [OF refl _ p] labels(1) l by simp_all
  have "l2 \<notin> place_label ` pn_places (insert_place off (view net))" using labels(2) l e1(2) by auto
  note e2 = exact_place [OF e1(3) this q]
  define X where "X = insert_tokens off 1 (insert_place on (insert_place off (view net)))"
  define Y where "Y = set_arcs off on ds X"
  have fresh: "pn_pre (view net) t off = 0" "pn_post (view net) t off = 0" "pn_pre (view net) t on = 0" "pn_post (view net) t on = 0" for t
    using closed e1(1) e2(1) by (simp_all add: closed_net_def)
  have neq: "on \<noteq> off" "off \<noteq> on" "sp \<noteq> off" "sp \<noteq> on" "ep \<noteq> off" "ep \<noteq> on" using e1(1) e2(1) sp by auto
  have XY [simp]: "pn_places X = insert on (insert off (places net))" "pn_transitions X = transitions net"
    "pn_pre X = pn_pre (view net)" "pn_post X = pn_post (view net)"
    "pn_places Y = pn_places X" "pn_transitions Y = pn_transitions X"
    "pn_pre Y w off = 0" "pn_post Y w off = 0"
    using w fresh neq by (simp_all add: X_def Y_def)
  obtain d ds' where deref: "deref_mut mutex = d # ds'" using ds(1,2) by (cases ds) auto
  have fold: "ensures (\<lambda>_. False) (\<lambda>n. view n = Y) (try_fold (set_condition_arcs N off on) (deref_mut mutex) n3)" if "view n3 = X" for n3
    unfolding Y_def ds(1) by (rule set_condition_effect [OF that]) (use ds(3,4) fresh in auto)
  have "ensures (\<lambda>_. False) (\<lambda>net'. \<exists>skip. skip \<notin> pn_transitions Y \<and>
      view net' = skip_edge on skip sp ep (insert_arc_tp w off (insert_arc_pt off w Y))) (link_to_condvar N mutex index sp ep w net)"
    unfolding link_to_condvar_def deref list.case l p q Let_def prod.case
    unfolding deref [symmetric]
    by (rule ensures_and_then [where Q = "\<lambda>n. view n = X"], rule exact_token [OF e2(3)], simp, use e1(4) e2(4) neq in simp,
        simp add: X_def, rule ensures_and_then [OF fold], assumption, rule guarded_wait_effect, assumption)
      (use sp w labels(3) neq in simp_all)
  then show ?thesis
    by (rule ensures_mono) (use e1(1) e2(1) neq in \<open>auto simp: Y_def X_def simp del: One_nat_def\<close>)
qed

lemma condition_is_flag:
  assumes closed: "closed_net (view net)" and fresh: "off \<notin> places net" "on \<notin> places net" "off \<noteq> on" "skip \<notin> transitions net"
    and ds: "set ds \<subseteq> transitions net" "w \<notin> set ds" and sp: "sp \<in> places net" "ep \<in> places net"
  shows "flag_net off on (set ds) (skip_edge on skip sp ep (insert_arc_tp w off (insert_arc_pt off w
    (set_arcs off on ds (insert_tokens off 1 (insert_place on (insert_place off (view net))))))))"
proof -
  have zero: "pn_pre (view net) t off = 0" "pn_post (view net) t off = 0" "pn_pre (view net) t on = 0" "pn_post (view net) t on = 0"
    "pn_tokens (view net) off = 0" "pn_tokens (view net) on = 0" for t
    using closed fresh(1,2) no_dangling_tokens by (auto simp: closed_net_def)
  have neq: "sp \<noteq> off" "sp \<noteq> on" "ep \<noteq> off" "ep \<noteq> on" "off \<noteq> sp" "on \<noteq> sp" "off \<noteq> ep" "on \<noteq> ep" "on \<noteq> off" "skip \<notin> set ds"
    using fresh ds sp by auto
  show ?thesis unfolding flag_net_def skip_edge_def by (auto simp: zero neq fresh(3) ds(2))
qed

end

end
