(* ===== verification/Sync_Properties.thy ===== *)
theory Sync_Properties
  imports Condition_Effects
begin

text \<open>
  The properties of the synchronization primitives, for every net library that keeps the contract
  of \<open>Petri_Net_Interface\<close>: mutual exclusion in the net of a mutex, the place of a thread between its
  spawn and its join, and the net of a condition variable. Each is applied once to a concrete net.
\<close>

section \<open>The properties\<close>

text \<open>A net with two places and an unlocked mutex, for the instances below.\<close>

definition mutex_net :: simple_net where
  "mutex_net = \<lparr>sn_places = [(''A'', 1), (''B'', 0), (''D'', 0), (''MUTEX_0'', 1)], sn_transitions = []\<rparr>"

definition mutex_store :: "(string, string) store" where
  "mutex_store = store_new\<lparr>mutexes := [\<lparr>mutex_place = ''MUTEX_0'', deref_mut = []\<rparr>]\<rparr>"

lemma mutex_net_facts:
  "pn_places (sn_view mutex_net) = {''A'', ''B'', ''D'', ''MUTEX_0''}" "pn_transitions (sn_view mutex_net) = {}"
  "guarded ''MUTEX_0'' {''B''} (sn_view mutex_net)" "mutexes mutex_store = [\<lparr>mutex_place = ''MUTEX_0'', deref_mut = []\<rparr>]"
proof -
  show "pn_places (sn_view mutex_net) = {''A'', ''B'', ''D'', ''MUTEX_0''}" "pn_transitions (sn_view mutex_net) = {}"
    by (auto simp: mutex_net_def sn_places_of_def sn_transitions_of_def hm_get_def split: if_splits)
  then show "guarded ''MUTEX_0'' {''B''} (sn_view mutex_net)"
    by (intro guarded.no_transitions) (simp_all add: mutex_net_def sn_tokens_def multiplicity_def hm_get_def)
qed (simp add: mutex_store_def)

text \<open>
  C6. The translation of \<open>Mutex::lock\<close> keeps mutual exclusion. In a net put together around the mutex,
  for a call from outside of the critical sections into one, the handler adds one transition, which
  can fire exactly if the thread is at the call and the mutex has its token; the destination holds a
  guard of this mutex, and in every reachable marking of the new net there is one token on the mutex
  and its critical sections together, so no two threads are in a critical section.
\<close>

theorem lock_keeps_mutual_exclusion:
  assumes "labelled_petri_net N view place_label transition_label"
    "r < length (mutexes s)" "M = mutex_place (mutexes s ! r)" "guarded M C (view net)"
    "get_start_end_place places = (p, q)" "{p, q, M} \<subseteq> pn_places (view net)" "p \<noteq> M" "p \<notin> C" "q \<in> C"
    "extract_nth_argument_as_place args 0 = Some self_ref" "get_mutex self_ref memory = Inr r"
    "fst (foreign_call_transition_labels name index) \<notin> transition_label ` pn_transitions (view net)"
  shows "\<exists>t net'. mutex_call_lock N name index args dest places net memory s =
      Inr (net', link_mutex_guard dest (guard_new r) memory) \<and>
    view net' = insert_arc_pt M t (insert_edge t p q (view net)) \<and>
    (\<forall>m. enabled (view net') m t \<longleftrightarrow> 0 < m p \<and> 0 < m M) \<and> guarded M C (view net') \<and>
    (\<forall>m. reachable (view net') m \<longrightarrow> m M + (\<Sum>c \<in> C. m c) = 1)"
proof -
  have "p \<in> pn_places (view net)" "q \<in> pn_places (view net)" "mutex_place (mutexes s ! r) \<in> pn_places (view net)"
    "mutex_place (mutexes s ! r) \<noteq> p"
    using assms(3,6,7) by simp_all
  note effect = labelled_petri_net.lock_effect [OF assms(1,5) this(1,2) assms(10,11,2) this(3,4) assms(12)]
  obtain t net' where t: "mutex_call_lock N name index args dest places net memory s =
      Inr (net', link_mutex_guard dest (guard_new r) memory)" "fresh_transition (view net) t"
    "view net' = insert_arc_pt M t (insert_edge t p q (view net))"
    using effect [of dest] unfolding ensures_returns fresh_transition_def assms(3) by fast
  have guarded: "guarded M C (view net')" unfolding t(3) by (rule guarded.lock) fact+
  have "enabled (view net') m t \<longleftrightarrow> 0 < m p \<and> 0 < m M" for m
    using t(2) assms(7) by (auto simp: enabled_def t(3) fresh_transition_def)
  then show ?thesis using t(1,3) guarded guarded_exclusive [OF guarded] by blast
qed

theorem lock_keeps_mutual_exclusion_witness:
  "\<exists>t net'. mutex_call_lock simple_netcrab ''std::sync::Mutex::<T>::lock'' 0 [Move (local_place 3)] (local_place 2)
      (Basic_Places ''A'' ''B'') mutex_net (link_mutex (local_place 3) 0 memory_default) mutex_store =
      Inr (net', link_mutex_guard (local_place 2) (guard_new 0) (link_mutex (local_place 3) 0 memory_default)) \<and>
    sn_view net' = insert_arc_pt ''MUTEX_0'' t (insert_edge t ''A'' ''B'' (sn_view mutex_net)) \<and>
    (\<forall>m. enabled (sn_view net') m t \<longleftrightarrow> 0 < m ''A'' \<and> 0 < m ''MUTEX_0'') \<and> guarded ''MUTEX_0'' {''B''} (sn_view net') \<and>
    (\<forall>m. reachable (sn_view net') m \<longrightarrow> m ''MUTEX_0'' + (\<Sum>c \<in> {''B''}. m c) = 1)"
  by (rule lock_keeps_mutual_exclusion [OF simple.labelled_petri_net_axioms, where self_ref = "local_place 3"])
    (simp_all only: mutex_net_facts mutex_store_def, simp_all add: extract_nth_argument_as_place_def get_mutex_def
      get_linked_value_def link_mutex_def unpack_mutex_def)

text \<open>
  C7. Dropping a guard gives the mutex back. When the drop transition leads out of a critical section
  and the dropped place is linked to a guard of the mutex, the handler adds the arc to the mutex, the
  net is again one that was put together around it, and mutual exclusion holds in it.
\<close>

theorem guard_drop_keeps_mutual_exclusion:
  assumes "labelled_petri_net N view place_label transition_label"
    "guarded M C P" "fresh_transition P t" "view net = insert_edge t p q P" "p \<in> C" "q \<notin> C" "q \<noteq> M" "M \<in> pn_places P"
    "get_mutex_guard place memory = Inr g" "guard_mutex g < length (mutexes s)" "M = mutex_place (mutexes s ! guard_mutex g)"
  shows "\<exists>net'. handle_mutex_guard_drop N place t net memory s = Inr net' \<and>
    view net' = insert_arc_tp t M (insert_edge t p q P) \<and> guarded M C (view net') \<and>
    (\<forall>m. reachable (view net') m \<longrightarrow> m M + (\<Sum>c \<in> C. m c) = 1)"
proof -
  have "mutex_place (mutexes s ! guard_mutex g) \<in> pn_places (view net)" "t \<in> pn_transitions (view net)"
    "pn_post (view net) t (mutex_place (mutexes s ! guard_mutex g)) = 0"
    using assms(3,4,7,8,11) by (auto simp: fresh_transition_def)
  note effect = labelled_petri_net.guard_drop_effect [OF assms(1,9,10) this]
  then obtain net' where net': "handle_mutex_guard_drop N place t net memory s = Inr net'"
    "view net' = insert_arc_tp t M (insert_edge t p q P)"
    unfolding ensures_returns assms(4,11) by blast
  have guarded: "guarded M C (view net')" unfolding net'(2) by (rule guarded.unlock) fact+
  then show ?thesis using net' guarded_exclusive [OF guarded] by blast
qed

theorem guard_drop_keeps_mutual_exclusion_witness:
  "\<exists>net'. handle_mutex_guard_drop simple_netcrab (local_place 2) ''DROP'' (mutex_net\<lparr>sn_transitions := [(''DROP'', [(''B'', 1)], [(''D'', 1)])]\<rparr>)
      (link_mutex_guard (local_place 2) (guard_new 0) memory_default) mutex_store = Inr net' \<and>
    sn_view net' = insert_arc_tp ''DROP'' ''MUTEX_0'' (insert_edge ''DROP'' ''B'' ''D'' (sn_view mutex_net)) \<and>
    guarded ''MUTEX_0'' {''B''} (sn_view net') \<and>
    (\<forall>m. reachable (sn_view net') m \<longrightarrow> m ''MUTEX_0'' + (\<Sum>c \<in> {''B''}. m c) = 1)"
proof (rule guard_drop_keeps_mutual_exclusion [OF simple.labelled_petri_net_axioms mutex_net_facts(3), where g = "guard_new 0"])
  show "sn_view (mutex_net\<lparr>sn_transitions := [(''DROP'', [(''B'', 1)], [(''D'', 1)])]\<rparr>) =
      insert_edge ''DROP'' ''B'' ''D'' (sn_view mutex_net)"
    by (auto simp: sn_view_def simple_net_defs mutex_net_def pnet_defs fun_eq_iff hm_get_def split: if_splits)
qed (simp_all only: mutex_net_facts mutex_store_def, simp_all add: fresh_transition_def simple_net_defs mutex_net_def fun_eq_iff
  guard_new_def get_mutex_guard_def get_linked_value_def link_mutex_guard_def unpack_mutex_guard_def)

text \<open>
  C16. A thread runs between its spawn and its join: preparing a joined thread adds two new places, the
  start place with an arc from the spawn transition and the end place with an arc to the join
  transition, and changes nothing else.
\<close>

theorem thread_runs_between_spawn_and_join:
  assumes "labelled_petri_net N view place_label transition_label" "closed_net (view net)"
    "spawn_transition th \<in> pn_transitions (view net)" "join_transition th = Some j" "j \<in> pn_transitions (view net)"
    "start_place_label (thread_index th) \<notin> place_label ` pn_places (view net)"
    "end_place_label (thread_index th) \<notin> place_label ` pn_places (view net)"
  shows "\<exists>p q net'. prepare_for_translation N th net = Inr ((thread_def_id th, p, q), net') \<and>
    p \<notin> pn_places (view net) \<and> q \<notin> pn_places (view net) \<and> p \<noteq> q \<and>
    view net' = insert_arc_pt q j (insert_arc_tp (spawn_transition th) p (insert_place q (insert_place p (view net))))"
  using labelled_petri_net.prepare_effect [OF assms] by (auto simp: ensures_returns)

definition spawned_thread :: "string thread" where
  "spawned_thread = \<lparr>spawn_transition = ''SPAWN'', thread_def_id = 5, thread_aggregate = [], join_transition = Some ''JOIN'', thread_index = 0\<rparr>"

definition spawn_join_net :: simple_net where
  "spawn_join_net = mutex_net\<lparr>sn_transitions := [(''SPAWN'', [(''A'', 1)], [(''B'', 1)]), (''JOIN'', [(''B'', 1)], [(''D'', 1)])]\<rparr>"

theorem thread_runs_between_spawn_and_join_witness:
  "\<exists>p q net'. prepare_for_translation simple_netcrab spawned_thread spawn_join_net = Inr ((thread_def_id spawned_thread, p, q), net') \<and>
    p \<notin> pn_places (sn_view spawn_join_net) \<and> q \<notin> pn_places (sn_view spawn_join_net) \<and> p \<noteq> q \<and>
    sn_view net' = insert_arc_pt q ''JOIN'' (insert_arc_tp (spawn_transition spawned_thread) p (insert_place q (insert_place p (sn_view spawn_join_net))))"
  by (rule thread_runs_between_spawn_and_join [OF simple.labelled_petri_net_axioms])
    (auto simp: spawned_thread_def closed_net_def spawn_join_net_def mutex_net_def simple_net_defs hm_get_def
      start_place_label_def end_place_label_def split: if_splits)

text \<open>
  C17. The net of a condition variable: one token on \<open>wait_enabled\<close>; \<open>wait_start\<close> takes it, \<open>lost_signal\<close>
  consumes a notification while it is there, and \<open>notify_received\<close> consumes a notification and puts it
  back. The labels are new, so nothing else of the net changes.
\<close>

theorem condvar_net:
  assumes "labelled_petri_net N view place_label transition_label"
    "fst (condvar_place_labels index) \<notin> place_label ` pn_places (view net)"
    "snd (condvar_place_labels index) \<notin> place_label ` pn_places (view net)"
    "set [fst (condvar_transition_labels index), fst (snd (condvar_transition_labels index)),
      snd (snd (condvar_transition_labels index))] \<inter> transition_label ` pn_transitions (view net) = {}"
  shows "\<exists>cv net' w lost. condvar_new N index net = Inr (cv, net') \<and> \<not> already_linked_to_call cv \<and>
    w \<notin> pn_places (view net) \<and> notify cv \<notin> pn_places (view net) \<and> w \<noteq> notify cv \<and>
    distinct [wait_start cv, lost, notify_received cv] \<and>
    pn_places (view net') = insert (notify cv) (insert w (pn_places (view net))) \<and>
    pn_transitions (view net') = {wait_start cv, lost, notify_received cv} \<union> pn_transitions (view net) \<and>
    pn_tokens (view net') = (pn_tokens (view net))(w := 1) \<and>
    pn_pre (view net') = (pn_pre (view net))(wait_start cv := (\<lambda>_. 0)(w := 1),
      lost := (\<lambda>_. 0)(w := 1, notify cv := 1), notify_received cv := (\<lambda>_. 0)(notify cv := 1)) \<and>
    pn_post (view net') = (pn_post (view net))(lost := (\<lambda>_. 0)(w := 1), notify_received cv := (\<lambda>_. 0)(w := 1))"
  using labelled_petri_net.condvar_new_effect [OF assms] by (auto simp: ensures_returns)

theorem condvar_net_witness:
  "\<exists>cv net' w lost. condvar_new simple_netcrab 0 mutex_net = Inr (cv, net') \<and> \<not> already_linked_to_call cv \<and>
    w \<notin> pn_places (sn_view mutex_net) \<and> notify cv \<notin> pn_places (sn_view mutex_net) \<and> w \<noteq> notify cv \<and>
    distinct [wait_start cv, lost, notify_received cv] \<and>
    pn_places (sn_view net') = insert (notify cv) (insert w (pn_places (sn_view mutex_net))) \<and>
    pn_transitions (sn_view net') = {wait_start cv, lost, notify_received cv} \<union> pn_transitions (sn_view mutex_net) \<and>
    pn_tokens (sn_view net') = (pn_tokens (sn_view mutex_net))(w := 1) \<and>
    pn_pre (sn_view net') = (pn_pre (sn_view mutex_net))(wait_start cv := (\<lambda>_. 0)(w := 1),
      lost := (\<lambda>_. 0)(w := 1, notify cv := 1), notify_received cv := (\<lambda>_. 0)(notify cv := 1)) \<and>
    pn_post (sn_view net') = (pn_post (sn_view mutex_net))(lost := (\<lambda>_. 0)(w := 1), notify_received cv := (\<lambda>_. 0)(w := 1))"
  by (rule condvar_net [OF simple.labelled_petri_net_axioms])
    (simp_all only: mutex_net_facts condvar_place_labels_def, simp_all)

section \<open>Conditions\<close>

definition waiting_net :: simple_net where
  "waiting_net = mutex_net\<lparr>sn_transitions := [(''WAIT_START'', [], []), (''NOTIFY_RECEIVED'', [], [])]\<rparr>"

definition waiting_store :: "(string, string) store" where
  "waiting_store = mutex_store\<lparr>condvars := [\<lparr>wait_start = ''WAIT_START'', notify = ''D'', notify_received = ''NOTIFY_RECEIVED'',
     already_linked_to_call = False\<rparr>]\<rparr>"

definition waiting_memory :: memory where
  "waiting_memory = link_condvar (local_place 3) 0 (link_mutex_guard (local_place 4) (guard_new 0) memory_default)"

text \<open>
  C18. A call of \<open>Condvar::wait\<close> gives the mutex of its guard back and takes it again: \<open>wait_start\<close> gets an
  arc from the place of the call and one to the mutex, \<open>notify_received\<close> one from the mutex and one to
  the place after the call; the destination holds the same guard, the condition variable is marked,
  and the task that links the wait to the conditions is returned.
\<close>

theorem wait_call_net:
  assumes "labelled_petri_net N view place_label transition_label"
    "extract_nth_argument_as_place args 0 = Some self" "get_condvar self memory = Inr c"
    "extract_nth_argument_as_place args 1 = Some guard" "get_mutex_guard guard memory = Inr g"
    "c < length (condvars s)" "cv = condvars s ! c" "\<not> already_linked_to_call cv"
    "guard_mutex g < length (mutexes s)" "M = mutex_place (mutexes s ! guard_mutex g)"
    "get_start_end_place places = (p, q)" "{p, q, M} \<subseteq> pn_places (view net)"
    "{wait_start cv, notify_received cv} \<subseteq> pn_transitions (view net)" "wait_start cv \<noteq> notify_received cv"
    "pn_pre (view net) (wait_start cv) p = 0" "pn_post (view net) (notify_received cv) q = 0"
    "pn_post (view net) (wait_start cv) M = 0" "pn_pre (view net) (notify_received cv) M = 0"
  shows "\<exists>net' memory'. call_wait N name index args dest places net memory s =
      Inr (link_mutex_to_condvar index p q (wait_start cv), net', memory',
        s\<lparr>condvars := (condvars s)[c := cv\<lparr>already_linked_to_call := True\<rparr>]\<rparr>) \<and>
    get_mutex_guard dest memory' = Inr g \<and>
    view net' = insert_arc_pt M (notify_received cv) (insert_arc_tp (wait_start cv) M
      (insert_arc_tp (notify_received cv) q (insert_arc_pt p (wait_start cv) (view net))))"
proof -
  have in_net: "p \<in> pn_places (view net)" "q \<in> pn_places (view net)" "M \<in> pn_places (view net)"
    "wait_start cv \<in> pn_transitions (view net)" "notify_received cv \<in> pn_transitions (view net)" using assms(12,13) by auto
  obtain net' where net': "link_to_wait_call N c p q g net s =
      Inr (net', s\<lparr>condvars := (condvars s)[c := cv\<lparr>already_linked_to_call := True\<rparr>]\<rparr>)"
    "view net' = insert_arc_pt M (notify_received cv) (insert_arc_tp (wait_start cv) M
      (insert_arc_tp (notify_received cv) q (insert_arc_pt p (wait_start cv) (view net))))"
    using labelled_petri_net.wait_effect [OF assms(1,6-10) in_net assms(14-18)] by (auto simp: ensures_returns)
  have places: "get_start_end_place (ignore_cleanup_place places) = (p, q)" using assms(11) by (cases places) auto
  obtain memory' where m: "link_place_to_same_value dest guard memory = Inr memory'" "get_mutex_guard dest memory' = Inr g"
    using assms(5) by (auto simp: link_place_to_same_value_def get_mutex_guard_def get_linked_value_def ok_or_def split: option.splits)
  show ?thesis
    by (rule exI [of _ net'], rule exI [of _ memory'])
      (use assms(2-7) net' m places in \<open>simp add: call_wait_def ok_or_def deref_cell_def Let_def\<close>)
qed

theorem wait_call_net_witness:
  "\<exists>net' memory'. call_wait simple_netcrab ''std::sync::Condvar::wait'' 0 [Copy (local_place 3), Move (local_place 4)] (local_place 5)
      (Basic_Places ''A'' ''B'') waiting_net waiting_memory waiting_store =
      Inr (link_mutex_to_condvar 0 ''A'' ''B'' ''WAIT_START'', net', memory',
        waiting_store\<lparr>condvars := [(condvars waiting_store ! 0)\<lparr>already_linked_to_call := True\<rparr>]\<rparr>) \<and>
    get_mutex_guard (local_place 5) memory' = Inr (guard_new 0) \<and>
    sn_view net' = insert_arc_pt ''MUTEX_0'' ''NOTIFY_RECEIVED'' (insert_arc_tp ''WAIT_START'' ''MUTEX_0''
      (insert_arc_tp ''NOTIFY_RECEIVED'' ''B'' (insert_arc_pt ''A'' ''WAIT_START'' (sn_view waiting_net))))"
proof -
  let ?cv = "condvars waiting_store ! 0"
  have cv: "wait_start ?cv = ''WAIT_START''" "notify_received ?cv = ''NOTIFY_RECEIVED''" "\<not> already_linked_to_call ?cv"
    "condvars waiting_store = [?cv]" "mutexes waiting_store = [\<lparr>mutex_place = ''MUTEX_0'', deref_mut = []\<rparr>]"
    by (simp_all add: waiting_store_def mutex_store_def)
  have args: "extract_nth_argument_as_place [Copy (local_place 3), Move (local_place 4)] 0 = Some (local_place 3)"
    "extract_nth_argument_as_place [Copy (local_place 3), Move (local_place 4)] 1 = Some (local_place 4)"
    "get_condvar (local_place 3) waiting_memory = Inr 0" "get_mutex_guard (local_place 4) waiting_memory = Inr (guard_new 0)"
    by code_simp+
  have net: "{''A'', ''B'', ''MUTEX_0''} \<subseteq> pn_places (sn_view waiting_net)"
    "{''WAIT_START'', ''NOTIFY_RECEIVED''} \<subseteq> pn_transitions (sn_view waiting_net)"
    "pn_pre (sn_view waiting_net) t p = 0" "pn_post (sn_view waiting_net) t p = 0" for t p
    by (auto simp: waiting_net_def mutex_net_def simple_net_defs hm_get_def split: option.splits if_splits)
  have less: "0 < length (condvars waiting_store)" "guard_mutex (guard_new 0) < length (mutexes waiting_store)"
    by (simp_all add: waiting_store_def mutex_store_def guard_new_def)
  have M: "''MUTEX_0'' = mutex_place (mutexes waiting_store ! guard_mutex (guard_new 0))"
    by (simp add: waiting_store_def mutex_store_def guard_new_def)
  have one: "(condvars waiting_store)[0 := x] = [x]" for x by (simp add: waiting_store_def)
  show ?thesis
    using wait_call_net [OF simple.labelled_petri_net_axioms args(1,3,2,4) less(1) refl cv(3) less(2) M, of "Basic_Places ''A'' ''B''" "''A''" "''B''" waiting_net]
      net cv(1,2) by (simp add: one)
qed

text \<open>
  C19. The condition of a condition variable can be set once. After the linking there is one token on
  \<open>condition_not_set\<close> and \<open>condition_set\<close> together in every reachable marking; a transition that sets the
  value of the mutex can fire only while the condition is not set and sets it; and no transition ever
  resets it. So when a program sets the value a second time, its transition is blocked for ever.
\<close>

theorem condition_is_set_once:
  assumes "labelled_petri_net N view place_label transition_label" "closed_net (view net)"
    "deref_mut mutex = ds" "ds \<noteq> []" "distinct ds" "set ds \<subseteq> pn_transitions (view net)"
    "w \<in> pn_transitions (view net)" "w \<notin> set ds" "sp \<in> pn_places (view net)" "ep \<in> pn_places (view net)"
    "fst (condition_place_labels index) \<notin> place_label ` pn_places (view net)"
    "snd (condition_place_labels index) \<notin> place_label ` pn_places (view net)"
    "wait_skip_label index \<notin> transition_label ` pn_transitions (view net)"
  shows "\<exists>net' off on. link_to_condvar N mutex index sp ep w net = Inr net' \<and> off \<noteq> on \<and>
    {off, on} \<subseteq> pn_places (view net') \<and>
    (\<forall>m. reachable (view net') m \<longrightarrow> m off + m on = 1 \<and>
      (\<forall>t. enabled (view net') m t \<longrightarrow>
        (t \<in> set ds \<longrightarrow> m on = 0 \<and> fire (view net') t m on = 1) \<and> (m on = 1 \<longrightarrow> fire (view net') t m on = 1)))"
proof -
  obtain net' off on skip where net': "link_to_condvar N mutex index sp ep w net = Inr net'"
    and fresh: "off \<notin> pn_places (view net)" "on \<notin> pn_places (view net)" "off \<noteq> on" "skip \<notin> pn_transitions (view net)"
    and view: "view net' = skip_edge on skip sp ep (insert_arc_tp w off (insert_arc_pt off w
      (set_arcs off on ds (insert_tokens off 1 (insert_place on (insert_place off (view net)))))))"
    using labelled_petri_net.condition_effect [OF assms] by (auto simp: ensures_returns)
  have flag: "flag_net off on (set ds) (view net')"
    unfolding view by (rule labelled_petri_net.condition_is_flag [OF assms(1,2) fresh assms(6,8-10)])
  have step: "(t \<in> set ds \<longrightarrow> m on = 0 \<and> fire (view net') t m on = 1) \<and> (m on = 1 \<longrightarrow> fire (view net') t m on = 1)"
    if "reachable (view net') m" "enabled (view net') m t" for m t
    using flag_reachable [OF flag that(1)] flag_step [OF flag that(2)] by (auto split: if_splits)
  have "m off + m on = 1 \<and> (\<forall>t. enabled (view net') m t \<longrightarrow>
      (t \<in> set ds \<longrightarrow> m on = 0 \<and> fire (view net') t m on = 1) \<and> (m on = 1 \<longrightarrow> fire (view net') t m on = 1))"
    if "reachable (view net') m" for m
    using flag_reachable [OF flag that] step [OF that] by blast
  moreover have "{off, on} \<subseteq> pn_places (view net')"
    by (simp add: view skip_edge_def)
  ultimately show ?thesis using net' fresh(3) by blast
qed

theorem condition_is_set_once_witness:
  "\<exists>net' off on. link_to_condvar simple_netcrab \<lparr>mutex_place = ''MUTEX_0'', deref_mut = [''SPAWN'']\<rparr> 0 ''A'' ''B'' ''JOIN'' spawn_join_net = Inr net' \<and>
    off \<noteq> on \<and> {off, on} \<subseteq> pn_places (sn_view net') \<and>
    (\<forall>m. reachable (sn_view net') m \<longrightarrow> m off + m on = 1 \<and>
      (\<forall>t. enabled (sn_view net') m t \<longrightarrow>
        (t \<in> set [''SPAWN''] \<longrightarrow> m on = 0 \<and> fire (sn_view net') t m on = 1) \<and> (m on = 1 \<longrightarrow> fire (sn_view net') t m on = 1)))"
  by (rule condition_is_set_once [OF simple.labelled_petri_net_axioms])
    (auto simp: closed_net_def spawn_join_net_def mutex_net_def simple_net_defs hm_get_def condition_place_labels_def
      wait_skip_label_def split: if_splits)

section \<open>One wait call\<close>



section \<open>One join call\<close>

text \<open>
  C34. A thread is joined at most once: once a \<open>join\<close> on its handle was translated, its join transition
  is the transition of this call, and a further \<open>join\<close> panics.
\<close>

theorem second_join_panics:
  assumes "call_join N name index args places net m s = Inr (net1, s1)"
    "extract_nth_argument_as_place args 0 = Some self" "get_join_handle self m = Inr r"
    "extract_nth_argument_as_place args' 0 = Some self'" "get_join_handle self' m' = Inr r"
    "call_foreign_function N name' index' (ignore_cleanup_place places') net' = Inr (ts, net2)"
  shows "(\<exists>ts1. call_foreign_function N name index (ignore_cleanup_place places) net = Inr (ts1, net1) \<and>
      join_transition (thread_cells s1 ! r) = Some (get_default ts1)) \<and>
    call_join N name' index' args' places' net' m' s1 = Inl JoinTransitionSetTwice"
proof -
  from assms(1-3) obtain ts1 where ts1: "call_foreign_function N name index (ignore_cleanup_place places) net = Inr (ts1, net1)"
    "r < length (thread_cells s1)" "join_transition (thread_cells s1 ! r) = Some (get_default ts1)"
    by (auto simp: call_join_def ok_or_def set_join_transition_def Let_def split: option.splits)
  with assms(4-6) show ?thesis
    by (simp add: call_join_def ok_or_def set_join_transition_def Let_def deref_cell_def)
qed

theorem second_join_panics_witness:
  "\<exists>net1 s1. call_join simple_netcrab ''std::thread::JoinHandle::<T>::join'' 0 [Move (local_place 3)] (Basic_Places ''A'' ''B'') mutex_net
      (link_join_handle (local_place 3) 0 memory_default)
      (store_new\<lparr>thread_cells := [spawned_thread\<lparr>join_transition := None\<rparr>]\<rparr>) = Inr (net1, s1) \<and>
    call_join simple_netcrab ''std::thread::JoinHandle::<T>::join'' 1 [Move (local_place 3)] (Basic_Places ''A'' ''B'') mutex_net
      (link_join_handle (local_place 3) 0 memory_default) s1 = Inl JoinTransitionSetTwice"
proof -
  let ?m = "link_join_handle (local_place 3) 0 memory_default"
  have "case call_join simple_netcrab ''std::thread::JoinHandle::<T>::join'' 0 [Move (local_place 3)] (Basic_Places ''A'' ''B'') mutex_net
      ?m (store_new\<lparr>thread_cells := [spawned_thread\<lparr>join_transition := None\<rparr>]\<rparr>) of Inl _ \<Rightarrow> False | Inr _ \<Rightarrow> True" by code_simp
  then obtain net1 s1 where first: "call_join simple_netcrab ''std::thread::JoinHandle::<T>::join'' 0 [Move (local_place 3)]
      (Basic_Places ''A'' ''B'') mutex_net ?m (store_new\<lparr>thread_cells := [spawned_thread\<lparr>join_transition := None\<rparr>]\<rparr>) = Inr (net1, s1)"
    by (auto split: sum.splits)
  have args: "extract_nth_argument_as_place [Move (local_place 3)] 0 = Some (local_place 3)" "get_join_handle (local_place 3) ?m = Inr 0"
    by code_simp+
  have "case call_foreign_function simple_netcrab ''std::thread::JoinHandle::<T>::join'' 1 (ignore_cleanup_place (Basic_Places ''A'' ''B''))
      mutex_net of Inl _ \<Rightarrow> False | Inr _ \<Rightarrow> True" by code_simp
  then obtain ts net2 where "call_foreign_function simple_netcrab ''std::thread::JoinHandle::<T>::join'' 1
      (ignore_cleanup_place (Basic_Places ''A'' ''B'')) mutex_net = Inr (ts, net2)" by (auto split: sum.splits)
  from second_join_panics [OF first args args this] first show ?thesis by blast
qed

end
