(* ===== verification/Tracking.thy ===== *)
theory Tracking
  imports Translator Sync_Properties Examples
begin

text \<open>
  Following the synchronization variables: through moves and references inside a function, into and
  out of aggregates, and into the closure of a spawned thread. The memory of a function is the store
  of \<open>Memory\<close>; the assignments are those of the visitor.
\<close>

section \<open>Values of places\<close>

lemma lookup_eq [simp]: "ok_or PlaceNotLinked (hm_get (memory_map m) p) = get_linked_value p m"
  by (simp add: get_linked_value_def)

text \<open>All ways of linking a place insert its value into the map.\<close>

definition link_value :: "mir_place \<Rightarrow> val \<Rightarrow> memory \<Rightarrow> memory" where
  "link_value p v m = m\<lparr>memory_map := hm_insert p v (memory_map m)\<rparr>"

lemma get_linked_value_link [simp]: "get_linked_value x (link_value q v m) = (if q = x then Inr v else get_linked_value x m)"
  by (simp add: get_linked_value_def ok_or_def link_value_def)

lemma link_value_simps:
  "link_mutex p r m = link_value p (MutexValue r) m" "link_mutex_guard p g m = link_value p (MutexGuardValue g) m"
  "link_join_handle p t m = link_value p (JoinHandleValue t) m" "link_condvar p c m = link_value p (CondvarValue c) m"
  by (simp_all add: link_mutex_def link_mutex_guard_def link_join_handle_def link_condvar_def link_value_def)

lemma get_linked_value_default [simp]: "get_linked_value x memory_default = Inl PlaceNotLinked"
  by (simp add: get_linked_value_def ok_or_def memory_default_def)

lemma linked_iff:
  "hm_get (memory_map m) p = Some v \<longleftrightarrow> get_linked_value p m = Inr v"
  "hm_get (memory_map m) p = None \<longleftrightarrow> get_linked_value p m = Inl PlaceNotLinked"
  by (auto simp: get_linked_value_def ok_or_def split: option.splits)

lemma link_place_effect:
  "link_place_to_same_value q p m = Inr m' \<longleftrightarrow>
   (\<exists>v. get_linked_value p m = Inr v \<and> m' = link_value q v m)"
  by (auto simp: link_place_to_same_value_def link_value_def)

lemma linked_values_nth:
  "linked_values ps m = Inr vs \<Longrightarrow> length vs = length ps \<and> (\<forall>i < length ps. get_linked_value (ps ! i) m = Inr (vs ! i))"
  by (induction ps arbitrary: vs) (auto simp: nth_Cons split: nat.splits)

lemma link_aggregate_effect:
  "link_aggregate p vs m = Inr m' \<longleftrightarrow> get_linked_value p m = Inl PlaceNotLinked \<and>
   m' = link_value p (AggregateValue vs) m"
  by (auto simp: link_aggregate_def linked_iff link_value_def split: option.splits)

lemma create_aggregate_effect:
  assumes "create_aggregate p ps m = Inr m'"
  obtains vs where "m' = link_value p (AggregateValue vs) m" "length vs = length ps"
    "\<And>i. i < length ps \<Longrightarrow> get_linked_value (ps ! i) m = Inr (vs ! i)"
  using assms linked_values_nth [of ps m] unfolding create_aggregate_def by (auto simp: link_aggregate_effect)

lemma link_field_effect:
  "get_linked_value p m = Inr (AggregateValue vs) \<Longrightarrow> link_field_in_aggregate q p i m = Inr m' \<longleftrightarrow>
   i < length vs \<and> get_linked_value q m = Inl PlaceNotLinked \<and> m' = link_value q (vs ! i) m"
  by (auto simp: link_field_in_aggregate_def unpack_aggregate_def linked_iff link_value_def split: option.splits if_splits)

text \<open>
  C25. Aggregates give back what was put in: when an aggregate is created from places and one of its
  fields is linked to a new place, the new place has the value that the place of this field had, and
  no other place changes.
\<close>

theorem aggregate_round_trip:
  assumes "create_aggregate p ps m = Inr m1" "i < length ps" "q \<noteq> p" "get_linked_value q m = Inl PlaceNotLinked"
  shows "\<exists>m2. link_field_in_aggregate q p i m1 = Inr m2 \<and> get_linked_value q m2 = get_linked_value (ps ! i) m \<and>
    (\<forall>x. x \<noteq> p \<longrightarrow> x \<noteq> q \<longrightarrow> get_linked_value x m2 = get_linked_value x m)"
proof -
  from assms(1) obtain vs where vs: "m1 = link_value p (AggregateValue vs) m"
    "length vs = length ps" "\<And>i. i < length ps \<Longrightarrow> get_linked_value (ps ! i) m = Inr (vs ! i)"
    by (rule create_aggregate_effect) blast
  have "get_linked_value p m1 = Inr (AggregateValue vs)" by (simp add: vs(1))
  from link_field_effect [OF this, of q i] show ?thesis using vs(2,3) assms(2-4) by (simp add: vs(1))
qed

theorem aggregate_round_trip_witness:
  "\<exists>m1 m2. create_aggregate (local_place 4) [local_place 1, local_place 2]
      (link_mutex (local_place 1) 0 (link_condvar (local_place 2) 3 memory_default)) = Inr m1 \<and>
    link_field_in_aggregate (local_place 5) (local_place 4) 1 m1 = Inr m2 \<and>
    get_linked_value (local_place 5) m2 = Inr (CondvarValue 3)"
proof -
  let ?m = "link_mutex (local_place 1) 0 (link_condvar (local_place 2) 3 memory_default)"
  obtain m1 where m1: "create_aggregate (local_place 4) [local_place 1, local_place 2] ?m = Inr m1"
    by (simp add: create_aggregate_def link_aggregate_effect link_value_simps)
  from aggregate_round_trip [OF this, of 1 "local_place 5"] m1 show ?thesis by (auto simp: link_value_simps)
qed

section \<open>Moves\<close>

text \<open>A chain of assignments \<open>q1 = move p; q2 = move q1; \<dots>\<close> of the function that is translated.\<close>

fun move_along :: "rustc \<Rightarrow> mir_place \<Rightarrow> mir_place list \<Rightarrow> ('n, 'p, 't) step" where
  "move_along tcx p [] st = Inr st"
| "move_along tcx p (q # qs) st = and_then (visit_assign tcx q (Use (Move p)) st) (move_along tcx q qs)"

lemma visit_move:
  assumes "call_stack st = push f rest" "get_linked_value p (fn_memory f) = Inr v"
    "check_if_sync_variable q (fn_def_id f) tcx" "\<not> is_indirect tcx p"
  shows "visit_assign tcx q (Use (Move p)) st = Inr (st\<lparr>call_stack := push (f\<lparr>fn_memory :=
    link_value q v (fn_memory f)\<rparr>) rest\<rparr>)"
proof -
  have "link_place_to_same_value q p (fn_memory f) =
      Inr (link_value q v (fn_memory f))"
    using assms(2) by (simp add: link_place_effect)
  then show ?thesis using assms by (simp add: visit_assign_def link_if_sync_variable_def)
qed

lemma moves_keep_value:
  assumes "call_stack st = push f rest" "get_linked_value p (fn_memory f) = Inr v" "\<not> is_indirect tcx p"
    "\<forall>q \<in> set qs. check_if_sync_variable q (fn_def_id f) tcx \<and> \<not> is_indirect tcx q"
  shows "\<exists>m. move_along tcx p qs st = Inr (st\<lparr>call_stack := push (f\<lparr>fn_memory := m\<rparr>) rest\<rparr>) \<and>
    get_linked_value (last (p # qs)) m = Inr v \<and> (\<forall>x. x \<notin> set qs \<longrightarrow> get_linked_value x m = get_linked_value x (fn_memory f))"
  using assms
proof (induction qs arbitrary: p st f)
  case Nil
  then have "st\<lparr>call_stack := push (f\<lparr>fn_memory := fn_memory f\<rparr>) rest\<rparr> = st" by simp
  with Nil show ?case by (intro exI [of _ "fn_memory f"]) simp
next
  case (Cons q qs)
  let ?f = "f\<lparr>fn_memory := link_value q v (fn_memory f)\<rparr>"
  let ?st = "st\<lparr>call_stack := push ?f rest\<rparr>"
  have step: "visit_assign tcx q (Use (Move p)) st = Inr ?st"
    by (rule visit_move [OF Cons.prems(1,2) _ Cons.prems(3)]) (use Cons.prems(4) in simp)
  have "call_stack ?st = push ?f rest" "get_linked_value q (fn_memory ?f) = Inr v" "\<not> is_indirect tcx q"
    "\<forall>q \<in> set qs. check_if_sync_variable q (fn_def_id ?f) tcx \<and> \<not> is_indirect tcx q"
    using Cons.prems(4) by simp_all
  from Cons.IH [OF this] obtain m where m: "move_along tcx q qs ?st = Inr (?st\<lparr>call_stack := push (?f\<lparr>fn_memory := m\<rparr>) rest\<rparr>)"
    "get_linked_value (last (q # qs)) m = Inr v" "\<forall>x. x \<notin> set qs \<longrightarrow> get_linked_value x m = get_linked_value x (fn_memory ?f)"
    by blast
  show ?case by (intro exI [of _ m]) (use step m in simp)
qed

lemma guard_drop_linked:
  "get_linked_value p m = Inr (MutexGuardValue g) \<Longrightarrow> guard_mutex g < length (mutexes s) \<Longrightarrow>
   handle_mutex_guard_drop N p t net m s = add_unlock_arc N (mutexes s ! guard_mutex g) t net"
  by (simp add: handle_mutex_guard_drop_def is_mutex_guard_def get_mutex_guard_def unpack_mutex_guard_def deref_cell_def
      linked_iff)

text \<open>
  C8. A guard unlocks the mutex it was locked from: after \<open>Mutex::lock\<close> stored its guard and the guard
  was moved along any chain of places, dropping the last place adds the unlock arc of the mutex that
  was locked.
\<close>

theorem moved_guard_unlocks_its_mutex:
  assumes "mutex_call_lock N name index args p places net0 m0 s0 = Inr (net1, fn_memory f)"
    "extract_nth_argument_as_place args 0 = Some self_ref" "get_mutex self_ref m0 = Inr r"
    "call_stack st = push f rest" "r < length (mutexes (cells st))" "\<not> is_indirect tcx p"
    "\<forall>q \<in> set qs. check_if_sync_variable q (fn_def_id f) tcx \<and> \<not> is_indirect tcx q"
  shows "\<exists>f'. move_along tcx p qs st = Inr (st\<lparr>call_stack := push f' rest\<rparr>) \<and>
    (\<forall>t net. handle_mutex_guard_drop N (last (p # qs)) t net (fn_memory f') (cells st) =
      add_unlock_arc N (mutexes (cells st) ! r) t net)"
proof -
  have "fn_memory f = link_mutex_guard p (guard_new r) m0"
    using assms(1-3) by (auto simp: mutex_call_lock_def ok_or_def Let_def)
  then have "get_linked_value p (fn_memory f) = Inr (MutexGuardValue (guard_new r))" by (simp add: link_value_simps)
  from moves_keep_value [OF assms(4) this assms(6,7)] obtain m where
    m: "move_along tcx p qs st = Inr (st\<lparr>call_stack := push (f\<lparr>fn_memory := m\<rparr>) rest\<rparr>)"
    "get_linked_value (last (p # qs)) m = Inr (MutexGuardValue (guard_new r))" by blast
  have "handle_mutex_guard_drop N (last (p # qs)) t net m (cells st) = add_unlock_arc N (mutexes (cells st) ! r) t net" for t net
    by (rule guard_drop_linked [OF m(2), unfolded guard_new_def mutex_guard.simps]) (rule assms(5))
  with m(1) show ?thesis by (intro exI [of _ "f\<lparr>fn_memory := m\<rparr>"]) simp
qed

text \<open>
  A program whose \<open>main\<close> has a mutex, two guards, a plain variable and a closure that captures both
  the plain variable and the mutex.
\<close>

definition tracking_program :: rustc where
  "tracking_program = (program [''main'', ''main::{closure#0}'']
     [[plain_ty, named_ty ''std::sync::Mutex<i32>'', named_ty ''std::sync::MutexGuard<'_, i32>'',
       named_ty ''std::sync::MutexGuard<'_, i32>'', named_ty ''i32'', \<lparr>kind = Closure 1, ty_string = ''closure''\<rparr>]] [])
     \<lparr>var_debug_info := (\<lambda>d. if d = 1 then [DebugPlace \<lparr>local = 1, projection = [Field 0 plain_ty]\<rparr>] else [])\<rparr>"

lemma tracking_program_types:
  "check_if_sync_variable (local_place 1) 0 tracking_program" "check_if_sync_variable (local_place 3) 0 tracking_program"
  "\<not> check_if_sync_variable (local_place 4) 0 tracking_program" "\<not> is_indirect tracking_program (local_place k)"
  by code_simp+

definition spawning_state :: "(simple_net, string, string) translator" where
  "spawning_state = \<lparr>tr_net = mutex_net, program_start = ''A'', program_end = ''B'', program_panic = ''D'',
     call_stack = push (mir_function_new 0 ''main'' ''A'' ''B'') stack_new,
     function_counter = counter_new, threads = [], postprocessing = heap_new, cells = mutex_store\<rparr>"

theorem moved_guard_unlocks_its_mutex_witness:
  "\<exists>(f :: string mir_function) net1 (f' :: string mir_function). mutex_call_lock simple_netcrab ''std::sync::Mutex::<T>::lock'' 0 [Move (local_place 1)] (local_place 2)
      (Basic_Places ''A'' ''B'') mutex_net (link_mutex (local_place 1) 0 memory_default) mutex_store = Inr (net1, fn_memory f) \<and>
    (\<forall>t net. handle_mutex_guard_drop simple_netcrab (local_place 3) t net (fn_memory f') mutex_store =
      add_unlock_arc simple_netcrab \<lparr>mutex_place = ''MUTEX_0'', deref_mut = []\<rparr> t net)"
proof -
  let ?m = "link_mutex (local_place 1) 0 memory_default"
  let ?f = "(mir_function_new 0 ''main'' ''A'' ''B'')\<lparr>fn_memory := link_mutex_guard (local_place 2) (guard_new 0) ?m\<rparr>"
  have "case mutex_call_lock simple_netcrab ''std::sync::Mutex::<T>::lock'' 0 [Move (local_place 1)] (local_place 2)
      (Basic_Places ''A'' ''B'') mutex_net ?m mutex_store of Inl _ \<Rightarrow> False | Inr (_, m) \<Rightarrow>
        m = link_mutex_guard (local_place 2) (guard_new 0) ?m" by code_simp
  then obtain net1 where lock: "mutex_call_lock simple_netcrab ''std::sync::Mutex::<T>::lock'' 0 [Move (local_place 1)] (local_place 2)
      (Basic_Places ''A'' ''B'') mutex_net ?m mutex_store = Inr (net1, fn_memory ?f)"
    by (auto split: sum.splits)
  let ?st = "spawning_state\<lparr>call_stack := push ?f stack_new\<rparr>"
  have "\<exists>f'. move_along tracking_program (local_place 2) [local_place 3] ?st = Inr (?st\<lparr>call_stack := push f' stack_new\<rparr>) \<and>
    (\<forall>t net. handle_mutex_guard_drop simple_netcrab (last [local_place 2, local_place 3]) t net (fn_memory f') (cells ?st) =
      add_unlock_arc simple_netcrab (mutexes (cells ?st) ! 0) t net)"
    by (rule moved_guard_unlocks_its_mutex [OF lock, of "local_place 1"])
      (use tracking_program_types in \<open>simp_all add: extract_nth_argument_as_place_def get_mutex_def unpack_mutex_def
        link_value_simps spawning_state_def mutex_net_facts\<close>)
  then obtain f' :: "string mir_function" where "\<forall>t net. handle_mutex_guard_drop simple_netcrab (last [local_place 2, local_place 3]) t net (fn_memory f')
      (cells ?st) = add_unlock_arc simple_netcrab (mutexes (cells ?st) ! 0) t net" by blast
  then have "\<forall>t net. handle_mutex_guard_drop simple_netcrab (local_place 3) t net (fn_memory f') mutex_store =
      add_unlock_arc simple_netcrab \<lparr>mutex_place = ''MUTEX_0'', deref_mut = []\<rparr> t net"
    by (simp add: spawning_state_def mutex_net_facts)
  with lock show ?thesis by blast
qed

section \<open>Captured variables\<close>

lemma link_debug_places_effect:
  assumes "try_fold (link_debug_place base) infos m = Inr m'" "get_linked_value base m = Inr (AggregateValue vs)"
  shows "(\<forall>x v. get_linked_value x m = Inr v \<longrightarrow> get_linked_value x m' = Inr v) \<and>
    (\<forall>q. DebugPlace q \<in> set infos \<longrightarrow> local q = 1 \<longrightarrow>
      (\<exists>k < length vs. get_field_number_in_projection q = Inr k \<and> get_linked_value q m' = Inr (vs ! k)))"
  using assms
proof (induction infos arbitrary: m)
  case (Cons info infos)
  then obtain m1 where m1: "link_debug_place base info m = Inr m1" "try_fold (link_debug_place base) infos m1 = Inr m'" by auto
  have step: "(\<forall>x v. get_linked_value x m = Inr v \<longrightarrow> get_linked_value x m1 = Inr v) \<and>
    (\<forall>q. info = DebugPlace q \<longrightarrow> local q = 1 \<longrightarrow>
      (\<exists>k < length vs. get_field_number_in_projection q = Inr k \<and> get_linked_value q m1 = Inr (vs ! k)))"
    using m1(1) link_field_effect [OF Cons.prems(2)]
    by (auto simp: link_debug_place_def split: var_debug_info_contents.splits if_splits)
  with Cons.prems(2) have "get_linked_value base m1 = Inr (AggregateValue vs)" by blast
  from Cons.IH [OF m1(2) this] step show ?case by (auto; metis)
qed simp

lemma move_sync_variables_effect:
  assumes "move_sync_variables self memory_default tcx = Inr m'" "DebugPlace q \<in> set (var_debug_info tcx (thread_def_id self))"
    "local q = 1"
  shows "\<exists>k < length (thread_aggregate self). get_field_number_in_projection q = Inr k \<and>
    get_linked_value q m' = Inr (thread_aggregate self ! k)"
proof -
  from assms(1) have "try_fold (link_debug_place (local_place 1)) (var_debug_info tcx (thread_def_id self))
      (link_value (local_place 1) (AggregateValue (thread_aggregate self)) memory_default) = Inr m'"
    by (auto simp: move_sync_variables_def Let_def link_aggregate_effect)
  from link_debug_places_effect [OF this] assms(2,3) show ?thesis by auto
qed

lemma captured_values:
  assumes "handle_aggregate_assignment closure operands m d tcx = Inr m1" "copy_aggregate closure m1 = Inr vs"
    "places_with_sync_variables operands d tcx = ps" "ps \<noteq> []"
  shows "length vs = length ps \<and> (\<forall>k < length ps. get_linked_value (ps ! k) m = Inr (vs ! k))"
proof -
  have "create_aggregate closure ps m = Inr m1"
    using assms(1,3,4) by (auto simp: handle_aggregate_assignment_def Let_def split: list.splits)
  then obtain ws where ws: "m1 = link_value closure (AggregateValue ws) m" "length ws = length ps"
    "\<And>i. i < length ps \<Longrightarrow> get_linked_value (ps ! i) m = Inr (ws ! i)" by (rule create_aggregate_effect) blast
  with assms(2) have "vs = ws" by (simp add: copy_aggregate_def unpack_aggregate_def)
  with ws show ?thesis by simp
qed

text \<open>
  C14. The closure of a thread gets the synchronization variables it captured: if the closure was
  built from the operands in the spawning function and its variables were moved into the thread,
  then every captured variable of the thread has the value that the operand of its field number
  had, counted among the operands that are synchronization variables.
\<close>

theorem thread_gets_captured_variables:
  assumes "handle_aggregate_assignment closure operands m d tcx = Inr m1" "copy_aggregate closure m1 = Inr vs"
    "places_with_sync_variables operands d tcx = ps" "ps \<noteq> []"
    "move_sync_variables (thread_new t thread_fn vs index) memory_default tcx = Inr m2"
    "DebugPlace q \<in> set (var_debug_info tcx thread_fn)" "local q = 1"
  shows "\<exists>k < length ps. get_field_number_in_projection q = Inr k \<and> get_linked_value q m2 = get_linked_value (ps ! k) m"
  using move_sync_variables_effect [OF assms(5), of q] captured_values [OF assms(1-4)] assms(6,7)
  by (auto simp: thread_new_def)

lemma captured_mutex:
  "places_with_sync_variables [Move (local_place 1)] 0 tracking_program = [local_place 1]"
  "places_with_sync_variables [Move (local_place 4), Move (local_place 1)] 0 tracking_program = [local_place 1]"
  "places_with_sync_variables [Move (local_place 4)] 0 tracking_program = []"
  by code_simp+

theorem thread_gets_captured_variables_witness:
  "\<exists>m2. move_sync_variables (thread_new ''SPAWN'' 1 [MutexValue 7] 0) memory_default tracking_program = Inr m2 \<and>
    get_linked_value \<lparr>local = 1, projection = [Field 0 plain_ty]\<rparr> m2 = Inr (MutexValue 7)"
proof -
  let ?m = "link_mutex (local_place 1) 7 memory_default" and ?q = "\<lparr>local = 1, projection = [Field 0 plain_ty]\<rparr>"
  let ?m1 = "link_value (local_place 5) (AggregateValue [MutexValue 7]) ?m"
  have 1: "handle_aggregate_assignment (local_place 5) [Move (local_place 1)] ?m 0 tracking_program = Inr ?m1"
    by (simp only: handle_aggregate_assignment_def captured_mutex Let_def list.case create_aggregate_def)
      (simp add: link_value_simps link_aggregate_effect)
  have 2: "copy_aggregate (local_place 5) ?m1 = Inr [MutexValue 7]" by (simp add: copy_aggregate_def unpack_aggregate_def)
  have "case move_sync_variables (thread_new ''SPAWN'' 1 [MutexValue 7] 0) memory_default tracking_program of
      Inl _ \<Rightarrow> False | Inr _ \<Rightarrow> True" by code_simp
  then obtain m2 where 3: "move_sync_variables (thread_new ''SPAWN'' 1 [MutexValue 7] 0) memory_default tracking_program = Inr m2"
    by (auto split: sum.splits)
  have "DebugPlace ?q \<in> set (var_debug_info tracking_program 1)" by (simp add: tracking_program_def)
  from thread_gets_captured_variables [OF 1 2 captured_mutex(1) _ 3 this] 3 show ?thesis by (simp add: link_value_simps)
qed

text \<open>
  C26. A closure that captures a plain variable beside a synchronization variable makes the
  translation panic: the aggregate keeps only the synchronization variables, but the variables of the
  thread are looked up by their number among all captured ones, so the last of them is out of bounds.
\<close>

theorem closure_with_plain_capture_panics:
  assumes "handle_aggregate_assignment closure operands m d tcx = Inr m1" "copy_aggregate closure m1 = Inr vs"
    "places_with_sync_variables operands d tcx = ps" "ps \<noteq> []"
    "DebugPlace q \<in> set (var_debug_info tcx thread_fn)" "local q = 1"
    "get_field_number_in_projection q = Inr k" "length ps \<le> k"
  shows "\<exists>e. move_sync_variables (thread_new t thread_fn vs index) memory_default tcx = Inl e"
proof (cases "move_sync_variables (thread_new t thread_fn vs index) memory_default tcx")
  case (Inr m2)
  with move_sync_variables_effect [OF Inr, of q] captured_values [OF assms(1-4)] assms(5-8) show ?thesis
    by (simp add: thread_new_def)
qed simp

theorem closure_with_plain_capture_panics_witness:
  "\<exists>e. move_sync_variables (thread_new ''SPAWN'' 1 [MutexValue 7] 0) memory_default
    (tracking_program\<lparr>var_debug_info := \<lambda>_. [DebugPlace \<lparr>local = 1, projection = [Field 0 plain_ty]\<rparr>,
      DebugPlace \<lparr>local = 1, projection = [Field 1 plain_ty]\<rparr>]\<rparr>) = Inl e"
proof -
  let ?m = "link_mutex (local_place 1) 7 memory_default" and ?q = "\<lparr>local = 1, projection = [Field 1 plain_ty]\<rparr>"
  let ?m1 = "link_value (local_place 5) (AggregateValue [MutexValue 7]) ?m"
  let ?tcx = "tracking_program\<lparr>var_debug_info := \<lambda>_. [DebugPlace \<lparr>local = 1, projection = [Field 0 plain_ty]\<rparr>, DebugPlace ?q]\<rparr>"
  have ps: "places_with_sync_variables [Move (local_place 4), Move (local_place 1)] 0 ?tcx = [local_place 1]" by code_simp
  have 1: "handle_aggregate_assignment (local_place 5) [Move (local_place 4), Move (local_place 1)] ?m 0 ?tcx = Inr ?m1"
    by (simp only: handle_aggregate_assignment_def ps Let_def list.case create_aggregate_def)
      (simp add: link_value_simps link_aggregate_effect)
  have 2: "copy_aggregate (local_place 5) ?m1 = Inr [MutexValue 7]" by (simp add: copy_aggregate_def unpack_aggregate_def)
  show ?thesis
    by (rule closure_with_plain_capture_panics [OF 1 2 ps, of ?q 1 1]) (simp_all add: get_field_number_in_projection_def)
qed

text \<open>
  C27. A closure that captures only plain variables cannot be spawned: no value is linked to it, and
  the call of \<open>std::thread::spawn\<close> panics.
\<close>

theorem closure_without_sync_variables_panics:
  assumes "call_stack st = push f rest" "get_linked_value closure (fn_memory f) = Inl PlaceNotLinked"
    "places_with_sync_variables operands (fn_def_id f) tcx = []"
    "\<not> is_indirect tcx closure" "kind (place_ty tcx (fn_def_id f) closure) = Closure d"
    "call_foreign_function N name (fst (get_count name (function_counter st))) places (tr_net st) = Inr (ts, net)"
  shows "and_then (visit_assign tcx closure (AggregateRvalue operands) st)
    (call_thread_spawn N tcx name [Move closure] destination places) = Inl PlaceNotLinked"
proof -
  have "visit_assign tcx closure (AggregateRvalue operands) st = Inr st"
    using assms(1,3) by (simp add: visit_assign_def handle_aggregate_assignment_def)
  moreover have "call_thread_spawn N tcx name [Move closure] destination places st = Inl PlaceNotLinked"
    using assms by (cases "get_count name (function_counter st)")
      (simp add: call_thread_spawn_def translator_call_foreign_function_def link_return_value_if_sync_variable_def
        link_if_sync_variable_def link_place_to_same_value_def extract_nth_argument_as_place_def
        extract_def_id_of_called_function_from_operand_def extract_closure_def copy_aggregate_def)
  ultimately show ?thesis by simp
qed

theorem closure_without_sync_variables_panics_witness:
  "and_then (visit_assign tracking_program (local_place 5) (AggregateRvalue [Move (local_place 4)]) spawning_state)
    (call_thread_spawn simple_netcrab tracking_program ''std::thread::spawn'' [Move (local_place 5)] (local_place 6)
      (Basic_Places ''A'' ''B'')) = Inl PlaceNotLinked"
proof -
  have "case call_foreign_function simple_netcrab ''std::thread::spawn'' (fst (get_count ''std::thread::spawn'' (function_counter spawning_state)))
      (Basic_Places ''A'' ''B'') (tr_net spawning_state) of Inl _ \<Rightarrow> False | Inr _ \<Rightarrow> True" by code_simp
  then obtain ts net where call: "call_foreign_function simple_netcrab ''std::thread::spawn'' (fst (get_count ''std::thread::spawn''
      (function_counter spawning_state))) (Basic_Places ''A'' ''B'') (tr_net spawning_state) = Inr (ts, net)"
    by (auto split: sum.splits)
  have "call_stack spawning_state = push (mir_function_new 0 ''main'' ''A'' ''B'') stack_new"
    by (simp add: spawning_state_def)
  moreover have "kind (place_ty tracking_program 0 (local_place 5)) = Closure 1" by code_simp
  ultimately show ?thesis
    using closure_without_sync_variables_panics [OF _ _ _ _ _ call, of "mir_function_new 0 ''main'' ''A'' ''B''"]
      captured_mutex(3) tracking_program_types(4) by (simp del: places_with_sync_variables.simps)
qed

end
