(* ===== verification/Example_Runs.thy ===== *)
theory Example_Runs
  imports Translator Net_Semantics Examples
begin

text \<open>
  Whole translations, evaluated: the nets of \<open>src/examples/results\<close> and the answers the model
  checker has to give on them.
\<close>

definition translate_program :: "rustc \<Rightarrow> nat \<Rightarrow> nat \<Rightarrow> simple_net res" where
  "translate_program tcx depth rounds =
     and_then (translator_new simple_netcrab) (\<lambda>st.
     and_then (run simple_netcrab tcx depth rounds st) (\<lambda>st.
     Inr (fst (get_result simple_netcrab st))))"

section \<open>The nets of the examples\<close>

definition net_file :: "(string \<times> nat) list \<Rightarrow> (string \<times> string list \<times> string list) list \<Rightarrow> simple_net" where
  "net_file places transitions = \<lparr>sn_places = places, sn_transitions =
     map (\<lambda>(t, consume, produce). (t, map (\<lambda>p. (p, 1)) consume, map (\<lambda>p. (p, 1)) produce)) transitions\<rparr>"

text \<open>\<open>results/mutex/double_lock_deadlock/net.lola\<close>, in the order of creation.\<close>

definition double_lock_net :: simple_net where
  "double_lock_net = net_file
     [(''PROGRAM_PANIC'', 0), (''PROGRAM_END'', 0), (''PROGRAM_START'', 1), (''main_BB1'', 0), (''MUTEX_0'', 1),
      (''main_BB2'', 0), (''main_BB3'', 0), (''main_BB6'', 0), (''main_BB4'', 0), (''main_BB5'', 0), (''main_BB7'', 0)]
     [(''std_sync_Mutex_T_new_0_CALL'', [''PROGRAM_START''], [''main_BB1'']),
      (''std_sync_Mutex_T_lock_0_CALL'', [''main_BB1'', ''MUTEX_0''], [''main_BB2'']),
      (''std_sync_Mutex_T_lock_1_CALL'', [''main_BB2'', ''MUTEX_0''], [''main_BB3'']),
      (''main_DROP_3'', [''main_BB3''], [''main_BB4'', ''MUTEX_0'']),
      (''main_DROP_UNWIND_3'', [''main_BB3''], [''main_BB6'', ''MUTEX_0'']),
      (''main_DROP_4'', [''main_BB4''], [''main_BB5'', ''MUTEX_0'']),
      (''main_RETURN'', [''main_BB5''], [''PROGRAM_END'']),
      (''main_DROP_6'', [''main_BB6''], [''main_BB7'', ''MUTEX_0'']),
      (''main_UNWIND_7'', [''main_BB7''], [''PROGRAM_PANIC''])]"

text \<open>\<open>results/thread/spawn_with_empty_closure/net.lola\<close>\<close>

definition spawn_net :: simple_net where
  "spawn_net = net_file
     [(''PROGRAM_PANIC'', 0), (''PROGRAM_END'', 0), (''PROGRAM_START'', 1), (''main_BB1'', 0), (''main_BB2'', 0),
      (''main_BB3'', 0), (''THREAD_0_START'', 0), (''THREAD_0_END'', 0)]
     [(''std_thread_spawn_0_CALL'', [''PROGRAM_START''], [''main_BB1'', ''THREAD_0_START'']),
      (''std_thread_JoinHandle_T_join_0_CALL'', [''main_BB1'', ''THREAD_0_END''], [''main_BB2'']),
      (''main_DROP_2'', [''main_BB2''], [''main_BB3'']),
      (''main_RETURN'', [''main_BB3''], [''PROGRAM_END'']),
      (''main__closure_0__RETURN'', [''THREAD_0_START''], [''THREAD_0_END''])]"

text \<open>\<open>results/condvar/self_notify_lost_signal/net.lola\<close>\<close>

definition lost_signal_net :: simple_net where
  "lost_signal_net = net_file
     [(''PROGRAM_PANIC'', 0), (''PROGRAM_END'', 0), (''PROGRAM_START'', 1), (''main_BB1'', 0), (''MUTEX_0'', 1),
      (''main_BB2'', 0), (''CONDVAR_0_WAIT_ENABLED'', 1), (''CONDVAR_0_NOTIFY'', 0), (''main_BB3'', 0), (''main_BB4'', 0),
      (''main_BB5'', 0), (''main_BB10'', 0), (''main_BB6'', 0), (''main_BB7'', 0), (''main_BB8'', 0), (''main_BB9'', 0)]
     [(''std_sync_Mutex_T_new_0_CALL'', [''PROGRAM_START''], [''main_BB1'']),
      (''std_sync_Condvar_new_0_CALL'', [''main_BB1''], [''main_BB2'']),
      (''CONDVAR_0_WAIT_START'', [''CONDVAR_0_WAIT_ENABLED'', ''main_BB5''], [''MUTEX_0'']),
      (''CONDVAR_0_LOST_SIGNAL'', [''CONDVAR_0_WAIT_ENABLED'', ''CONDVAR_0_NOTIFY''], [''CONDVAR_0_WAIT_ENABLED'']),
      (''CONDVAR_0_NOTIFY_RECEIVED'', [''CONDVAR_0_NOTIFY'', ''MUTEX_0''], [''CONDVAR_0_WAIT_ENABLED'', ''main_BB6'']),
      (''std_sync_Mutex_T_lock_0_CALL'', [''main_BB2'', ''MUTEX_0''], [''main_BB3'']),
      (''std_result_Result_unwrap_0_CALL'', [''main_BB3''], [''main_BB4'']),
      (''std_sync_Condvar_notify_one_0_CALL'', [''main_BB4''], [''main_BB5'', ''CONDVAR_0_NOTIFY'']),
      (''main_DROP_6'', [''main_BB6''], [''main_BB7'', ''MUTEX_0'']),
      (''main_DROP_UNWIND_6'', [''main_BB6''], [''main_BB10'', ''MUTEX_0'']),
      (''main_RETURN'', [''main_BB7''], [''PROGRAM_END'']),
      (''main_UNWIND_8'', [''main_BB8''], [''PROGRAM_PANIC'']),
      (''main_DROP_9'', [''main_BB9''], [''main_BB8'', ''MUTEX_0'']),
      (''main_SWITCH_INT_FROM_BB10_TO_BB8'', [''main_BB10''], [''main_BB8'']),
      (''main_SWITCH_INT_FROM_BB10_TO_BB9'', [''main_BB10''], [''main_BB9''])]"

section \<open>The answers\<close>






end
