(* ===== verification/Spec2Isabelle.thy ===== *)
theory Spec2Isabelle
  imports Driver_Properties Translator_Safety Recursion Postprocessing Tracking Example_Runs
begin

text \<open>
  A verification of \<open>cargo-check-deadlock\<close>, the program under \<open>src\<close>: it compiles a Rust program,
  translates its MIR (the intermediate representation of the compiler) to a Petri net, and asks the
  model checker LoLA whether the net can reach a deadlock.

  \<^bold>\<open>The program and the theories.\<close> Each part of the program has one theory, which holds its state, one
  definition for each function of the source and the lemmas about them. The definitions have the
  names of the source, with the module as a prefix or suffix where a name is used twice.

  \<^item> \<open>Prelude\<close>: panics as values (\<open>'a res\<close>, composed with \<open>and_then\<close> and \<open>try_fold\<close>), the predicate
    \<open>ensures E Q r\<close> (the result \<open>r\<close> is a panic in \<open>E\<close> or a value in \<open>Q\<close>), the methods of strings and
    hash maps of the Rust standard library. \<open>Binary_Heap\<close> is the \<open>BinaryHeap\<close> of that library.
  \<^item> \<open>Stack\<close>, \<open>Hash_Map_Counter\<close>: \<open>data_structures/stack.rs\<close> and \<open>hash_map_counter.rs\<close>.
  \<^item> \<open>Petri_Net_Interface\<close>: \<open>data_structures/petri_net_interface.rs\<close> over the net library \<open>netcrab\<close>,
    which is a parameter (the record \<open>netcrab\<close> of its operations). The locale \<open>petri_net\<close> says that
    references to nodes stay valid, \<open>labelled_petri_net\<close> moreover what a new node, arc or token does to
    the net. \<open>Simple_Net\<close> is an executable net library that has these laws.
  \<^item> \<open>Naming\<close>: \<open>naming.rs\<close> and \<open>naming/*.rs\<close>, the labels of places and transitions.
  \<^item> \<open>Mir\<close>, \<open>Utils\<close>: what the program reads of the compiler, with the queries as a parameter (the record
    \<open>rustc\<close>), and \<open>utils.rs\<close>.
  \<^item> \<open>Memory\<close>, \<open>Store\<close>: \<open>translator/mir_function/memory.rs\<close>; a shared \<open>Rc\<close> is an address of a store.
  \<^item> \<open>Function_Places\<close>, \<open>Special_Function\<close>: \<open>translator/function.rs\<close> and \<open>special_function.rs\<close>.
  \<^item> \<open>Mutex\<close>, \<open>Condvar\<close>, \<open>Thread\<close>, \<open>Sync\<close>: \<open>translator/sync/*.rs\<close> and \<open>translator/sync.rs\<close>.
  \<^item> \<open>Mir_Function\<close>: \<open>translator/mir_function.rs\<close>, \<open>basic_block.rs\<close> and \<open>terminator.rs\<close>.
  \<^item> \<open>Translator\<close>: \<open>translator.rs\<close> and \<open>translator/mir_visitor.rs\<close>. The visitor receives the blocks,
    assignments and terminators of a function; a call pushes a frame on the call stack and translates
    the called function in place; a spawned thread is queued and translated after \<open>main\<close>; then the
    postprocessing tasks connect the \<open>wait\<close> calls with the mutexes.
  \<^item> \<open>Driver\<close>: \<open>lib.rs\<close>, \<open>sysroot.rs\<close>, \<open>compiler_config.rs\<close>, \<open>model_checker/lola.rs\<close> and
    \<open>bin/check-deadlock/*.rs\<close>, from the parsed arguments to the exit code, the printed lines and the
    written files. The file system, the commands and the rendering of a net are a parameter.
  \<^item> \<open>Examples\<close>: programs of \<open>examples/programs\<close> as the compiler hands them over.
  \<^item> \<open>Net_Semantics\<close>: enabled transitions, reachable and dead markings, place invariants, and an
    executable exploration of a net, which is what the model checker is asked about.

  \<^bold>\<open>What is shown.\<close>

  \<^item> \<open>Translator_Safety\<close>: the translator keeps its state consistent and raises no internal panic, for
    every program and every net library with valid references.
  \<^item> \<open>Control_Flow\<close>: the net of a program without calls is its control flow graph; it holds one token
    and never deadlocks.
  \<^item> \<open>Inlined_Graph\<close>, \<open>Sequential\<close>: the specification of the translation of a program without
    synchronization variables, as a list of labelled edges that is computed from the program alone, and
    the proof that the translator draws exactly this graph, call by call and block by block: the bodies
    of called functions in place of the calls, the edges of foreign and panicking calls, and a dead end
    for each call that does not return. Such a program is reported to deadlock if and only if a path
    leads to a call that does not return. That no label is used twice is a hypothesis on the graph: the
    labels of the code can collide (\<open>Naming\<close>), and what the net library does then is not documented.
  \<^item> \<open>Sync_Effects\<close>, \<open>Condition_Effects\<close>, \<open>Sync_Properties\<close>: what mutexes, threads, condition variables
    and their conditions add to the net, mutual exclusion and the condition as invariants of all
    reachable markings, and the calls that are refused.
  \<^item> \<open>Tracking\<close>: values follow moves, aggregates and captures, so that a guard unlocks the mutex it was
    locked from; the closures whose captures make the translation panic.
  \<^item> \<open>Termination\<close>, \<open>Recursion\<close>: programs without recursion have a result, recursive programs have none.
  \<^item> \<open>Postprocessing\<close>: all mutexes are collected before the first \<open>wait\<close> call is linked.
  \<^item> \<open>Driver_Properties\<close>: the printed verdict is the answer to the reachability question about the
    translated net; for a program without synchronization variables it is the answer about its graph;
    exit codes; which files are written and where.
  \<^item> \<open>Example_Runs\<close>: whole translations of examples, equal to the golden files of the repository, with
    the deadlocks that they have; two programs that are translated wrongly.
  \<^item> \<open>Naming\<close>, \<open>Stack\<close>, \<open>Hash_Map_Counter\<close>: labels are unique inside a function and can collide
    between functions; the two data structures behave as their references.

  \<^bold>\<open>Bounds.\<close> The code recurses through the visitor and loops over the threads, and neither need end. The
  definition \<open>run\<close> takes a bound on the depth of the recursion and one on the rounds of the loop, and
  returns the panic \<open>OutOfFuel\<close>, which the program does not have, when one is too small. Larger bounds
  never change another result (\<open>Termination\<close>), a depth above the longest chain of calls is enough for
  a program without recursion, and no bound is enough for a recursive one (\<open>Recursion\<close>). All other
  definitions are total.

  \<^bold>\<open>Integers.\<close> A \<open>usize\<close> is a \<open>nat\<close>: all of them count blocks, calls, threads or cells of one run. The
  priority of a task is a \<open>u8\<close>. The tokens of a place are bounded by the net library.

  \<^bold>\<open>Not modelled.\<close> The compiler, \<open>netcrab\<close> and LoLA are parameters; what is used of them is a hypothesis
  of each property, and is shown to be satisfiable on \<open>Simple_Net\<close> and the example environment of
  \<open>Driver_Properties\<close>. The generated parser of the arguments and the logger have no counterpart, log
  and debug messages are left out, and so is the text of a panic beyond its arguments. The fields of
  the compiler configuration that do not depend on the arguments are left out. A fatal error of the
  compiler itself is the panic of a missing typing context. Tests, example sources and scripts are
  inputs of the tool.
\<close>

end
